(* ===== verification/Prelude.thy ===== *)
theory Prelude
  imports Main "HOL-Library.Word" "HOL-Library.Multiset"
begin

text \<open>
  Shared vocabulary of the development: the ways a C++ routine of RCL can stop
  (\<open>halt\<close>), results as sums, C integer conversions, bounds-checked array access,
  and the generic list and arithmetic lemmas the components share.
\<close>

section \<open>Outcomes\<close>

text \<open>
  \<open>LogFatal\<close> is glog's \<open>LOG(FATAL)\<close> or a failed \<open>CHECK\<close>, which abort the
  process; \<open>AssertFail\<close> is a failed \<open>assert\<close>; \<open>Throw what\<close> an exception that
  is not caught; \<open>Exit n\<close> is \<open>exit(n)\<close>; \<open>OutOfBounds\<close> stands for the undefined
  behaviour of an access past the end of an array or vector; \<open>OutOfFuel\<close> is a loop
  that has not ended within the number of iterations the model was given.
  Log lines and sleeps have no effect on the modelled state and are left out.
\<close>

datatype halt = LogFatal | AssertFail | Throw string | Exit int | OutOfBounds | OutOfFuel

type_synonym 'a result = "halt + 'a"

definition bindR :: "'e + 'a \<Rightarrow> ('a \<Rightarrow> 'e + 'b) \<Rightarrow> 'e + 'b" where
  "bindR m f = (case m of Inl e \<Rightarrow> Inl e | Inr x \<Rightarrow> f x)"

definition guardR :: "bool \<Rightarrow> 'e \<Rightarrow> 'e + unit" where
  "guardR b e = (if b then Inr () else Inl e)"

lemma bindR_simps [simp]:
  "bindR (Inl e) f = Inl e"
  "bindR (Inr x) f = f x"
  by (simp_all add: bindR_def)

lemma bindR_eq_Inr_iff: "bindR m f = Inr y \<longleftrightarrow> (\<exists>x. m = Inr x \<and> f x = Inr y)"
  by (cases m) auto

lemma bindR_eq_Inl_iff:
  "bindR m f = Inl e \<longleftrightarrow> m = Inl e \<or> (\<exists>x. m = Inr x \<and> f x = Inl e)"
  by (cases m) auto

lemma guardR_simps [simp]:
  "guardR True e = Inr ()"
  "guardR False e = Inl e"
  "guardR b e = Inr u \<longleftrightarrow> b"
  by (auto simp: guardR_def)

text \<open>A bounds-checked read of \<open>v[i]\<close>, and a bounds-checked write.\<close>

definition at :: "'a list \<Rightarrow> nat \<Rightarrow> 'a result" where
  "at xs i = (if i < length xs then Inr (xs ! i) else Inl OutOfBounds)"

definition put :: "'a list \<Rightarrow> nat \<Rightarrow> 'a \<Rightarrow> 'a list result" where
  "put xs i x = (if i < length xs then Inr (xs[i := x]) else Inl OutOfBounds)"

lemma at_Inr_iff: "at xs i = Inr x \<longleftrightarrow> i < length xs \<and> xs ! i = x"
  by (auto simp: at_def)

lemma at_in_range [simp]: "i < length xs \<Longrightarrow> at xs i = Inr (xs ! i)"
  by (simp add: at_def)

lemma put_in_range [simp]: "i < length xs \<Longrightarrow> put xs i x = Inr (xs[i := x])"
  by (simp add: put_def)

section \<open>Machine integers\<close>

type_synonym u8 = "8 word"
type_synonym u16 = "16 word"
type_synonym u32 = "32 word"
type_synonym u64 = "64 word"

text \<open>
  C's conversions: \<open>to_int32\<close> is the value an \<open>int\<close> takes when an unbounded value is
  stored in it (two's complement, as gcc does); \<open>cdiv\<close> and \<open>cmod\<close> truncate
  towards zero.
\<close>

definition to_int32 :: "int \<Rightarrow> int" where
  "to_int32 x = sint (word_of_int x :: u32)"

definition to_uint32 :: "int \<Rightarrow> int" where
  "to_uint32 x = x mod 2 ^ 32"

definition cdiv :: "int \<Rightarrow> int \<Rightarrow> int" where
  "cdiv a b = sgn a * sgn b * (\<bar>a\<bar> div \<bar>b\<bar>)"

definition cmod :: "int \<Rightarrow> int \<Rightarrow> int" where
  "cmod a b = a - cdiv a b * b"

lemma cdiv_nonneg [simp]: "0 \<le> a \<Longrightarrow> 0 < b \<Longrightarrow> cdiv a b = a div b"
  by (cases "a = 0") (simp_all add: cdiv_def)

lemma cmod_nonneg [simp]: "0 \<le> a \<Longrightarrow> 0 < b \<Longrightarrow> cmod a b = a mod b"
  by (simp add: cmod_def minus_div_mult_eq_mod)

lemma sint_word_of_int_small:
  fixes x :: int
  assumes "- (2 ^ (LENGTH('a::len) - 1)) \<le> x" and "x < 2 ^ (LENGTH('a) - 1)"
  shows "sint (word_of_int x :: 'a word) = x"
  using assms by (simp add: sint_sbintrunc' signed_take_bit_int_eq_self)

lemma to_int32_small: "- (2 ^ 31) \<le> x \<Longrightarrow> x < 2 ^ 31 \<Longrightarrow> to_int32 x = x"
  by (simp add: to_int32_def sint_word_ariths signed_take_bit_int_eq_self sint_sbintrunc')

lemma unat_of_int_nat [simp]: "i < 2 ^ 64 \<Longrightarrow> unat (word_of_int (int i) :: u64) = i"
  by (simp add: unsigned_of_nat take_bit_nat_eq_self)

section \<open>Lists and modular indices\<close>

lemma append_prefix_split:
  "xs @ ys = us @ vs \<Longrightarrow> length xs \<le> length us \<Longrightarrow> \<exists>zs. us = xs @ zs \<and> ys = zs @ vs"
  by (auto simp: append_eq_append_conv2)

text \<open>A linear search \<open>for (i = ...; i < n; i++) if (P(i)) break;\<close>: the first hit.\<close>

fun find_index :: "(nat \<Rightarrow> bool) \<Rightarrow> nat \<Rightarrow> nat \<Rightarrow> nat option" where
  "find_index P i 0 = None"
| "find_index P i (Suc n) = (if P i then Some i else find_index P (Suc i) n)"

lemma find_index_Some:
  "find_index P i n = Some k \<Longrightarrow> i \<le> k \<and> k < i + n \<and> P k \<and> (\<forall>j. i \<le> j \<and> j < k \<longrightarrow> \<not> P j)"
proof (induction n arbitrary: i)
  case (Suc n)
  show ?case
  proof (cases "P i")
    case False
    with Suc show ?thesis by (fastforce simp: le_Suc_eq Suc_le_eq dest: le_neq_implies_less)
  qed (use Suc in auto)
qed simp

lemma find_index_None: "find_index P i n = None \<longleftrightarrow> (\<forall>j. i \<le> j \<and> j < i + n \<longrightarrow> \<not> P j)"
proof (induction n arbitrary: i)
  case (Suc n)
  have "(\<forall>j. i \<le> j \<and> j < i + Suc n \<longrightarrow> \<not> P j) \<longleftrightarrow> \<not> P i \<and> (\<forall>j. Suc i \<le> j \<and> j < Suc i + n \<longrightarrow> \<not> P j)"
    by (metis Suc_leD Suc_le_eq add_Suc_right add_Suc le_neq_implies_less less_add_Suc1 order_refl)
  with Suc show ?case by simp
qed auto

lemma find_index_nth:
  assumes "distinct xs" and "i < length xs"
  shows "find_index (\<lambda>j. xs ! j = xs ! i) 0 (length xs) = Some i"
proof (cases "find_index (\<lambda>j. xs ! j = xs ! i) 0 (length xs)")
  case None
  with assms(2) show ?thesis by (auto simp: find_index_None)
next
  case (Some k)
  with assms show ?thesis using find_index_Some [OF Some] by (auto simp: nth_eq_iff_index_eq)
qed

lemma map_upt_Suc_hd: "map f [0..<Suc n] = f 0 # map (\<lambda>k. f (Suc k)) [0..<n]"
  by (simp add: upt_conv_Cons map_Suc_upt [symmetric] del: upt_Suc)

lemma add_mod_inj:
  fixes a i j c :: nat
  assumes "i < c" and "j < c" and "(a + i) mod c = (a + j) mod c"
  shows "i = j"
  using assms
proof (induction i j rule: linorder_wlog)
  case (le i j)
  from le have "c dvd (a + j) - (a + i)"
    by (metis add_le_cancel_left mod_eq_dvd_iff_nat)
  with le show ?case
    by (metis add_diff_cancel_left dvd_imp_le le_antisym less_imp_diff_less not_less zero_less_diff
        linorder_not_less)
qed auto

end
