(* ===== verification/Queues.thy ===== *)
theory Queues
  imports Prelude
begin

text \<open>
  The queue interfaces of the system. RCL passes work between threads through three kinds
  of queue (the lock-free ring \<open>SPSCQueue\<close>, the mutex-protected \<open>BlockingQueue\<close> and
  plain \<open>std::queue\<close>). What their clients rely on is stated once as a locale, with the
  client lemmas proved inside it; each queue interprets it in its own theory.
\<close>

section \<open>Runs of queue operations and the abstract bounded queue\<close>

datatype 'a qop = Enq 'a | Deq

datatype 'a qres = Pushed bool | Popped "'a option"

fun qrun :: "('a \<Rightarrow> 'q \<Rightarrow> 'q option) \<Rightarrow> ('q \<Rightarrow> ('a \<times> 'q) option) \<Rightarrow> 'a qop list \<Rightarrow> 'q
    \<Rightarrow> 'a qres list \<times> 'q" where
  "qrun enq deq [] q = ([], q)"
| "qrun enq deq (Enq x # ops) q =
     (case enq x q of
        None \<Rightarrow> apfst (Cons (Pushed False)) (qrun enq deq ops q)
      | Some q' \<Rightarrow> apfst (Cons (Pushed True)) (qrun enq deq ops q'))"
| "qrun enq deq (Deq # ops) q =
     (case deq q of
        None \<Rightarrow> apfst (Cons (Popped None)) (qrun enq deq ops q)
      | Some (x, q') \<Rightarrow> apfst (Cons (Popped (Some x))) (qrun enq deq ops q'))"

text \<open>The specification: a list that holds at most \<open>n\<close> elements.\<close>

definition list_enq :: "nat \<Rightarrow> 'a \<Rightarrow> 'a list \<Rightarrow> 'a list option" where
  "list_enq n x xs = (if length xs < n then Some (xs @ [x]) else None)"

definition list_deq :: "'a list \<Rightarrow> ('a \<times> 'a list) option" where
  "list_deq xs = (case xs of [] \<Rightarrow> None | y # ys \<Rightarrow> Some (y, ys))"

fun enq_all :: "('a \<Rightarrow> 'q \<Rightarrow> 'q option) \<Rightarrow> 'a list \<Rightarrow> 'q \<Rightarrow> 'q option" where
  "enq_all enq [] q = Some q"
| "enq_all enq (x # xs) q = Option.bind (enq x q) (enq_all enq xs)"

fun deq_n :: "('q \<Rightarrow> ('a \<times> 'q) option) \<Rightarrow> nat \<Rightarrow> 'q \<Rightarrow> ('a list \<times> 'q) option" where
  "deq_n deq 0 q = Some ([], q)"
| "deq_n deq (Suc n) q =
     (case deq q of None \<Rightarrow> None
      | Some (x, q') \<Rightarrow> map_option (apfst (Cons x)) (deq_n deq n q'))"

section \<open>The contract of a FIFO queue\<close>

locale fifo_queue =
  fixes items :: "'q \<Rightarrow> 'a list"
    and inv :: "'q \<Rightarrow> bool"
    and enq :: "'a \<Rightarrow> 'q \<Rightarrow> 'q option"
    and deq :: "'q \<Rightarrow> ('a \<times> 'q) option"
  assumes enq_items: "inv q \<Longrightarrow> enq x q = Some q' \<Longrightarrow> items q' = items q @ [x]"
    and enq_inv: "inv q \<Longrightarrow> enq x q = Some q' \<Longrightarrow> inv q'"
    and deq_items: "inv q \<Longrightarrow> map_option (apsnd items) (deq q) = list_deq (items q)"
    and deq_inv: "inv q \<Longrightarrow> deq q = Some (x, q') \<Longrightarrow> inv q'"
begin

lemma deq_None_iff: "inv q \<Longrightarrow> deq q = None \<longleftrightarrow> items q = []"
  using deq_items [of q] by (cases "deq q") (auto simp: list_deq_def split: list.splits)

lemma deq_SomeD: "inv q \<Longrightarrow> deq q = Some (x, q') \<Longrightarrow> items q = x # items q' \<and> inv q'"
  using deq_items [of q] deq_inv [of q x q']
  by (auto simp: list_deq_def split: list.splits)

lemma deq_Cons: "inv q \<Longrightarrow> items q = x # xs \<Longrightarrow> \<exists>q'. deq q = Some (x, q') \<and> items q' = xs \<and> inv q'"
  using deq_items [of q] deq_inv [of q]
  by (cases "deq q") (auto simp: list_deq_def)

lemma enq_all_items:
  "inv q \<Longrightarrow> enq_all enq xs q = Some q' \<Longrightarrow> items q' = items q @ xs \<and> inv q'"
proof (induction xs arbitrary: q)
  case (Cons x xs)
  then obtain q1 where "enq x q = Some q1" "enq_all enq xs q1 = Some q'"
    by (auto simp: bind_eq_Some_conv)
  with Cons enq_items enq_inv show ?case by fastforce
qed simp

lemma deq_n_items:
  "inv q \<Longrightarrow> length xs = n \<Longrightarrow> items q = xs @ ys \<Longrightarrow>
   \<exists>q'. deq_n deq n q = Some (xs, q') \<and> items q' = ys \<and> inv q'"
proof (induction n arbitrary: q xs)
  case (Suc n)
  then obtain x xs' where xs: "xs = x # xs'" by (cases xs) auto
  with Suc.prems obtain q1 where q1: "deq q = Some (x, q1)" "items q1 = xs' @ ys" "inv q1"
    using deq_Cons [of q x "xs' @ ys"] by auto
  with Suc.IH [of q1 xs'] Suc.prems xs show ?case by auto
qed simp

text \<open>What goes into an empty queue comes out, all of it and in the same order.\<close>

lemma enq_all_deq_n:
  assumes "inv q" and "items q = []" and "enq_all enq xs q = Some q1"
  shows "\<exists>q2. deq_n deq (length xs) q1 = Some (xs, q2) \<and> items q2 = [] \<and> inv q2"
proof -
  from enq_all_items [OF assms(1,3)] assms(2) have "items q1 = xs @ []" "inv q1" by simp_all
  then show ?thesis using deq_n_items by blast
qed

end

text \<open>A queue of fixed capacity: an insertion fails exactly when it is full.\<close>

locale bounded_fifo = fifo_queue items inv enq deq
  for items :: "'q \<Rightarrow> 'a list" and inv enq deq +
  fixes bound :: "'q \<Rightarrow> nat"
  assumes enq_None_iff: "inv q \<Longrightarrow> enq x q = None \<longleftrightarrow> bound q \<le> length (items q)"
    and enq_bound: "inv q \<Longrightarrow> enq x q = Some q' \<Longrightarrow> bound q' = bound q"
    and deq_bound: "inv q \<Longrightarrow> deq q = Some (x, q') \<Longrightarrow> bound q' = bound q"
begin

text \<open>Every run of operations has the results of the bounded list queue.\<close>

lemma qrun_refines:
  "inv q \<Longrightarrow> qrun enq deq ops q = (rs, q') \<Longrightarrow>
   qrun (list_enq (bound q)) list_deq ops (items q) = (rs, items q') \<and> inv q' \<and> bound q' = bound q"
proof (induction ops arbitrary: q rs)
  case (Cons op ops)
  show ?case
  proof (cases op)
    case (Enq x)
    show ?thesis
    proof (cases "enq x q")
      case None
      then have "list_enq (bound q) x (items q) = None"
        using Cons.prems(1) enq_None_iff by (simp add: list_enq_def)
      with None Enq Cons show ?thesis by (auto simp: apfst_def map_prod_def split: prod.splits)
    next
      case (Some q1)
      with Cons.prems(1) enq_None_iff have "\<not> bound q \<le> length (items q)" by force
      with Some Cons.prems(1) enq_items enq_bound
      have "list_enq (bound q) x (items q) = Some (items q1)" "bound q1 = bound q" "inv q1"
        by (auto simp: list_enq_def enq_inv)
      with Some Enq Cons.prems(2) Cons.IH [of q1] show ?thesis
        by (auto simp: apfst_def map_prod_def split: prod.splits)
    qed
  next
    case Deq
    show ?thesis
    proof (cases "deq q")
      case None
      then have "list_deq (items q) = None"
        using Cons.prems(1) deq_items [of q] by simp
      with None Deq Cons show ?thesis by (auto simp: apfst_def map_prod_def split: prod.splits)
    next
      case (Some p)
      obtain x q1 where p: "p = (x, q1)" by (cases p)
      with Some Cons.prems(1) deq_items [of q] deq_bound
      have "list_deq (items q) = Some (x, items q1)" "bound q1 = bound q" "inv q1"
        by (auto simp: deq_inv)
      with Some p Deq Cons.prems(2) Cons.IH [of q1] show ?thesis
        by (auto simp: apfst_def map_prod_def split: prod.splits)
    qed
  qed
qed simp

lemma enq_all_room:
  "inv q \<Longrightarrow> length (items q) + length xs \<le> bound q \<Longrightarrow> \<exists>q'. enq_all enq xs q = Some q'"
proof (induction xs arbitrary: q)
  case (Cons x xs)
  then obtain q1 where q1: "enq x q = Some q1"
    using enq_None_iff [of q x] by (cases "enq x q") auto
  with Cons.prems enq_items enq_inv enq_bound Cons.IH [of q1] show ?case by auto
qed simp

end

end
