(* ===== verification/Spsc.thy ===== *)
theory Spsc
  imports Queues
begin

text \<open>
  \<open>NEWPLAN::SPSCQueue\<close> (summation\_service/include/util/spsc\_queue.h): a single-producer
  single-consumer ring buffer. First the operations as they run on one thread, then the two
  threads as a step relation over the atomic loads and stores of \<open>head_\<close> and \<open>tail_\<close>.
  An unconstructed slot is \<open>None\<close>. The header's acquire loads read what the matching
  release stores published, so the interleavings are those of a sequentially consistent memory.
\<close>

section \<open>State and sequential operations\<close>

record 'a spsc =
  q_capacity :: nat
  q_padding :: nat
  q_slots :: "'a option list"
  q_head :: nat
  q_tail :: nat

definition kCacheLineSize :: nat where
  "kCacheLineSize = 128"

definition kPadding :: "nat \<Rightarrow> nat" where
  "kPadding sizeof_T = (kCacheLineSize - 1) div sizeof_T + 1"

definition spsc_new :: "nat \<Rightarrow> nat \<Rightarrow> 'a spsc result" where
  "spsc_new sizeof_T capacity =
     (if capacity < 2 then Inl (Throw ''size < 2'')
      else Inr \<lparr>q_capacity = capacity, q_padding = kPadding sizeof_T,
                q_slots = replicate (capacity + 2 * kPadding sizeof_T) None,
                q_head = 0, q_tail = 0\<rparr>)"

definition next_index :: "'a spsc \<Rightarrow> nat \<Rightarrow> nat" where
  "next_index q i = (let n = i + 1 in if n = q_capacity q then 0 else n)"

definition slot_at :: "'a spsc \<Rightarrow> nat \<Rightarrow> 'a option" where
  "slot_at q i = q_slots q ! (i + q_padding q)"

definition set_slot :: "'a spsc \<Rightarrow> nat \<Rightarrow> 'a option \<Rightarrow> 'a spsc" where
  "set_slot q i s = q\<lparr>q_slots := (q_slots q)[i + q_padding q := s]\<rparr>"

definition try_emplace :: "'a \<Rightarrow> 'a spsc \<Rightarrow> bool \<times> 'a spsc" where
  "try_emplace v q =
     (let head = q_head q; nextHead = next_index q head in
      if nextHead = q_tail q then (False, q)
      else (True, (set_slot q head (Some v))\<lparr>q_head := nextHead\<rparr>))"

text \<open>
  \<open>emplace\<close> spins while the queue is full; with no other thread to drain it, it never
  returns, which is the value \<open>None\<close>.
\<close>

definition emplace :: "'a \<Rightarrow> 'a spsc \<Rightarrow> 'a spsc option" where
  "emplace v q =
     (let head = q_head q; nextHead = next_index q head in
      if nextHead = q_tail q then None
      else Some ((set_slot q head (Some v))\<lparr>q_head := nextHead\<rparr>))"

definition push :: "'a \<Rightarrow> 'a spsc \<Rightarrow> 'a spsc option" where
  "push v q = emplace v q"

definition try_push :: "'a \<Rightarrow> 'a spsc \<Rightarrow> bool \<times> 'a spsc" where
  "try_push v q = try_emplace v q"

text \<open>\<open>front\<close> returns a pointer to a slot: its index, or \<open>None\<close> for \<open>nullptr\<close>.\<close>

definition front :: "'a spsc \<Rightarrow> nat option" where
  "front q = (let tail = q_tail q in if q_head q = tail then None else Some tail)"

definition pop :: "'a spsc \<Rightarrow> 'a spsc result" where
  "pop q =
     (let tail = q_tail q in
      if q_head q = tail then Inl AssertFail
      else Inr ((set_slot q tail None)\<lparr>q_tail := next_index q tail\<rparr>))"

text \<open>\<open>blocking_pop\<close> spins on \<open>front\<close>: \<open>None\<close> when the queue stays empty.\<close>

definition blocking_pop :: "'a spsc \<Rightarrow> ('a \<times> 'a spsc) option" where
  "blocking_pop q =
     (case front q of
        None \<Rightarrow> None
      | Some data \<Rightarrow>
          (case (slot_at q data, pop q) of
             (Some v, Inr q') \<Rightarrow> Some (v, q')
           | _ \<Rightarrow> None))"

text \<open>\<open>size\<close>: the difference of two \<open>size_t\<close> read as a signed \<open>ptrdiff_t\<close>.\<close>

definition spsc_size :: "'a spsc \<Rightarrow> int" where
  "spsc_size q =
     (let diff = sint (word_of_nat (q_head q) - word_of_nat (q_tail q) :: u64) in
      if diff < 0 then diff + int (q_capacity q) else diff)"

definition spsc_empty :: "'a spsc \<Rightarrow> bool" where
  "spsc_empty q \<longleftrightarrow> spsc_size q = 0"

text \<open>The destructor's loop \<open>while (front()) pop();\<close>, with fuel.\<close>

fun drain :: "nat \<Rightarrow> 'a spsc \<Rightarrow> 'a spsc result" where
  "drain 0 q = (case front q of None \<Rightarrow> Inr q | Some _ \<Rightarrow> Inl OutOfFuel)"
| "drain (Suc n) q = (case front q of None \<Rightarrow> Inr q | Some _ \<Rightarrow> bindR (pop q) (drain n))"

section \<open>Invariant and abstraction\<close>

definition used :: "'a spsc \<Rightarrow> nat \<Rightarrow> nat" where
  "used q k = (q_tail q + k) mod q_capacity q"

definition count :: "'a spsc \<Rightarrow> nat" where
  "count q = (q_head q + q_capacity q - q_tail q) mod q_capacity q"

definition ring_ok :: "'a spsc \<Rightarrow> bool" where
  "ring_ok q \<longleftrightarrow> 2 \<le> q_capacity q \<and> q_head q < q_capacity q \<and> q_tail q < q_capacity q
     \<and> length (q_slots q) = q_capacity q + 2 * q_padding q"

definition spsc_inv :: "'a spsc \<Rightarrow> bool" where
  "spsc_inv q \<longleftrightarrow> ring_ok q \<and> (\<forall>k < count q. slot_at q (used q k) \<noteq> None)"

definition spsc_items :: "'a spsc \<Rightarrow> 'a list" where
  "spsc_items q = map (\<lambda>k. the (slot_at q (used q k))) [0..<count q]"

lemma next_index_mod: "i < q_capacity q \<Longrightarrow> next_index q i = Suc i mod q_capacity q"
  by (auto simp: next_index_def Let_def)

lemma next_index_less: "ring_ok q \<Longrightarrow> i < q_capacity q \<Longrightarrow> next_index q i < q_capacity q"
  by (auto simp: next_index_def Let_def ring_ok_def)

lemma count_less: "ring_ok q \<Longrightarrow> count q < q_capacity q"
  by (simp add: count_def ring_ok_def)

lemma head_used: "ring_ok q \<Longrightarrow> q_head q = used q (count q)"
  by (auto simp: ring_ok_def used_def count_def mod_add_right_eq)

lemma used_less: "ring_ok q \<Longrightarrow> used q k < q_capacity q"
  by (simp add: used_def ring_ok_def)

lemma used_inj: "ring_ok q \<Longrightarrow> i < q_capacity q \<Longrightarrow> j < q_capacity q \<Longrightarrow> used q i = used q j \<longleftrightarrow> i = j"
  by (auto simp: used_def dest: add_mod_inj)

lemma used_0: "ring_ok q \<Longrightarrow> used q 0 = q_tail q"
  by (simp add: used_def ring_ok_def)

lemma next_head_used: "ring_ok q \<Longrightarrow> next_index q (q_head q) = used q (Suc (count q))"
  using head_used [of q]
  by (simp add: next_index_mod ring_ok_def) (simp add: used_def mod_Suc_eq)

lemma count_eqI:
  assumes "ring_ok q" and "n < q_capacity q" and "q_head q = used q n"
  shows "count q = n"
  using assms count_less head_used used_inj by metis

lemma empty_iff: "ring_ok q \<Longrightarrow> q_head q = q_tail q \<longleftrightarrow> count q = 0"
  using head_used used_0 used_inj count_less by (metis (no_types, lifting) less_nat_zero_code neq0_conv)

lemma full_iff: "ring_ok q \<Longrightarrow> next_index q (q_head q) = q_tail q \<longleftrightarrow> Suc (count q) = q_capacity q"
proof -
  assume ok: "ring_ok q"
  have "used q (q_capacity q) = q_tail q"
    using ok by (simp add: used_def ring_ok_def)
  moreover have "Suc (count q) < q_capacity q \<Longrightarrow> used q (Suc (count q)) \<noteq> used q 0"
    using used_inj [OF ok, of "Suc (count q)" 0] by simp
  ultimately show ?thesis
    using ok count_less [OF ok] next_head_used [OF ok] used_0 [OF ok]
    by (metis Suc_lessI)
qed

lemma slot_at_set_slot:
  "ring_ok q \<Longrightarrow> i < q_capacity q \<Longrightarrow> j < q_capacity q \<Longrightarrow>
   slot_at (set_slot q i s) j = (if j = i then s else slot_at q j)"
  by (auto simp: slot_at_def set_slot_def ring_ok_def nth_list_update)

lemma set_slot_simps [simp]:
  "q_capacity (set_slot q i s) = q_capacity q"
  "q_padding (set_slot q i s) = q_padding q"
  "q_head (set_slot q i s) = q_head q"
  "q_tail (set_slot q i s) = q_tail q"
  "length (q_slots (set_slot q i s)) = length (q_slots q)"
  by (simp_all add: set_slot_def)

lemma slot_at_cong [simp]:
  "slot_at (q\<lparr>q_head := h\<rparr>) i = slot_at q i"
  "slot_at (q\<lparr>q_tail := t\<rparr>) i = slot_at q i"
  by (simp_all add: slot_at_def)

lemma used_cong [simp]:
  "used (q\<lparr>q_head := h\<rparr>) k = used q k"
  "used (set_slot q i s) k = used q k"
  by (simp_all add: used_def)

lemma next_index_cong [simp]:
  "next_index (q\<lparr>q_head := h\<rparr>) k = next_index q k"
  "next_index (q\<lparr>q_tail := h\<rparr>) k = next_index q k"
  "next_index (set_slot q i s) k = next_index q k"
  by (simp_all add: next_index_def)

lemma ring_ok_cong [simp]:
  "ring_ok (set_slot q i s) = ring_ok q"
  "ring_ok q \<Longrightarrow> ring_ok (q\<lparr>q_head := h\<rparr>) \<longleftrightarrow> h < q_capacity q"
  "ring_ok q \<Longrightarrow> ring_ok (q\<lparr>q_tail := h\<rparr>) \<longleftrightarrow> h < q_capacity q"
  by (simp_all add: ring_ok_def)

text \<open>Advancing the head adds one to the count, advancing the tail takes one away.\<close>

lemma count_advance_head:
  assumes "ring_ok q" and "Suc (count q) < q_capacity q"
  shows "count (q\<lparr>q_head := next_index q (q_head q)\<rparr>) = Suc (count q)"
  by (rule count_eqI) (use assms in \<open>auto simp: next_head_used used_less next_index_less\<close>)

lemma used_advance_tail:
  assumes "ring_ok q"
  shows "used (q\<lparr>q_tail := next_index q (q_tail q)\<rparr>) k = used q (Suc k)"
  using assms by (simp add: used_def next_index_mod ring_ok_def mod_add_left_eq)

lemma count_advance_tail:
  assumes "ring_ok q" and "0 < count q"
  shows "count (q\<lparr>q_tail := next_index q (q_tail q)\<rparr>) = count q - 1"
proof (rule count_eqI)
  show "ring_ok (q\<lparr>q_tail := next_index q (q_tail q)\<rparr>)"
    using assms by (simp add: next_index_less ring_ok_def)
  show "count q - 1 < q_capacity (q\<lparr>q_tail := next_index q (q_tail q)\<rparr>)"
    using assms count_less [of q] by simp
  show "q_head (q\<lparr>q_tail := next_index q (q_tail q)\<rparr>)
      = used (q\<lparr>q_tail := next_index q (q_tail q)\<rparr>) (count q - 1)"
    using assms head_used [of q] by (simp add: used_advance_tail)
qed

section \<open>The operations refine a bounded list queue\<close>

lemma spsc_inv_ring [dest]: "spsc_inv q \<Longrightarrow> ring_ok q"
  by (simp add: spsc_inv_def)

lemma length_spsc_items [simp]: "length (spsc_items q) = count q"
  by (simp add: spsc_items_def)

lemma spsc_items_Nil_iff: "spsc_items q = [] \<longleftrightarrow> count q = 0"
  by (simp add: spsc_items_def)

lemma emplace_Some:
  assumes inv: "spsc_inv q" and e: "emplace v q = Some q'"
  shows "spsc_items q' = spsc_items q @ [v]" and "spsc_inv q'"
    and "q_capacity q' = q_capacity q"
proof -
  let ?q1 = "set_slot q (q_head q) (Some v)"
  have ok: "ring_ok q" using inv by blast
  have q': "q' = ?q1\<lparr>q_head := next_index ?q1 (q_head ?q1)\<rparr>"
    and "next_index q (q_head q) \<noteq> q_tail q"
    using e by (auto simp: emplace_def Let_def split: if_splits)
  then have room: "Suc (count q) < q_capacity q"
    using full_iff [OF ok] count_less [OF ok] by linarith
  have c1: "count ?q1 = count q" by (simp add: count_def)
  have c: "count q' = Suc (count q)"
    unfolding q' using count_advance_head [of ?q1] ok room c1 by simp
  have h: "q_head q < q_capacity q" using ok by (simp add: ring_ok_def)
  have slots: "slot_at q' (used q k) = (if k = count q then Some v else slot_at q (used q k))"
    if "k \<le> count q" for k
    using that ok h head_used [OF ok] used_inj [OF ok] room
    by (auto simp: q' slot_at_set_slot used_less)
  have u: "used q' k = used q k" for k by (simp add: q')
  show "spsc_items q' = spsc_items q @ [v]"
    by (simp add: spsc_items_def c u slots)
  show "spsc_inv q'"
    unfolding spsc_inv_def
  proof
    show "ring_ok q'" using ok h by (simp add: q' next_index_less)
    show "\<forall>k<count q'. slot_at q' (used q' k) \<noteq> None"
      using inv by (auto simp: c u slots spsc_inv_def less_Suc_eq_le)
  qed
  show "q_capacity q' = q_capacity q" by (simp add: q')
qed

lemma emplace_None_iff: "spsc_inv q \<Longrightarrow> emplace v q = None \<longleftrightarrow> q_capacity q - 1 \<le> count q"
  using full_iff [of q] count_less [of q] by (auto simp: emplace_def Let_def)

lemma try_emplace_emplace:
  "try_emplace v q = (case emplace v q of None \<Rightarrow> (False, q) | Some q' \<Rightarrow> (True, q'))"
  by (simp add: try_emplace_def emplace_def Let_def)

lemma pop_Inr:
  assumes inv: "spsc_inv q" and ne: "count q \<noteq> 0"
  obtains q' where "pop q = Inr q'" and "spsc_items q' = tl (spsc_items q)" and "spsc_inv q'"
    and "q_capacity q' = q_capacity q" and "count q' = count q - 1"
    and "slot_at q' (q_tail q) = None"
proof -
  let ?q1 = "set_slot q (q_tail q) None"
  let ?q' = "?q1\<lparr>q_tail := next_index ?q1 (q_tail ?q1)\<rparr>"
  have ok: "ring_ok q" using inv by blast
  have t: "q_tail q < q_capacity q" using ok by (simp add: ring_ok_def)
  have c1: "count ?q1 = count q" by (simp add: count_def)
  have c: "count ?q' = count q - 1"
    using count_advance_tail [of ?q1] ok ne c1 by simp
  have u: "used ?q' k = used q (Suc k)" for k
    using used_advance_tail [of ?q1 k] ok by simp
  have slots: "slot_at ?q1 (used q (Suc k)) = slot_at q (used q (Suc k))" if "Suc k < count q" for k
    using that ok t used_0 [OF ok] used_inj [OF ok, of "Suc k" 0] count_less [OF ok]
    by (simp add: slot_at_set_slot used_less)
  have "spsc_items ?q' = map (\<lambda>k. the (slot_at q (used q (Suc k)))) [0..<count q - 1]"
    unfolding spsc_items_def c u by (rule map_cong) (auto simp: slots)
  also have "\<dots> = tl (spsc_items q)"
    using ne by (cases "count q") (simp_all add: spsc_items_def map_upt_Suc_hd del: upt_Suc)
  finally have items: "spsc_items ?q' = tl (spsc_items q)" .
  have inv': "spsc_inv ?q'"
    unfolding spsc_inv_def c u using inv ok t by (auto simp: spsc_inv_def slots next_index_less)
  have "pop q = Inr ?q'"
    using ne empty_iff [OF ok] by (simp add: pop_def Let_def)
  moreover have "slot_at ?q' (q_tail q) = None"
    using slot_at_set_slot [OF ok t t, of None] by simp
  ultimately show ?thesis
    using items inv' c that by simp
qed

lemma pop_empty: "spsc_inv q \<Longrightarrow> count q = 0 \<Longrightarrow> pop q = Inl AssertFail"
  using empty_iff [of q] by (auto simp: pop_def Let_def)

lemma front_None_iff: "spsc_inv q \<Longrightarrow> front q = None \<longleftrightarrow> count q = 0"
  using empty_iff [of q] by (auto simp: front_def Let_def)

lemma front_Some_slot:
  assumes "spsc_inv q" and "count q \<noteq> 0"
  shows "front q = Some (q_tail q)" and "slot_at q (q_tail q) = Some (hd (spsc_items q))"
proof -
  have ok: "ring_ok q" using assms by blast
  show "front q = Some (q_tail q)"
    using assms empty_iff [OF ok] by (simp add: front_def Let_def)
  have "slot_at q (used q 0) \<noteq> None" using assms by (simp add: spsc_inv_def)
  then show "slot_at q (q_tail q) = Some (hd (spsc_items q))"
    using assms(2) used_0 [OF ok] by (cases "count q") (auto simp: spsc_items_def map_upt_Suc_hd simp del: upt_Suc)
qed

lemma blocking_pop_Some:
  assumes inv: "spsc_inv q" and ne: "count q \<noteq> 0"
  obtains q' where "blocking_pop q = Some (hd (spsc_items q), q')"
    and "spsc_items q' = tl (spsc_items q)" and "spsc_inv q'" and "q_capacity q' = q_capacity q"
proof -
  from inv ne obtain q' where q': "pop q = Inr q'" "spsc_items q' = tl (spsc_items q)"
    "spsc_inv q'" "q_capacity q' = q_capacity q" by (rule pop_Inr)
  then have "blocking_pop q = Some (hd (spsc_items q), q')"
    using front_Some_slot [OF inv ne] by (simp add: blocking_pop_def)
  with q' show ?thesis by (intro that)
qed

lemma blocking_pop_empty:
  assumes "spsc_inv q" and "count q = 0"
  shows "blocking_pop q = None"
proof -
  have "front q = None" using assms by (simp add: front_None_iff)
  then show ?thesis by (simp add: blocking_pop_def)
qed

lemma blocking_pop_list_deq:
  assumes "spsc_inv q"
  shows "map_option (apsnd spsc_items) (blocking_pop q) = list_deq (spsc_items q)"
proof (cases "count q = 0")
  case True
  then have "spsc_items q = []" by (simp add: spsc_items_Nil_iff)
  with True assms show ?thesis by (simp add: blocking_pop_empty list_deq_def)
next
  case False
  with assms obtain q' where "blocking_pop q = Some (hd (spsc_items q), q')"
    "spsc_items q' = tl (spsc_items q)" by (rule blocking_pop_Some)
  moreover have "spsc_items q \<noteq> []" using False by (simp add: spsc_items_Nil_iff)
  ultimately show ?thesis by (cases "spsc_items q") (simp_all add: list_deq_def)
qed

lemma blocking_pop_SomeD:
  assumes "spsc_inv q" and "blocking_pop q = Some (x, q')"
  shows "spsc_inv q'" and "q_capacity q' = q_capacity q"
proof -
  have ne: "count q \<noteq> 0"
  proof
    assume "count q = 0"
    with assms show False by (simp add: blocking_pop_empty)
  qed
  obtain q1 where "blocking_pop q = Some (hd (spsc_items q), q1)" "spsc_inv q1"
    "q_capacity q1 = q_capacity q"
    by (rule blocking_pop_Some [OF assms(1) ne])
  with assms(2) show "spsc_inv q'" "q_capacity q' = q_capacity q" by simp_all
qed

interpretation ring: bounded_fifo spsc_items spsc_inv emplace blocking_pop "\<lambda>q. q_capacity q - 1"
proof unfold_locales
  fix q q' :: "'a spsc" and x
  assume inv: "spsc_inv q"
  show "map_option (apsnd spsc_items) (blocking_pop q) = list_deq (spsc_items q)"
    using inv by (rule blocking_pop_list_deq)
  show "emplace x q = None \<longleftrightarrow> q_capacity q - 1 \<le> length (spsc_items q)"
    using inv by (simp add: emplace_None_iff)
  {
    assume "emplace x q = Some q'"
    from emplace_Some [OF inv this]
    show "spsc_items q' = spsc_items q @ [x]" and "spsc_inv q'"
      and "q_capacity q' - 1 = q_capacity q - 1" by simp_all
  }
  {
    assume "blocking_pop q = Some (x, q')"
    from blocking_pop_SomeD [OF inv this]
    show "spsc_inv q'" and "q_capacity q' - 1 = q_capacity q - 1" by simp_all
  }
qed

lemma spsc_new_inv:
  assumes "spsc_new sz n = Inr q"
  shows "spsc_inv q \<and> spsc_items q = [] \<and> q_capacity q = n"
proof -
  have "count q = 0" using assms by (auto simp: spsc_new_def count_def split: if_splits)
  then show ?thesis
    using assms by (auto simp: spsc_new_def spsc_inv_def ring_ok_def spsc_items_Nil_iff split: if_splits)
qed

lemma spsc_size_count:
  assumes inv: "spsc_inv q" and small: "q_capacity q \<le> 2 ^ 63"
  shows "spsc_size q = int (count q)"
proof -
  have ok: "ring_ok q" using inv by blast
  then have lt: "int (q_head q) < 2 ^ 63" "int (q_tail q) < 2 ^ 63"
    using small by (auto simp: ring_ok_def)
  have "word_of_nat (q_head q) - word_of_nat (q_tail q) =
      (word_of_int (int (q_head q) - int (q_tail q)) :: u64)"
    by simp
  moreover have "sint (word_of_int (int (q_head q) - int (q_tail q)) :: u64)
      = int (q_head q) - int (q_tail q)"
    using lt by (intro sint_word_of_int_small) auto
  ultimately have d: "sint (word_of_nat (q_head q) - word_of_nat (q_tail q) :: u64)
      = int (q_head q) - int (q_tail q)" by simp
  show ?thesis
  proof (cases "q_tail q \<le> q_head q")
    case True
    then have "count q = ((q_head q - q_tail q) + q_capacity q) mod q_capacity q"
      by (simp add: count_def)
    then have "count q = q_head q - q_tail q"
      using ok by (simp add: ring_ok_def less_imp_diff_less)
    with True d show ?thesis by (simp add: spsc_size_def)
  next
    case False
    then have "count q = q_head q + q_capacity q - q_tail q"
      using ok unfolding count_def by (intro mod_less) (auto simp: ring_ok_def)
    with False d show ?thesis using ok by (simp add: spsc_size_def ring_ok_def)
  qed
qed

lemma drain_all:
  "spsc_inv q \<Longrightarrow> count q \<le> n \<Longrightarrow> \<exists>q'. drain n q = Inr q' \<and> spsc_inv q' \<and> spsc_items q' = []"
proof (induction n arbitrary: q)
  case 0
  then show ?case using front_None_iff [of q] spsc_items_Nil_iff [of q] by auto
next
  case (Suc n)
  show ?case
  proof (cases "count q = 0")
    case True
    with Suc.prems show ?thesis
      using front_None_iff [of q] spsc_items_Nil_iff [of q] by auto
  next
    case False
    with Suc.prems(1) obtain q1 where "pop q = Inr q1" "spsc_inv q1" "count q1 = count q - 1"
      by (auto elim: pop_Inr)
    with Suc.IH [of q1] Suc.prems False show ?thesis
      using front_Some_slot(1) [of q] by auto
  qed
qed

section \<open>Properties\<close>

text \<open>
  C23. Refinement: from a fresh \<open>SPSCQueue(n)\<close>, every sequence of \<open>emplace\<close> and
  \<open>blocking_pop\<close> calls returns exactly what a FIFO list bounded by \<open>n - 1\<close> elements
  returns (one slot of the ring always stays empty), full and empty cases included.
\<close>

theorem spsc_refines_bounded_list:
  assumes "spsc_new sz n = Inr q" and "qrun emplace blocking_pop ops q = (rs, q')"
  shows "qrun (list_enq (n - 1)) list_deq ops [] = (rs, spsc_items q')"
  using ring.qrun_refines [OF _ assms(2)] spsc_new_inv [OF assms(1)] by simp

theorem spsc_refines_bounded_list_witness:
  "\<exists>q q'. spsc_new 16 3 = Inr q \<and>
     qrun emplace blocking_pop [Enq (5::nat), Enq 7, Enq 9, Deq, Enq 11, Deq, Deq, Deq] q =
       ([Pushed True, Pushed True, Pushed False, Popped (Some 5), Pushed True, Popped (Some 7),
         Popped (Some 11), Popped None], q')
     \<and> spsc_items q' = []"
proof -
  let ?ops = "[Enq (5::nat), Enq 7, Enq 9, Deq, Enq 11, Deq, Deq, Deq]"
  obtain q :: "nat spsc" where q: "spsc_new 16 3 = Inr q" by (simp add: spsc_new_def)
  obtain rs q' where r: "qrun emplace blocking_pop ?ops q = (rs, q')" by (cases "qrun emplace blocking_pop ?ops q")
  from spsc_refines_bounded_list [OF q r] have
    "rs = [Pushed True, Pushed True, Pushed False, Popped (Some 5), Pushed True, Popped (Some 7),
         Popped (Some 11), Popped None]" "spsc_items q' = []"
    by (simp_all add: list_enq_def list_deq_def)
  with q r show ?thesis by blast
qed

text \<open>A wrapped-around ring with two elements, for the witnesses.\<close>

definition ring_example :: "nat spsc" where
  "ring_example =
    \<lparr>q_capacity = 4, q_padding = 1, q_slots = [None, Some 1, None, None, Some 2, None],
     q_head = 1, q_tail = 3\<rparr>"

lemma ring_example_inv: "spsc_inv ring_example" "spsc_items ring_example = [2, 1]"
  by (auto simp: spsc_inv_def ring_ok_def count_def used_def slot_at_def spsc_items_def
      ring_example_def upt_rec dest!: less_2_cases)

text \<open>
  \<open>size()\<close> is the number of queued elements, computed from the wrapped difference of
  the two indices, for every ring of at most \<open>2^63\<close> slots; so \<open>empty()\<close> holds exactly
  when nothing is queued.
\<close>

theorem spsc_size_correct:
  assumes "spsc_inv q" and "q_capacity q \<le> 2 ^ 63"
  shows "spsc_size q = int (length (spsc_items q)) \<and> (spsc_empty q \<longleftrightarrow> spsc_items q = [])"
  using spsc_size_count [OF assms] by (simp add: spsc_empty_def spsc_items_Nil_iff)

theorem spsc_size_correct_witness: "spsc_size ring_example = 2"
proof -
  have "q_capacity ring_example \<le> 2 ^ 63" by (simp add: ring_example_def)
  from spsc_size_correct [OF ring_example_inv(1) this] show ?thesis
    unfolding ring_example_inv(2) by simp
qed

text \<open>
  The destructor's \<open>while (front()) pop();\<close> ends within as many iterations as there
  are queued elements, never trips the assertion of \<open>pop\<close>, and leaves the ring empty.
\<close>

theorem spsc_destructor_terminates:
  assumes "spsc_inv q"
  shows "\<exists>q'. drain (length (spsc_items q)) q = Inr q' \<and> spsc_inv q' \<and> spsc_items q' = []"
  using drain_all [OF assms, of "count q"] by simp

theorem spsc_destructor_terminates_witness:
  "\<exists>q'. drain 2 ring_example = Inr q' \<and> spsc_inv q' \<and> spsc_items q' = []"
  using spsc_destructor_terminates [OF ring_example_inv(1)]
  unfolding ring_example_inv(2) by (simp add: numeral_2_eq_2)

end
