(* ===== verification/SpscConc.thy ===== *)
theory SpscConc
  imports Spsc
begin

text \<open>
  The two threads of an \<open>SPSCQueue\<close>: a producer that calls \<open>push\<close> and a consumer that
  calls \<open>blocking_pop\<close>, interleaved at every atomic access of spsc\_queue.h. Each program
  counter stands before one access of the source; the ghost fields \<open>pushed\<close> and \<open>popped\<close>
  record the values in the order in which \<open>head_\<close> and \<open>tail_\<close> are published.
\<close>

section \<open>Threads and steps\<close>

datatype 'a producer =
    P_Idle
  | P_Spin 'a nat      \<comment> \<open>\<open>head\<close> loaded; before the load of \<open>tail_\<close> in the spin\<close>
  | P_Construct 'a nat \<comment> \<open>room found; before \<open>new (&slots_[head + kPadding]) T(v)\<close>\<close>
  | P_Publish 'a nat   \<comment> \<open>before \<open>head_.store(nextHead)\<close>\<close>

datatype 'a consumer =
    C_Idle
  | C_Check nat        \<comment> \<open>\<open>front\<close>: \<open>tail\<close> loaded; before the load of \<open>head_\<close>\<close>
  | C_Move nat         \<comment> \<open>non-null pointer; before \<open>std::move(*data)\<close>\<close>
  | C_Assert nat 'a    \<comment> \<open>\<open>pop\<close>: before \<open>assert(head_.load() != tail)\<close>\<close>
  | C_Destroy nat 'a   \<comment> \<open>before \<open>slots_[tail + kPadding].~T()\<close>\<close>
  | C_Publish nat 'a   \<comment> \<open>before \<open>tail_.store(nextTail)\<close>\<close>
  | C_Aborted          \<comment> \<open>the assertion of \<open>pop\<close> failed\<close>

record 'a pair =
  ring :: "'a spsc"
  prod :: "'a producer"
  cons :: "'a consumer"
  pushed :: "'a list"
  popped :: "'a list"

definition pair_init :: "'a spsc \<Rightarrow> 'a pair" where
  "pair_init q = \<lparr>ring = q, prod = P_Idle, cons = C_Idle, pushed = [], popped = []\<rparr>"

inductive producer_step :: "'a pair \<Rightarrow> 'a pair \<Rightarrow> bool" where
  load_head: "prod s = P_Idle \<Longrightarrow> producer_step s (s\<lparr>prod := P_Spin v (q_head (ring s))\<rparr>)"
| spin_full: "prod s = P_Spin v h \<Longrightarrow> next_index (ring s) h = q_tail (ring s) \<Longrightarrow> producer_step s s"
| spin_room: "prod s = P_Spin v h \<Longrightarrow> next_index (ring s) h \<noteq> q_tail (ring s) \<Longrightarrow>
     producer_step s (s\<lparr>prod := P_Construct v h\<rparr>)"
| construct: "prod s = P_Construct v h \<Longrightarrow>
     producer_step s (s\<lparr>ring := set_slot (ring s) h (Some v), prod := P_Publish v h\<rparr>)"
| publish_head: "prod s = P_Publish v h \<Longrightarrow>
     producer_step s (s\<lparr>ring := (ring s)\<lparr>q_head := next_index (ring s) h\<rparr>, prod := P_Idle,
                       pushed := pushed s @ [v]\<rparr>)"

inductive consumer_step :: "'a pair \<Rightarrow> 'a pair \<Rightarrow> bool" where
  load_tail: "cons s = C_Idle \<Longrightarrow> consumer_step s (s\<lparr>cons := C_Check (q_tail (ring s))\<rparr>)"
| check_empty: "cons s = C_Check t \<Longrightarrow> q_head (ring s) = t \<Longrightarrow>
     consumer_step s (s\<lparr>cons := C_Idle\<rparr>)"
| check_some: "cons s = C_Check t \<Longrightarrow> q_head (ring s) \<noteq> t \<Longrightarrow>
     consumer_step s (s\<lparr>cons := C_Move t\<rparr>)"
| move: "cons s = C_Move t \<Longrightarrow> slot_at (ring s) t = Some v \<Longrightarrow>
     consumer_step s (s\<lparr>cons := C_Assert t v\<rparr>)"
| assert_ok: "cons s = C_Assert t v \<Longrightarrow> q_head (ring s) \<noteq> t \<Longrightarrow>
     consumer_step s (s\<lparr>cons := C_Destroy t v\<rparr>)"
| assert_fails: "cons s = C_Assert t v \<Longrightarrow> q_head (ring s) = t \<Longrightarrow>
     consumer_step s (s\<lparr>cons := C_Aborted\<rparr>)"
| destroy: "cons s = C_Destroy t v \<Longrightarrow>
     consumer_step s (s\<lparr>ring := set_slot (ring s) t None, cons := C_Publish t v\<rparr>)"
| publish_tail: "cons s = C_Publish t v \<Longrightarrow>
     consumer_step s (s\<lparr>ring := (ring s)\<lparr>q_tail := next_index (ring s) t\<rparr>, cons := C_Idle,
                       popped := popped s @ [v]\<rparr>)"

inductive pair_reach :: "'a spsc \<Rightarrow> 'a pair \<Rightarrow> bool" for q0 where
  init: "pair_reach q0 (pair_init q0)"
| producer: "pair_reach q0 s \<Longrightarrow> producer_step s s' \<Longrightarrow> pair_reach q0 s'"
| consumer: "pair_reach q0 s \<Longrightarrow> consumer_step s s' \<Longrightarrow> pair_reach q0 s'"

section \<open>The invariant\<close>

text \<open>
  \<open>xs\<close> are the published elements not yet released; only the first of them can already be
  destroyed, while the consumer stands before the store of \<open>tail_\<close>.
\<close>

definition producer_ok :: "'a spsc \<Rightarrow> 'a producer \<Rightarrow> bool" where
  "producer_ok q p \<longleftrightarrow> (case p of
       P_Idle \<Rightarrow> True
     | P_Spin v h \<Rightarrow> h = q_head q
     | P_Construct v h \<Rightarrow> h = q_head q \<and> Suc (count q) < q_capacity q
     | P_Publish v h \<Rightarrow> h = q_head q \<and> Suc (count q) < q_capacity q \<and> slot_at q h = Some v)"

definition consumer_ok :: "nat \<Rightarrow> 'a consumer \<Rightarrow> 'a list \<Rightarrow> bool" where
  "consumer_ok tail c xs \<longleftrightarrow> (case c of
       C_Idle \<Rightarrow> True
     | C_Check t \<Rightarrow> t = tail
     | C_Move t \<Rightarrow> t = tail \<and> xs \<noteq> []
     | C_Assert t v \<Rightarrow> t = tail \<and> xs \<noteq> [] \<and> v = hd xs
     | C_Destroy t v \<Rightarrow> t = tail \<and> xs \<noteq> [] \<and> v = hd xs
     | C_Publish t v \<Rightarrow> t = tail \<and> xs \<noteq> [] \<and> v = hd xs
     | C_Aborted \<Rightarrow> False)"

definition destroyed :: "'a consumer \<Rightarrow> bool" where
  "destroyed c = (case c of C_Publish _ _ \<Rightarrow> True | _ \<Rightarrow> False)"

definition slots_ok :: "'a pair \<Rightarrow> 'a list \<Rightarrow> bool" where
  "slots_ok s xs \<longleftrightarrow> length xs = count (ring s) \<and>
     (\<forall>k < length xs. (k = 0 \<and> destroyed (cons s)) \<or> slot_at (ring s) (used (ring s) k) = Some (xs ! k))"

definition pair_inv :: "'a pair \<Rightarrow> bool" where
  "pair_inv s \<longleftrightarrow> ring_ok (ring s) \<and> producer_ok (ring s) (prod s) \<and>
     (\<exists>xs. pushed s = popped s @ xs \<and> slots_ok s xs \<and> consumer_ok (q_tail (ring s)) (cons s) xs)"

lemma pair_invE:
  assumes "pair_inv s"
  obtains xs where "ring_ok (ring s)" "producer_ok (ring s) (prod s)" "pushed s = popped s @ xs"
    "slots_ok s xs" "consumer_ok (q_tail (ring s)) (cons s) xs"
  using assms by (auto simp: pair_inv_def)

lemma count_set_slot [simp]: "count (set_slot q i v) = count q"
  by (simp add: count_def)

lemma pair_inv_init: "spsc_inv q \<Longrightarrow> spsc_items q = [] \<Longrightarrow> pair_inv (pair_init q)"
  by (auto simp: pair_inv_def pair_init_def producer_ok_def consumer_ok_def slots_ok_def
      spsc_items_Nil_iff)

lemma head_slot_free:
  assumes "ring_ok q" and "k < count q"
  shows "used q k \<noteq> q_head q"
  using assms used_inj [of q k "count q"] head_used [of q] count_less [of q] by simp

lemma producer_step_inv:
  assumes "producer_step s s'" and "pair_inv s"
  shows "pair_inv s'"
  using assms
proof (cases rule: producer_step.cases)
  case (spin_room v h)
  then show ?thesis
    using assms(2) full_iff [of "ring s"] count_less [of "ring s"]
    by (auto simp: pair_inv_def producer_ok_def slots_ok_def)
next
  case (construct v h)
  obtain xs where xs: "ring_ok (ring s)" "producer_ok (ring s) (prod s)" "pushed s = popped s @ xs"
    "slots_ok s xs" "consumer_ok (q_tail (ring s)) (cons s) xs" using assms(2) by (rule pair_invE)
  then have h: "h = q_head (ring s)" "h < q_capacity (ring s)"
    using construct by (auto simp: producer_ok_def ring_ok_def)
  have "slot_at (set_slot (ring s) h (Some v)) (used (ring s) k) = slot_at (ring s) (used (ring s) k)"
    if "k < count (ring s)" for k
    using that xs(1) h head_slot_free [of "ring s" k] by (simp add: slot_at_set_slot used_less)
  moreover have "slot_at (set_slot (ring s) h (Some v)) h = Some v"
    using xs(1) h by (simp add: slot_at_set_slot)
  ultimately have "slots_ok s' xs" "producer_ok (ring s') (prod s')" "ring_ok (ring s')"
    using xs construct h by (auto simp: slots_ok_def producer_ok_def)
  moreover have "consumer_ok (q_tail (ring s')) (cons s') xs"
    using xs(5) construct by simp
  ultimately have "slots_ok s' xs" "producer_ok (ring s') (prod s')" "consumer_ok (q_tail (ring s')) (cons s') xs" "ring_ok (ring s')"
    by simp_all
  with xs construct show ?thesis by (auto simp: pair_inv_def)
next
  case (publish_head v h)
  obtain xs where xs: "ring_ok (ring s)" "producer_ok (ring s) (prod s)" "pushed s = popped s @ xs"
    "slots_ok s xs" "consumer_ok (q_tail (ring s)) (cons s) xs" using assms(2) by (rule pair_invE)
  let ?q = "ring s"
  have h: "h = q_head ?q" "slot_at ?q h = Some v" "Suc (count ?q) < q_capacity ?q"
    using publish_head xs(2) by (auto simp: producer_ok_def)
  then have c: "count (ring s') = Suc (count ?q)"
    using publish_head xs(1) by (simp add: count_advance_head)
  have "slots_ok s' (xs @ [v])"
    unfolding slots_ok_def
  proof (intro conjI allI impI)
    show "length (xs @ [v]) = count (ring s')" using c xs(4) by (simp add: slots_ok_def)
    fix k assume k: "k < length (xs @ [v])"
    show "k = 0 \<and> destroyed (cons s') \<or> slot_at (ring s') (used (ring s') k) = Some ((xs @ [v]) ! k)"
    proof (cases "k = length xs")
      case True
      moreover have "length xs = count ?q" using xs(4) by (simp add: slots_ok_def)
      ultimately show ?thesis
        using h xs(1) publish_head head_used [of ?q] by (simp add: nth_append)
    next
      case False
      with k have "k < length xs" by simp
      then show ?thesis
        using xs(4) publish_head by (auto simp: slots_ok_def nth_append)
    qed
  qed
  moreover have "consumer_ok (q_tail (ring s')) (cons s') (xs @ [v])"
    using xs(5) publish_head by (auto simp: consumer_ok_def split: consumer.splits)
  moreover have "ring_ok (ring s')" "producer_ok (ring s') (prod s')" "pushed s' = popped s' @ (xs @ [v])"
    using publish_head xs h next_index_less [of ?q h] by (auto simp: producer_ok_def ring_ok_def)
  ultimately show ?thesis unfolding pair_inv_def by blast
qed (auto simp: pair_inv_def producer_ok_def consumer_ok_def slots_ok_def)

lemma consumer_publish_inv:
  assumes "cons s = C_Publish t v" and "pair_inv s"
  shows "pair_inv (s\<lparr>ring := (ring s)\<lparr>q_tail := next_index (ring s) t\<rparr>, cons := C_Idle,
                    popped := popped s @ [v]\<rparr>)" (is "pair_inv ?s")
proof -
  obtain xs where xs: "ring_ok (ring s)" "producer_ok (ring s) (prod s)" "pushed s = popped s @ xs"
    "slots_ok s xs" "consumer_ok (q_tail (ring s)) (cons s) xs" using assms(2) by (rule pair_invE)
  let ?q = "ring s"
  let ?q' = "?q\<lparr>q_tail := next_index ?q (q_tail ?q)\<rparr>"
  have t: "t = q_tail ?q" "xs \<noteq> []" "v = hd xs"
    using assms(1) xs(5) by (auto simp: consumer_ok_def)
  then obtain ys where ys: "xs = v # ys" by (cases xs) auto
  have n: "0 < count ?q" using xs(4) ys by (auto simp: slots_ok_def)
  have c: "count ?q' = count ?q - 1" by (rule count_advance_tail [OF xs(1) n])
  have u: "used ?q' k = used ?q (Suc k)" for k by (rule used_advance_tail [OF xs(1)])
  have r: "ring ?s = ?q'" by (simp add: t)
  have "slots_ok ?s ys"
    unfolding slots_ok_def r c u using xs(4) ys by (auto simp: slots_ok_def destroyed_def)
  moreover have "producer_ok (ring ?s) (prod ?s)"
    using xs(2) n c unfolding producer_ok_def r by (auto simp: split: producer.splits)
  moreover have "ring_ok (ring ?s)"
    unfolding r using xs(1) by (simp add: next_index_less ring_ok_def)
  ultimately show ?thesis
    using xs(3) ys by (auto simp: pair_inv_def consumer_ok_def)
qed

lemma consumer_destroy_inv:
  assumes "cons s = C_Destroy t v" and "pair_inv s"
  shows "pair_inv (s\<lparr>ring := set_slot (ring s) t None, cons := C_Publish t v\<rparr>)" (is "pair_inv ?s")
proof -
  obtain xs where xs: "ring_ok (ring s)" "producer_ok (ring s) (prod s)" "pushed s = popped s @ xs"
    "slots_ok s xs" "consumer_ok (q_tail (ring s)) (cons s) xs" using assms(2) by (rule pair_invE)
  let ?q = "ring s"
  have t: "t = q_tail ?q" "t = used ?q 0" "t < q_capacity ?q" "xs \<noteq> []" "v = hd xs"
    using assms(1) xs(1,5) used_0 [OF xs(1)] by (auto simp: consumer_ok_def ring_ok_def)
  have n: "0 < count ?q" using xs(4) t(4) by (cases xs) (auto simp: slots_ok_def)
  have other: "slot_at (set_slot ?q t None) (used ?q k) = slot_at ?q (used ?q k)"
    if "k \<noteq> 0" "k \<le> count ?q" for k
    using that t xs(1) used_inj [OF xs(1), of k 0] count_less [OF xs(1)]
    by (simp add: slot_at_set_slot used_less)
  have "slot_at (set_slot ?q t None) (used ?q k) = Some (xs ! k)" if "k \<noteq> 0" "k < length xs" for k
    using that xs(4) other [of k] assms(1) by (auto simp: slots_ok_def destroyed_def)
  then have "slots_ok ?s xs"
    using xs(4) by (auto simp: slots_ok_def destroyed_def)
  moreover have "slot_at (set_slot ?q t None) (q_head ?q) = slot_at ?q (q_head ?q)"
    using other [of "count ?q"] n head_used [OF xs(1)] by simp
  then have "producer_ok (ring ?s) (prod ?s)"
    using xs(2) by (auto simp: producer_ok_def split: producer.splits)
  ultimately show ?thesis
    using xs t by (auto simp: pair_inv_def consumer_ok_def)
qed

lemma consumer_step_inv:
  assumes "consumer_step s s'" and "pair_inv s"
  shows "pair_inv s'"
  using assms
proof (cases rule: consumer_step.cases)
  case (check_some t)
  obtain xs where xs: "ring_ok (ring s)" "producer_ok (ring s) (prod s)" "pushed s = popped s @ xs"
    "slots_ok s xs" "consumer_ok (q_tail (ring s)) (cons s) xs" using assms(2) by (rule pair_invE)
  then have "xs \<noteq> []" "t = q_tail (ring s)"
    using check_some empty_iff [of "ring s"] by (auto simp: slots_ok_def consumer_ok_def)
  with xs check_some show ?thesis
    by (auto simp: pair_inv_def producer_ok_def consumer_ok_def slots_ok_def destroyed_def)
next
  case (move t v)
  obtain xs where xs: "ring_ok (ring s)" "producer_ok (ring s) (prod s)" "pushed s = popped s @ xs"
    "slots_ok s xs" "consumer_ok (q_tail (ring s)) (cons s) xs" using assms(2) by (rule pair_invE)
  then have "xs \<noteq> []" "t = q_tail (ring s)" "v = hd xs"
    using move used_0 [of "ring s"]
    by (auto simp: slots_ok_def consumer_ok_def destroyed_def hd_conv_nth)
  with xs move show ?thesis
    by (auto simp: pair_inv_def producer_ok_def consumer_ok_def slots_ok_def destroyed_def)
next
  case (assert_fails t v)
  then show ?thesis
    using assms(2) empty_iff [of "ring s"]
    by (auto simp: pair_inv_def consumer_ok_def slots_ok_def)
next
  case (destroy t v)
  then show ?thesis using assms(2) by (simp add: consumer_destroy_inv)
next
  case (publish_tail t v)
  then show ?thesis using assms(2) by (simp add: consumer_publish_inv)
qed (auto simp: pair_inv_def producer_ok_def consumer_ok_def slots_ok_def destroyed_def)

lemma pair_reach_inv:
  assumes "spsc_inv q" and "spsc_items q = []"
  shows "pair_reach q s \<Longrightarrow> pair_inv s"
  by (induction rule: pair_reach.induct)
     (auto intro: pair_inv_init [OF assms] producer_step_inv consumer_step_inv)

section \<open>Properties\<close>

text \<open>The slots a thread touches in its next step.\<close>

definition writes_slot :: "'a producer \<Rightarrow> nat \<Rightarrow> bool" where
  "writes_slot p i = (case p of P_Construct _ h \<Rightarrow> i = h | _ \<Rightarrow> False)"

definition touches_slot :: "'a consumer \<Rightarrow> nat \<Rightarrow> bool" where
  "touches_slot c i = (case c of C_Move t \<Rightarrow> i = t | C_Destroy t _ \<Rightarrow> i = t | _ \<Rightarrow> False)"

text \<open>A fresh ring of two slots, and a run of it that publishes one value.\<close>

definition ring2 :: "nat spsc" where
  "ring2 = \<lparr>q_capacity = 2, q_padding = 1, q_slots = replicate 4 None, q_head = 0, q_tail = 0\<rparr>"

lemma ring2_new: "spsc_new 128 2 = Inr ring2"
  by (simp add: spsc_new_def ring2_def kPadding_def kCacheLineSize_def)

definition ring2_full :: "nat spsc" where
  "ring2_full = \<lparr>q_capacity = 2, q_padding = 1, q_slots = [None, Some 7, None, None],
     q_head = 1, q_tail = 0\<rparr>"

lemma ring2_push:
  "pair_reach ring2 \<lparr>ring = ring2_full, prod = P_Idle, cons = C_Idle, pushed = [7], popped = []\<rparr>"
proof -
  let ?s = "\<lambda>q p ps. \<lparr>ring = q, prod = p, cons = C_Idle, pushed = ps, popped = []\<rparr>"
  have "pair_reach ring2 (?s ring2 (P_Spin 7 0) [])"
    using pair_reach.producer [OF pair_reach.init load_head [of "pair_init ring2" 7]]
    by (simp add: pair_init_def ring2_def)
  then have "pair_reach ring2 (?s ring2 (P_Construct 7 0) [])"
    using pair_reach.producer [OF _ spin_room [of "?s ring2 (P_Spin 7 0) []" 7 0]]
    by (simp add: next_index_def ring2_def)
  then have "pair_reach ring2 (?s (set_slot ring2 0 (Some 7)) (P_Publish 7 0) [])"
    using pair_reach.producer [OF _ construct [of "?s ring2 (P_Construct 7 0) []" 7 0]] by simp
  then show ?thesis
    using pair_reach.producer [OF _ publish_head
        [of "?s (set_slot ring2 0 (Some 7)) (P_Publish 7 0) []" 7 0]]
    by (simp add: ring2_full_def ring2_def set_slot_def next_index_def numeral_eq_Suc)
qed

lemma ring2_move:
  "pair_reach ring2 \<lparr>ring = ring2_full, prod = P_Idle, cons = C_Move 0, pushed = [7], popped = []\<rparr>"
proof -
  let ?s = "\<lambda>c. \<lparr>ring = ring2_full, prod = P_Idle, cons = c, pushed = [7], popped = []\<rparr>"
  have "pair_reach ring2 (?s (C_Check 0))"
    using pair_reach.consumer [OF ring2_push load_tail [of "?s C_Idle"]] by (simp add: ring2_full_def)
  then show ?thesis
    using pair_reach.consumer [OF _ check_some [of "?s (C_Check 0)" 0]] by (simp add: ring2_full_def)
qed



text \<open>
  C22. No data race on a slot and no use of raw memory: when the consumer is about to move a
  value out or destroy it, its slot holds a constructed value inside the array, and the
  producer is not about to construct in that slot.
\<close>

theorem spsc_no_slot_race:
  assumes "spsc_new sz n = Inr q" and "pair_reach q s" and "touches_slot (cons s) i"
  shows "slot_at (ring s) i \<noteq> None \<and> i + q_padding (ring s) < length (q_slots (ring s))
    \<and> \<not> writes_slot (prod s) i"
proof -
  have "pair_inv s" using pair_reach_inv assms(1,2) spsc_new_inv by blast
  then obtain xs where xs: "ring_ok (ring s)" "producer_ok (ring s) (prod s)"
    "slots_ok s xs" "consumer_ok (q_tail (ring s)) (cons s) xs" by (rule pair_invE)
  have i: "i = q_tail (ring s)" "xs \<noteq> []" "\<not> destroyed (cons s)"
    using xs(4) assms(3)
    by (auto simp: touches_slot_def consumer_ok_def destroyed_def split: consumer.splits)
  then have c: "0 < count (ring s)" using xs(3) by (cases xs) (auto simp: slots_ok_def)
  then have "q_head (ring s) \<noteq> q_tail (ring s)" using empty_iff [OF xs(1)] by simp
  moreover have "slot_at (ring s) (used (ring s) 0) = Some (xs ! 0)"
    using xs(3) i c by (auto simp: slots_ok_def)
  ultimately show ?thesis
    using xs(1,2) i used_0 [OF xs(1)]
    by (auto simp: writes_slot_def producer_ok_def ring_ok_def split: producer.splits)
qed

theorem spsc_no_slot_race_witness:
  "slot_at ring2_full 0 \<noteq> None \<and> 0 + q_padding ring2_full < length (q_slots ring2_full)
    \<and> \<not> writes_slot (P_Idle :: nat producer) 0"
  using spsc_no_slot_race [OF ring2_new ring2_move, of 0] by (simp add: touches_slot_def)

text \<open>
  The consumer never gets stuck and the assertion of \<open>pop\<close> never fails: in every
  reachable state it has a step, and it is never in the aborted state.
\<close>

theorem spsc_consumer_progress:
  assumes "spsc_new sz n = Inr q" and "pair_reach q s"
  shows "cons s \<noteq> C_Aborted \<and> (\<exists>s'. consumer_step s s')"
proof -
  have "pair_inv s" using pair_reach_inv assms spsc_new_inv by blast
  then obtain xs where xs: "ring_ok (ring s)" "slots_ok s xs"
    "consumer_ok (q_tail (ring s)) (cons s) xs" by (rule pair_invE)
  show ?thesis
  proof (cases "cons s")
    case (C_Move t)
    then have "t = used (ring s) 0" "0 < length xs" "\<not> destroyed (cons s)"
      using xs used_0 [OF xs(1)] by (auto simp: consumer_ok_def destroyed_def)
    then have "slot_at (ring s) t = Some (xs ! 0)"
      using xs(2) by (auto simp: slots_ok_def)
    with C_Move show ?thesis by (auto intro: consumer_step.move)
  next
    case (C_Check t)
    then show ?thesis
      by (cases "q_head (ring s) = t") (auto intro: check_empty check_some)
  next
    case (C_Assert t v)
    then show ?thesis
      by (cases "q_head (ring s) = t") (auto intro: assert_ok assert_fails)
  qed (use xs(3) in \<open>auto simp: consumer_ok_def intro: consumer_step.intros\<close>)
qed

theorem spsc_consumer_progress_witness:
  "\<exists>s'. consumer_step \<lparr>ring = ring2_full, prod = P_Idle, cons = C_Move 0, pushed = [7], popped = []\<rparr> s'"
  using spsc_consumer_progress [OF ring2_new ring2_move] by simp

end
