(* ===== verification/BlockingQueue.thy ===== *)
theory BlockingQueue
  imports Queues
begin

text \<open>
  \<open>newplan::BlockingQueue\<close> (new\_rdma/include/util/blocking\_queue.h): a \<open>std::queue\<close>
  behind a mutex and a condition variable. Every method holds the mutex for its whole body, so
  a method is one atomic step; a method that waits on the condition variable is one pass
  through its wait loop, and \<open>None\<close> is "went to wait". The wait loop of \<open>pop(log)\<close>
  also counts the wait in \<open>pop_count\<close> and says whether it prints.
\<close>

record 'a bqueue =
  bq_queue :: "'a list"
  bq_pop_count :: u64

definition bq_new :: "'a bqueue" where
  "bq_new = \<lparr>bq_queue = [], bq_pop_count = 0\<rparr>"

definition bq_push :: "'a \<Rightarrow> 'a bqueue \<Rightarrow> 'a bqueue" where
  "bq_push t q = q\<lparr>bq_queue := bq_queue q @ [t]\<rparr>"

definition bq_pop :: "'a bqueue \<Rightarrow> ('a \<times> 'a bqueue) option" where
  "bq_pop q = (case bq_queue q of [] \<Rightarrow> None | t # ts \<Rightarrow> Some (t, q\<lparr>bq_queue := ts\<rparr>))"

text \<open>One pass of \<open>pop(log_on_wait)\<close>: the wait branch prints unless the old count is a
  multiple of 10000.\<close>

definition bq_pop_log :: "'a bqueue \<Rightarrow> bool \<times> 'a bqueue + 'a \<times> 'a bqueue" where
  "bq_pop_log q =
     (case bq_queue q of
        [] \<Rightarrow> Inl (unat (bq_pop_count q) mod 10000 \<noteq> 0, q\<lparr>bq_pop_count := bq_pop_count q + 1\<rparr>)
      | t # ts \<Rightarrow> Inr (t, q\<lparr>bq_queue := ts\<rparr>))"

definition bq_try_peek :: "'a bqueue \<Rightarrow> 'a option" where
  "bq_try_peek q = (case bq_queue q of [] \<Rightarrow> None | t # ts \<Rightarrow> Some t)"

definition bq_try_pop :: "'a bqueue \<Rightarrow> ('a \<times> 'a bqueue) option" where
  "bq_try_pop q = (case bq_queue q of [] \<Rightarrow> None | t # ts \<Rightarrow> Some (t, q\<lparr>bq_queue := ts\<rparr>))"

definition bq_peek :: "'a bqueue \<Rightarrow> 'a option" where
  "bq_peek q = (case bq_queue q of [] \<Rightarrow> None | t # ts \<Rightarrow> Some t)"

definition bq_size :: "'a bqueue \<Rightarrow> nat" where
  "bq_size q = length (bq_queue q)"

text \<open>\<open>try_lock\<close> is whether the mutex was free: the out parameter is written only then.\<close>

definition bq_nonblocking_size :: "bool \<Rightarrow> 'a bqueue \<Rightarrow> nat option" where
  "bq_nonblocking_size try_lock q = (if try_lock then Some (length (bq_queue q)) else None)"

interpretation bq: fifo_queue bq_queue "\<lambda>_. True" "\<lambda>x q. Some (bq_push x q)" bq_pop
  by unfold_locales (auto simp: bq_push_def bq_pop_def list_deq_def split: list.splits)

interpretation bq_try: fifo_queue bq_queue "\<lambda>_. True" "\<lambda>x q. Some (bq_push x q)" bq_try_pop
  by unfold_locales (auto simp: bq_push_def bq_try_pop_def list_deq_def split: list.splits)

lemma bq_push_all: "enq_all (\<lambda>x q. Some (bq_push x q)) xs q = Some (q\<lparr>bq_queue := bq_queue q @ xs\<rparr>)"
  by (induction xs arbitrary: q) (simp_all add: bq_push_def)

text \<open>
  Values pushed into an empty \<open>BlockingQueue\<close> are popped in the order they were pushed,
  none lost; the queue is then empty, so a further \<open>try_pop\<close> fails and \<open>pop\<close> waits.
\<close>

theorem blocking_queue_fifo:
  "\<exists>q1 q2. enq_all (\<lambda>x q. Some (bq_push x q)) xs bq_new = Some q1 \<and> bq_size q1 = length xs
     \<and> deq_n bq_pop (length xs) q1 = Some (xs, q2) \<and> bq_size q2 = 0
     \<and> bq_try_pop q2 = None \<and> bq_pop q2 = None"
  using bq.enq_all_deq_n [of bq_new xs "bq_new\<lparr>bq_queue := xs\<rparr>"]
  by (auto simp: bq_push_all bq_new_def bq_size_def bq_try_pop_def bq_pop_def)

end
