(* ===== verification/Summation.thy ===== *)
theory Summation
  imports Spsc
begin

text \<open>
  \<open>summation::SummationService\<close> (all\_reduce\_tree/summation\_service): the memory pool, the
  reduction kernel and the asynchronous task service over two \<open>SPSCQueue\<close>s. Memory is a
  map from block addresses to arrays of floats. IEEE addition and comparison are the parameters
  \<open>fadd\<close> and \<open>feq\<close>: the code relies on neither associativity nor commutativity, and no
  theorem below assumes them.
\<close>

section \<open>The memory pool\<close>

datatype data_type = FLOAT32 | FLOAT64 | DOUBLE | INT32 | INT64 | UINT32 | UINT64

type_synonym addr = nat

type_synonym 'f heap = "addr \<rightharpoonup> 'f list"

text \<open>
  \<open>mem_group\<close> holds addresses (0 is the null pointer); \<open>freed\<close> records the calls of
  \<open>free\<close>, in order.
\<close>

record 'f pool =
  mem_group :: "addr list"
  available :: "bool list"
  num_allocated :: nat
  heap :: "'f heap"
  freed :: "addr list"

definition pool_init :: "'f heap \<Rightarrow> 'f pool" where
  "pool_init h = \<lparr>mem_group = replicate 1024 0, available = replicate 1024 False,
     num_allocated = 0, heap = h, freed = []\<rparr>"

text \<open>
  \<open>memalign size\<close> is what \<open>posix_memalign\<close> answers: its return code and the address.
  The block is cleared with \<open>memset(buf, 0, mem_size)\<close>; \<open>zero\<close> is the float with all
  bits clear, four bytes each. The element type only prints a warning.
\<close>

definition register_memory ::
  "(u64 \<Rightarrow> int \<times> addr) \<Rightarrow> 'f \<Rightarrow> u64 \<Rightarrow> data_type \<Rightarrow> 'f pool \<Rightarrow> (addr \<times> 'f pool) result" where
  "register_memory memalign zero mem_size dtype p =
     (if mem_size = 0 \<or> mem_size > 0xFFFFFFFF then Inl (Exit 1)
      else let (ret, buf) = memalign mem_size in
        if ret \<noteq> 0 then Inl (Exit 1)
        else bindR (put (mem_group p) (num_allocated p) buf) (\<lambda>mg.
             bindR (put (available p) (num_allocated p) True) (\<lambda>av.
             Inr (buf, p\<lparr>mem_group := mg, available := av, num_allocated := num_allocated p + 1,
                         heap := (heap p)(buf \<mapsto> replicate (unat mem_size div 4) zero)\<rparr>))))"

definition deregister_memory :: "addr \<Rightarrow> data_type \<Rightarrow> 'f pool \<Rightarrow> 'f pool" where
  "deregister_memory dataptr dtype p =
     (case find_index (\<lambda>index. dataptr = mem_group p ! index) 0 (num_allocated p) of
        None \<Rightarrow> p
      | Some index \<Rightarrow>
          (let p' = (if available p ! index = False then p
                     else p\<lparr>heap := (heap p)(dataptr := None), freed := freed p @ [dataptr]\<rparr>)
           in p'\<lparr>available := (available p)[index := False]\<rparr>))"

text \<open>\<open>get_mem_buffer\<close>: 0 is \<open>nullptr\<close>; a freed buffer is only reported, not refused.\<close>

definition get_mem_buffer :: "int \<Rightarrow> 'f pool \<Rightarrow> addr" where
  "get_mem_buffer index p =
     (if index < 0 \<or> index \<ge> int (num_allocated p) then 0 else mem_group p ! nat index)"

section \<open>The reduction kernel\<close>

definition read_elem :: "'f heap \<Rightarrow> addr \<Rightarrow> nat \<Rightarrow> 'f result" where
  "read_elem h a i = (case h a of None \<Rightarrow> Inl OutOfBounds | Some b \<Rightarrow> at b i)"

definition write_elem :: "'f heap \<Rightarrow> addr \<Rightarrow> nat \<Rightarrow> 'f \<Rightarrow> 'f heap result" where
  "write_elem h a i v =
     (case h a of None \<Rightarrow> Inl OutOfBounds | Some b \<Rightarrow> bindR (put b i v) (\<lambda>b'. Inr (h(a \<mapsto> b'))))"

text \<open>\<open>src0[i] + src1[i] + ...\<close>, associated to the left.\<close>

fun sum_from :: "('f \<Rightarrow> 'f \<Rightarrow> 'f) \<Rightarrow> 'f heap \<Rightarrow> nat \<Rightarrow> 'f \<Rightarrow> addr list \<Rightarrow> 'f result" where
  "sum_from fadd h i acc [] = Inr acc"
| "sum_from fadd h i acc (a # as) = bindR (read_elem h a i) (\<lambda>v. sum_from fadd h i (fadd acc v) as)"

definition reduce_elem :: "('f \<Rightarrow> 'f \<Rightarrow> 'f) \<Rightarrow> addr list \<Rightarrow> 'f heap \<Rightarrow> nat \<Rightarrow> 'f heap result" where
  "reduce_elem fadd srcs h i =
     (case srcs of
        [] \<Rightarrow> Inl OutOfBounds
      | dst # rest \<Rightarrow>
          bindR (read_elem h dst i) (\<lambda>v.
          bindR (sum_from fadd h i v rest) (\<lambda>r.
          write_elem h dst i r)))"

text \<open>The loop over a list of iterations: in the source \<open>[0..<num_elements]\<close>, under
  \<open>omp parallel for\<close> in any order.\<close>

fun reduce_loop :: "('f \<Rightarrow> 'f \<Rightarrow> 'f) \<Rightarrow> addr list \<Rightarrow> nat list \<Rightarrow> 'f heap \<Rightarrow> 'f heap result" where
  "reduce_loop fadd srcs [] h = Inr h"
| "reduce_loop fadd srcs (i # is) h = bindR (reduce_elem fadd srcs h i) (reduce_loop fadd srcs is)"

text \<open>
  \<open>reduce_sum\<close> first loads \<open>src[0]\<close> to \<open>src[19]\<close>, whatever \<open>num_blocks\<close> is; case
  \<open>n\<close> of the switch (2 to 20) adds the first \<open>n\<close> of them; any other value only prints.
\<close>

definition load_sources :: "addr list \<Rightarrow> addr list result" where
  "load_sources src = (if length src < 20 then Inl OutOfBounds else Inr (take 20 src))"

definition reduce_sum ::
  "('f \<Rightarrow> 'f \<Rightarrow> 'f) \<Rightarrow> addr list \<Rightarrow> int \<Rightarrow> nat \<Rightarrow> data_type \<Rightarrow> 'f heap \<Rightarrow> 'f heap result" where
  "reduce_sum fadd src num_blocks num_elements dtype h =
     bindR (load_sources src) (\<lambda>srcs.
       if 2 \<le> num_blocks \<and> num_blocks \<le> 20
       then reduce_loop fadd (take (nat num_blocks) srcs) [0..<num_elements] h
       else Inr h)"

text \<open>\<open>checksum\<close> leaves the process with status 0 at the first element that differs.\<close>

fun checksum :: "('f \<Rightarrow> 'f \<Rightarrow> bool) \<Rightarrow> 'f list \<Rightarrow> nat \<Rightarrow> 'f \<Rightarrow> nat \<Rightarrow> unit result" where
  "checksum feq res index val 0 = Inr ()"
| "checksum feq res index val (Suc n) =
     bindR (at res index) (\<lambda>r. if \<not> feq r val then Inl (Exit 0) else checksum feq res (Suc index) val n)"

section \<open>The task service\<close>

record task_info =
  agg_width :: int
  length_in_byte :: int
  task_data :: "addr list"

record 'f service =
  svc_pool :: "'f pool"
  in_queue :: "task_info spsc"
  out_queue :: "task_info spsc"
  bg_thread :: bool

text \<open>\<open>sizeof(TaskInfo)\<close> is 16: two ints and a pointer.\<close>

definition service_new :: "'f heap \<Rightarrow> 'f service result" where
  "service_new h =
     bindR (spsc_new 16 1024) (\<lambda>inq. bindR (spsc_new 16 1024) (\<lambda>outq.
       Inr \<lparr>svc_pool = pool_init h, in_queue = inq, out_queue = outq, bg_thread = False\<rparr>))"

text \<open>\<open>None\<close>: the caller spins on a full queue, or on an empty one.\<close>

definition submited_compute_task ::
  "int \<Rightarrow> int \<Rightarrow> addr list \<Rightarrow> 'f service \<Rightarrow> (int \<times> 'f service) option" where
  "submited_compute_task width len data s =
     map_option (\<lambda>q. (0, s\<lparr>in_queue := q\<rparr>))
       (push \<lparr>agg_width = width, length_in_byte = len, task_data = data\<rparr> (in_queue s))"

definition sync_compute_task :: "int \<Rightarrow> 'f service \<Rightarrow> 'f service option" where
  "sync_compute_task token s =
     map_option (\<lambda>(t, q). s\<lparr>out_queue := q\<rparr>) (blocking_pop (out_queue s))"

definition peek_compute_task :: "int \<Rightarrow> 'f service \<Rightarrow> (bool \<times> 'f service) result" where
  "peek_compute_task token s =
     (if front (out_queue s) = None then Inr (False, s)
      else bindR (pop (out_queue s)) (\<lambda>q. Inr (True, s\<lparr>out_queue := q\<rparr>)))"

definition start_service_async :: "'f service \<Rightarrow> 'f service" where
  "start_service_async s = (if bg_thread s then s else s\<lparr>bg_thread := True\<rparr>)"

text \<open>
  The background thread's loop body. \<open>length_in_byte / sizeof(float)\<close> divides an \<open>int\<close>
  by a \<open>size_t\<close>: the length is converted to 64 bits unsigned first.
\<close>

definition task_elements :: "task_info \<Rightarrow> nat" where
  "task_elements t = unat (word_of_int (length_in_byte t) :: u64) div 4"

definition run_task :: "('f \<Rightarrow> 'f \<Rightarrow> 'f) \<Rightarrow> task_info \<Rightarrow> 'f heap \<Rightarrow> 'f heap result" where
  "run_task fadd t h = reduce_sum fadd (task_data t) (agg_width t) (task_elements t) FLOAT32 h"

definition worker_step :: "('f \<Rightarrow> 'f \<Rightarrow> 'f) \<Rightarrow> 'f service \<Rightarrow> 'f service result option" where
  "worker_step fadd s =
     (case blocking_pop (in_queue s) of
        None \<Rightarrow> None
      | Some (t, inq) \<Rightarrow>
          (case run_task fadd t (heap (svc_pool s)) of
             Inl e \<Rightarrow> Some (Inl e)
           | Inr h \<Rightarrow>
               map_option (\<lambda>outq. Inr (s\<lparr>svc_pool := (svc_pool s)\<lparr>heap := h\<rparr>,
                                         in_queue := inq, out_queue := outq\<rparr>))
                 (push t (out_queue s))))"

end
