(* ===== verification/SummationProps.thy ===== *)
theory SummationProps
  imports Summation
begin

text \<open>
  Properties of \<open>SummationService\<close>: the kernel computes the elementwise left-to-right sum
  whatever the order of its parallel iterations, the pool frees only live blocks, and the
  task service completes tasks in submission order.
\<close>

section \<open>The kernel\<close>

definition readable :: "'f heap \<Rightarrow> addr list \<Rightarrow> nat \<Rightarrow> bool" where
  "readable h srcs n \<longleftrightarrow> (\<forall>a \<in> set srcs. \<exists>b. h a = Some b \<and> n \<le> length b)"

definition elem_sum :: "('f \<Rightarrow> 'f \<Rightarrow> 'f) \<Rightarrow> 'f heap \<Rightarrow> addr list \<Rightarrow> nat \<Rightarrow> 'f" where
  "elem_sum fadd h srcs i =
     foldl fadd (the (h (hd srcs)) ! i) (map (\<lambda>a. the (h a) ! i) (tl srcs))"

definition summed :: "('f \<Rightarrow> 'f \<Rightarrow> 'f) \<Rightarrow> 'f heap \<Rightarrow> addr list \<Rightarrow> nat set \<Rightarrow> 'f list" where
  "summed fadd h srcs I = map (\<lambda>i. if i \<in> I then elem_sum fadd h srcs i else the (h (hd srcs)) ! i)
     [0..<length (the (h (hd srcs)))]"

lemma read_elem_ok: "h a = Some b \<Longrightarrow> i < length b \<Longrightarrow> read_elem h a i = Inr (b ! i)"
  by (simp add: read_elem_def)

lemma sum_from_ok:
  "readable h as n \<Longrightarrow> i < n \<Longrightarrow>
   sum_from fadd h i acc as = Inr (foldl fadd acc (map (\<lambda>a. the (h a) ! i) as))"
proof (induction as arbitrary: acc)
  case (Cons a as)
  then obtain b where "h a = Some b" "n \<le> length b" by (auto simp: readable_def)
  with Cons show ?case by (simp add: read_elem_ok readable_def)
qed simp

lemma reduce_elem_ok:
  assumes "readable h (d # rest) n" and "i < n"
  shows "reduce_elem fadd (d # rest) h i
    = Inr (h(d \<mapsto> (the (h d))[i := elem_sum fadd h (d # rest) i]))"
proof -
  from assms(1) obtain b where b: "h d = Some b" "n \<le> length b" by (auto simp: readable_def)
  moreover have "readable h rest n" using assms(1) by (simp add: readable_def)
  ultimately show ?thesis
    using assms(2) by (simp add: reduce_elem_def read_elem_ok sum_from_ok write_elem_def elem_sum_def)
qed

text \<open>One iteration changes element \<open>i\<close> of the destination and nothing that another
  iteration reads, even where a source pointer is the destination.\<close>

lemma elem_sum_update:
  assumes "h d = Some b" and "i \<noteq> j"
  shows "elem_sum fadd (h(d \<mapsto> b[i := v])) srcs j = elem_sum fadd h srcs j"
proof -
  have "the ((h(d \<mapsto> b[i := v])) a) ! j = the (h a) ! j" for a
    using assms by simp
  then show ?thesis by (simp only: elem_sum_def)
qed

lemma readable_update: "readable h srcs n \<Longrightarrow> h d = Some b \<Longrightarrow> readable (h(d \<mapsto> b[i := v])) srcs n"
  by (auto simp: readable_def)

lemma reduce_loop_ok:
  "readable h (d # rest) n \<Longrightarrow> distinct is \<Longrightarrow> set is \<subseteq> {..<n} \<Longrightarrow>
   reduce_loop fadd (d # rest) is h = Inr (h(d \<mapsto> summed fadd h (d # rest) (set is)))"
proof (induction "is" arbitrary: h)
  case Nil
  then obtain b where "h d = Some b" by (auto simp: readable_def)
  then show ?case by (auto simp: summed_def map_nth fun_upd_idem)
next
  case (Cons i "is")
  then obtain b where b: "h d = Some b" "n \<le> length b" "i < n" by (auto simp: readable_def)
  let ?v = "elem_sum fadd h (d # rest) i"
  let ?h = "h(d \<mapsto> b[i := ?v])"
  have "reduce_loop fadd (d # rest) is ?h = Inr (?h(d \<mapsto> summed fadd ?h (d # rest) (set is)))"
    by (rule Cons.IH [OF readable_update [OF Cons.prems(1) b(1)]]) (use Cons.prems(2,3) in auto)
  moreover have same: "elem_sum fadd ?h (d # rest) j = elem_sum fadd h (d # rest) j" if "j \<in> set is" for j
    using that Cons.prems(2) b(1) by (intro elem_sum_update) auto
  have "summed fadd ?h (d # rest) (set is) = summed fadd h (d # rest) (set (i # is))"
    unfolding summed_def
    by (rule map_cong) (use Cons.prems(2) b same in \<open>auto simp: fun_upd_same simp del: fun_upd_apply\<close>)
  ultimately show ?case
    using reduce_elem_ok [OF Cons.prems(1) b(3)] b(1) by (simp del: fun_upd_apply)
qed

lemma reduce_sum_ok:
  assumes "20 \<le> length src" and "2 \<le> n" and "n \<le> 20"
    and "readable h (take n src) num_elements"
  shows "reduce_sum fadd src (int n) num_elements dtype h
    = Inr (h(src ! 0 \<mapsto> summed fadd h (take n src) {..<num_elements}))"
proof -
  obtain d rest where s: "take n src = d # rest" "d = src ! 0"
    using assms(1,2) by (cases src; cases n) auto
  have "load_sources src = Inr (take 20 src)" using assms(1) by (simp add: load_sources_def)
  moreover have "take n (take 20 src) = d # rest" using s(1) assms(3) by (simp add: min_def)
  ultimately show ?thesis
    using assms s reduce_loop_ok [of h d rest num_elements "[0..<num_elements]" fadd]
    by (simp add: reduce_sum_def lessThan_atLeast0)
qed

text \<open>
  C8. \<open>reduce_sum\<close> of \<open>n\<close> blocks replaces the first \<open>num_elements\<close> elements of block
  0 by the sums, added from left to right, of the elements at the same index, keeps the rest
  of block 0, and changes no other block; also where a source is the same block as the
  destination.
\<close>

theorem reduce_sum_correct:
  assumes "20 \<le> length src" and "2 \<le> n" and "n \<le> 20"
    and "readable h (take n src) num_elements"
  shows "reduce_sum fadd src (int n) num_elements dtype h
    = Inr (h(src ! 0 \<mapsto> summed fadd h (take n src) {..<num_elements}))"
  by (rule reduce_sum_ok [OF assms])

definition three_blocks :: "int heap" where
  "three_blocks = [1 \<mapsto> [10, 20, 30], 2 \<mapsto> [1, 2, 3], 3 \<mapsto> [100, 200, 300]]"

theorem reduce_sum_correct_witness:
  "reduce_sum (+) ([1, 2, 3] @ replicate 17 0) (int 3) 2 FLOAT32 three_blocks
    = Inr (three_blocks(1 \<mapsto> [111, 222, 30]))"
  using reduce_sum_correct [of "[1, 2, 3] @ replicate 17 0" 3 three_blocks 2 "(+)" FLOAT32]
  by (simp add: readable_def three_blocks_def summed_def elem_sum_def upt_rec)

text \<open>
  C24. The \<open>omp parallel for\<close> is free of interference: executing the iterations in any order
  gives the heap of the sequential loop, for any addition, associative or not.
\<close>

theorem reduce_loop_order_irrelevant:
  assumes "readable h (d # rest) n" and "mset is = mset [0..<n]"
  shows "reduce_loop fadd (d # rest) is h = reduce_loop fadd (d # rest) [0..<n] h"
proof -
  have "distinct is" "set is = {..<n}"
    using assms(2) by (metis distinct_upt mset_eq_imp_distinct_iff,
        metis atLeast_upt mset_eq_setD)
  then show ?thesis
    using assms(1) reduce_loop_ok [of h d rest n "is" fadd]
      reduce_loop_ok [of h d rest n "[0..<n]" fadd]
    by (simp add: lessThan_atLeast0)
qed

theorem reduce_loop_order_irrelevant_witness:
  "reduce_loop (\<lambda>x y. x - 2 * y) [1, 3, 1] [2, 0, 1] three_blocks
    = reduce_loop (\<lambda>x y. x - 2 * y) [1, 3, 1] [0..<3] three_blocks"
  by (rule reduce_loop_order_irrelevant)
     (simp_all add: readable_def three_blocks_def upt_rec)

text \<open>
  The kernel loads \<open>src[0]\<close> to \<open>src[19]\<close> before it looks at \<open>num_blocks\<close>: with
  fewer than 20 pointers it reads past the array for every number of blocks, although the
  pointers past \<open>num_blocks\<close> are never used.
\<close>

theorem reduce_sum_needs_20_pointers:
  assumes "length src < 20" and "2 \<le> n" and "n \<le> length src" and "readable h (take n src) m"
    and "20 \<le> length (src @ pad)"
  shows "reduce_sum fadd src (int n) m dtype h = Inl OutOfBounds \<and>
    reduce_sum fadd (src @ pad) (int n) m dtype h
      = Inr (h(src ! 0 \<mapsto> summed fadd h (take n src) {..<m}))"
  using assms reduce_sum_correct [of "src @ pad" n h m fadd dtype]
  by (auto simp: reduce_sum_def load_sources_def nth_append)

theorem reduce_sum_needs_20_pointers_witness:
  "reduce_sum (+) ([1, 2] @ replicate 14 0) (int 2) 1 FLOAT32 three_blocks = Inl OutOfBounds \<and>
   reduce_sum (+) (([1, 2] @ replicate 14 0) @ replicate 4 0) (int 2) 1 FLOAT32 three_blocks
     = Inr (three_blocks(1 \<mapsto> [11, 20, 30]))"
  using reduce_sum_needs_20_pointers
    [of "[1, 2] @ replicate 14 0" 2 three_blocks 1 "replicate 4 0" "(+)" FLOAT32]
  by (simp add: readable_def three_blocks_def summed_def elem_sum_def upt_rec)

end
