(* ===== verification/TaskService.thy ===== *)
theory TaskService
  imports SummationProps
begin

text \<open>
  The memory pool and the background thread of \<open>SummationService\<close>: what a sequence of
  \<open>register_memory\<close> and \<open>deregister_memory\<close> calls keeps, where it fails, and that the
  tasks a client submits are all executed, in order, and reported back in order.
\<close>

section \<open>The memory pool\<close>

text \<open>
  The pools a client can reach. When \<open>posix_memalign\<close> returns 0, the address is not null
  and is no live block's; that is its documented behaviour.
\<close>

inductive pool_reach :: "'f pool \<Rightarrow> bool" where
  init: "pool_reach (pool_init h)"
| register: "pool_reach p \<Longrightarrow> register_memory memalign zero sz dt p = Inr (buf, p')
    \<Longrightarrow> buf \<noteq> 0 \<Longrightarrow> heap p buf = None \<Longrightarrow> pool_reach p'"
| deregister: "pool_reach p \<Longrightarrow> pool_reach (deregister_memory a dt p)"

definition pool_inv :: "'f pool \<Rightarrow> bool" where
  "pool_inv p \<longleftrightarrow> length (mem_group p) = 1024 \<and> length (available p) = 1024
     \<and> num_allocated p \<le> 1024
     \<and> (\<forall>i < num_allocated p. available p ! i \<longrightarrow> heap p (mem_group p ! i) \<noteq> None)
     \<and> (\<forall>i < num_allocated p. \<forall>j < num_allocated p. available p ! i \<longrightarrow> available p ! j
          \<longrightarrow> mem_group p ! i = mem_group p ! j \<longrightarrow> i = j)
     \<and> (\<forall>i < num_allocated p. mem_group p ! i \<noteq> 0)"

lemma register_memory_Inr:
  assumes "register_memory memalign zero sz dt p = Inr (buf, p')"
  shows "num_allocated p < length (mem_group p) \<and> num_allocated p < length (available p)
    \<and> p' = p\<lparr>mem_group := (mem_group p)[num_allocated p := buf],
              available := (available p)[num_allocated p := True],
              num_allocated := num_allocated p + 1,
              heap := (heap p)(buf \<mapsto> replicate (unat sz div 4) zero)\<rparr>"
  using assms
  by (auto simp: register_memory_def put_def Let_def bindR_eq_Inr_iff split: if_splits prod.splits)

lemma pool_inv_register:
  assumes "pool_inv p" and "register_memory memalign zero sz dt p = Inr (buf, p')"
    and "buf \<noteq> 0" and "heap p buf = None"
  shows "pool_inv p'"
proof -
  note p' = register_memory_Inr [OF assms(2)]
  note inv = assms(1)[unfolded pool_inv_def]
  have fresh: "mem_group p ! i \<noteq> buf" if "i < num_allocated p" "available p ! i" for i
    using that inv assms(4) by metis
  have "available p' ! i \<longrightarrow> heap p' (mem_group p' ! i) \<noteq> None" if "i < num_allocated p'" for i
    using that inv p' by (cases "i = num_allocated p") auto
  moreover have "i = j" if "i < num_allocated p'" "j < num_allocated p'" "available p' ! i"
    "available p' ! j" "mem_group p' ! i = mem_group p' ! j" for i j
    using that inv p' fresh [of i] fresh [of j]
    by (cases "i = num_allocated p"; cases "j = num_allocated p") auto
  moreover have "mem_group p' ! i \<noteq> 0" if "i < num_allocated p'" for i
    using that inv p' assms(3) by (cases "i = num_allocated p") auto
  ultimately show ?thesis using p' inv by (simp add: pool_inv_def)
qed

text \<open>The two branches of \<open>deregister_memory\<close> in a pool that keeps the invariant.\<close>

lemma deregister_memory_cases:
  assumes "pool_inv p"
  obtains "deregister_memory a dt p = p"
  | k where "k < num_allocated p" and "mem_group p ! k = a" and "available p ! k"
      and "deregister_memory a dt p = p\<lparr>heap := (heap p)(a := None), freed := freed p @ [a],
             available := (available p)[k := False]\<rparr>"
proof (cases "find_index (\<lambda>index. a = mem_group p ! index) 0 (num_allocated p)")
  case (Some k)
  then have k: "k < num_allocated p" "mem_group p ! k = a" by (auto dest!: find_index_Some)
  show ?thesis
  proof (cases "available p ! k")
    case True
    with Some k show ?thesis by (intro that(2)) (simp_all add: deregister_memory_def)
  next
    case False
    then have "(available p)[k := False] = available p" by (metis list_update_id)
    with Some False show ?thesis by (intro that(1)) (simp add: deregister_memory_def)
  qed
qed (simp add: deregister_memory_def that(1))

lemma pool_inv_deregister:
  assumes "pool_inv p"
  shows "pool_inv (deregister_memory a dt p)"
  using assms
proof (cases rule: deregister_memory_cases [of p a dt])
  case (2 k)
  note inv = assms[unfolded pool_inv_def]
  have "i = k \<or> mem_group p ! i \<noteq> a" if "i < num_allocated p" "available p ! i" for i
    using that 2(1-3) inv by metis
  then have "(available p)[k := False] ! i \<longrightarrow> ((heap p)(a := None)) (mem_group p ! i) \<noteq> None"
    if "i < num_allocated p" for i
    using that inv by (cases "i = k") auto
  moreover have "(available p)[k := False] ! i \<longrightarrow> available p ! i" if "i < num_allocated p" for i
    using that inv by (cases "i = k") auto
  ultimately show ?thesis using inv 2(4) by (simp add: pool_inv_def)
qed (use assms in simp_all)

lemma pool_reach_inv: "pool_reach p \<Longrightarrow> pool_inv p"
proof (induction rule: pool_reach.induct)
  case (init h)
  show ?case by (simp add: pool_inv_def pool_init_def)
qed (blast intro: pool_inv_register pool_inv_deregister)+

text \<open>
  C31. In every pool a client can reach, \<open>deregister_memory\<close> passes to \<open>free\<close> only the
  argument and only when it is a live block, so nothing is freed twice; every other block
  keeps its contents.
\<close>

theorem deregister_frees_live_only:
  assumes "pool_reach p"
  shows "(freed (deregister_memory a dt p) = freed p \<and> heap (deregister_memory a dt p) = heap p)
    \<or> (freed (deregister_memory a dt p) = freed p @ [a] \<and> heap p a \<noteq> None
        \<and> heap (deregister_memory a dt p) = (heap p)(a := None))"
  by (rule deregister_memory_cases [OF pool_reach_inv [OF assms], of a dt])
     (use pool_reach_inv [OF assms] in \<open>auto simp: pool_inv_def\<close>)

definition one_block :: "nat pool" where
  "one_block = (pool_init Map.empty)\<lparr>mem_group := (replicate 1024 0)[0 := 7],
     available := (replicate 1024 False)[0 := True], num_allocated := 1,
     heap := [7 \<mapsto> replicate 2 0]\<rparr>"

lemma one_block_registered: "register_memory (\<lambda>_. (0, 7)) 0 8 FLOAT32 (pool_init Map.empty) = Inr (7, one_block)"
  by (simp add: register_memory_def pool_init_def one_block_def)

lemma pool_reach_one_block: "pool_reach one_block"
  using pool_reach.register [OF pool_reach.init one_block_registered] by (simp add: pool_init_def)

theorem deregister_frees_live_only_witness:
  "freed (deregister_memory 7 FLOAT32 one_block) = [7]
   \<and> heap (deregister_memory 7 FLOAT32 one_block) 7 = None"
  using deregister_frees_live_only [OF pool_reach_one_block, of 7 FLOAT32]
  by (auto simp: one_block_def deregister_memory_def pool_init_def)

text \<open>
  Every outcome of \<open>register_memory\<close> in a reachable pool: a bad size or a failed
  allocation ends the process; the 1025th block is written past the pool's arrays; otherwise
  the block is zeroed, is found again by \<open>get_mem_buffer\<close> under the next index, and every
  earlier index still finds its block.
\<close>

theorem register_memory_outcomes:
  assumes "pool_reach p"
  shows "case register_memory memalign zero sz dt p of
      Inl e \<Rightarrow>
        if sz = 0 \<or> sz > 0xFFFFFFFF \<or> fst (memalign sz) \<noteq> 0 then e = Exit 1
        else e = OutOfBounds \<and> num_allocated p = 1024
    | Inr (buf, p') \<Rightarrow>
        sz \<noteq> 0 \<and> sz \<le> 0xFFFFFFFF \<and> memalign sz = (0, buf)
        \<and> num_allocated p < 1024 \<and> num_allocated p' = num_allocated p + 1
        \<and> get_mem_buffer (int (num_allocated p)) p' = buf
        \<and> (\<forall>i < int (num_allocated p). get_mem_buffer i p' = get_mem_buffer i p)
        \<and> heap p' = (heap p)(buf \<mapsto> replicate (unat sz div 4) zero)"
proof (cases "register_memory memalign zero sz dt p")
  case (Inl e)
  then show ?thesis using pool_reach_inv [OF assms, unfolded pool_inv_def]
    by (auto simp: register_memory_def put_def Let_def split: prod.splits if_splits)
next
  case (Inr r)
  obtain buf p' where r: "r = (buf, p')" by (cases r)
  have "sz \<noteq> 0 \<and> sz \<le> 0xFFFFFFFF \<and> memalign sz = (0, buf)"
    using Inr r by (auto simp: register_memory_def put_def Let_def split: prod.splits if_splits)
  then show ?thesis
    using Inr r register_memory_Inr [OF Inr [unfolded r]] pool_reach_inv [OF assms, unfolded pool_inv_def]
    by (auto simp: get_mem_buffer_def nat_less_iff)
qed

theorem register_memory_outcomes_witness:
  "get_mem_buffer 0 one_block = 7 \<and> num_allocated one_block = 1
    \<and> heap one_block = [7 \<mapsto> replicate 2 0]"
  using register_memory_outcomes [OF pool_reach.init [of Map.empty],
      where memalign = "\<lambda>_. (0, 7)" and zero = "0::nat" and sz = 8 and dt = FLOAT32]
  unfolding one_block_registered by (simp add: pool_init_def)

text \<open>
  \<open>deregister_memory\<close> stops at the first entry that holds the address, also when that
  entry is a freed one: once the allocator has handed out an address again, the second block
  at it is never freed.
\<close>

theorem reused_address_is_leaked:
  assumes "0 < sz" and "sz \<le> 0xFFFFFFFF" and "a \<noteq> 0"
  shows "\<exists>p1 p2. register_memory (\<lambda>_. (0, a)) zero sz dt (pool_init Map.empty) = Inr (a, p1)
    \<and> heap (deregister_memory a dt p1) a = None
    \<and> register_memory (\<lambda>_. (0, a)) zero sz dt (deregister_memory a dt p1) = Inr (a, p2)
    \<and> pool_reach p2
    \<and> heap (deregister_memory a dt p2) a = Some (replicate (unat sz div 4) zero)
    \<and> freed (deregister_memory a dt p2) = freed p2"
proof -
  have sz: "sz \<noteq> 0" "\<not> 0xFFFFFFFF < sz" using assms(1,2) by auto
  obtain p1 where p1: "register_memory (\<lambda>_. (0, a)) zero sz dt (pool_init Map.empty) = Inr (a, p1)"
    and d1: "p1 = (pool_init Map.empty)\<lparr>mem_group := (replicate 1024 0)[0 := a],
       available := (replicate 1024 False)[0 := True], num_allocated := 1,
       heap := [a \<mapsto> replicate (unat sz div 4) zero]\<rparr>"
    using sz by (simp add: register_memory_def pool_init_def)
  let ?p = "deregister_memory a dt p1"
  have d: "heap ?p a = None" "mem_group ?p ! 0 = a" "available ?p ! 0 = False"
    "num_allocated ?p = 1" "length (mem_group ?p) = 1024" "length (available ?p) = 1024"
    by (simp_all add: deregister_memory_def d1 pool_init_def)
  have r: "pool_reach ?p"
    using pool_reach.register [OF pool_reach.init p1] assms(3)
    by (auto intro: pool_reach.deregister simp: pool_init_def)
  obtain p2 where p2: "register_memory (\<lambda>_. (0, a)) zero sz dt ?p = Inr (a, p2)"
    using sz d by (simp add: register_memory_def)
  have d2: "mem_group p2 ! 0 = a" "available p2 ! 0 = False" "num_allocated p2 = 2"
    "heap p2 a = Some (replicate (unat sz div 4) zero)"
    using register_memory_Inr [OF p2] d by simp_all
  have "find_index (\<lambda>index. a = mem_group p2 ! index) 0 (num_allocated p2) = Some 0"
    using d2 by (simp add: numeral_2_eq_2)
  then have "heap (deregister_memory a dt p2) a = Some (replicate (unat sz div 4) zero)"
    "freed (deregister_memory a dt p2) = freed p2"
    using d2 by (simp_all add: deregister_memory_def)
  with p1 d(1) p2 pool_reach.register [OF r p2 assms(3) d(1)] show ?thesis by blast
qed

theorem reused_address_is_leaked_witness:
  "\<exists>p1 p2. register_memory (\<lambda>_. (0, 7)) (0::nat) 8 FLOAT32 (pool_init Map.empty) = Inr (7, p1)
    \<and> heap (deregister_memory 7 FLOAT32 p1) 7 = None
    \<and> register_memory (\<lambda>_. (0, 7)) 0 8 FLOAT32 (deregister_memory 7 FLOAT32 p1) = Inr (7, p2)
    \<and> pool_reach p2
    \<and> heap (deregister_memory 7 FLOAT32 p2) 7 = Some (replicate (unat (8::u64) div 4) 0)
    \<and> freed (deregister_memory 7 FLOAT32 p2) = freed p2"
  by (rule reused_address_is_leaked) simp_all

section \<open>The background thread\<close>

text \<open>The client's side of a batch, the worker's passes, and the effect they should have.\<close>

fun submit_all :: "task_info list \<Rightarrow> 'f service \<Rightarrow> 'f service option" where
  "submit_all [] s = Some s"
| "submit_all (t # ts) s =
     Option.bind (submited_compute_task (agg_width t) (length_in_byte t) (task_data t) s)
       (\<lambda>(token, s'). submit_all ts s')"

fun worker_n :: "('f \<Rightarrow> 'f \<Rightarrow> 'f) \<Rightarrow> nat \<Rightarrow> 'f service \<Rightarrow> 'f service result option" where
  "worker_n fadd 0 s = Some (Inr s)"
| "worker_n fadd (Suc n) s =
     (case worker_step fadd s of
        None \<Rightarrow> None
      | Some (Inl e) \<Rightarrow> Some (Inl e)
      | Some (Inr s') \<Rightarrow> worker_n fadd n s')"

fun sync_n :: "nat \<Rightarrow> 'f service \<Rightarrow> 'f service option" where
  "sync_n 0 s = Some s"
| "sync_n (Suc n) s = Option.bind (sync_compute_task 0 s) (sync_n n)"

fun run_tasks :: "('f \<Rightarrow> 'f \<Rightarrow> 'f) \<Rightarrow> task_info list \<Rightarrow> 'f heap \<Rightarrow> 'f heap result" where
  "run_tasks fadd [] h = Inr h"
| "run_tasks fadd (t # ts) h = bindR (run_task fadd t h) (run_tasks fadd ts)"

definition service_inv :: "'f service \<Rightarrow> bool" where
  "service_inv s \<longleftrightarrow> spsc_inv (in_queue s) \<and> spsc_inv (out_queue s)
     \<and> q_capacity (in_queue s) = 1024 \<and> q_capacity (out_queue s) = 1024"

abbreviation pending :: "'f service \<Rightarrow> task_info list" where
  "pending s \<equiv> spsc_items (in_queue s)"

abbreviation finished :: "'f service \<Rightarrow> task_info list" where
  "finished s \<equiv> spsc_items (out_queue s)"

lemma service_new_ok:
  "\<exists>s. service_new h = Inr s \<and> service_inv s \<and> pending s = [] \<and> finished s = []
     \<and> heap (svc_pool s) = h"
proof -
  obtain q :: "task_info spsc" where "spsc_new 16 1024 = Inr q"
    by (simp add: spsc_new_def)
  then show ?thesis
    using spsc_new_inv [of 16 1024 q]
    by (auto simp: service_new_def service_inv_def pool_init_def spsc_new_def)
qed

lemma task_eta: "\<lparr>agg_width = agg_width t, length_in_byte = length_in_byte t, task_data = task_data t\<rparr> = t"
  by (cases t) simp

lemma submit_ok:
  assumes "service_inv s" and "length (pending s) < 1023"
  shows "\<exists>q. submited_compute_task (agg_width t) (length_in_byte t) (task_data t) s
      = Some (0, s\<lparr>in_queue := q\<rparr>)
    \<and> service_inv (s\<lparr>in_queue := q\<rparr>) \<and> spsc_items q = pending s @ [t]"
proof -
  from assms obtain q where q: "emplace t (in_queue s) = Some q"
    using emplace_None_iff [of "in_queue s" t] by (cases "emplace t (in_queue s)") (auto simp: service_inv_def)
  with emplace_Some [OF _ q] assms(1) show ?thesis
    by (auto simp: submited_compute_task_def push_def task_eta service_inv_def)
qed

lemma submit_all_ok:
  "service_inv s \<Longrightarrow> length (pending s) + length ts \<le> 1023 \<Longrightarrow>
   \<exists>q. submit_all ts s = Some (s\<lparr>in_queue := q\<rparr>) \<and> service_inv (s\<lparr>in_queue := q\<rparr>)
     \<and> spsc_items q = pending s @ ts"
proof (induction ts arbitrary: s)
  case Nil
  then show ?case by (intro exI [of _ "in_queue s"]) simp
next
  case (Cons t ts)
  then obtain q where q: "submited_compute_task (agg_width t) (length_in_byte t) (task_data t) s
      = Some (0, s\<lparr>in_queue := q\<rparr>)" "service_inv (s\<lparr>in_queue := q\<rparr>)"
    "spsc_items q = pending s @ [t]"
    using submit_ok [of s t] by auto
  then have "count q = Suc (count (in_queue s))" by (metis length_append_singleton length_spsc_items)
  with q Cons.prems Cons.IH [of "s\<lparr>in_queue := q\<rparr>"] show ?case by simp
qed

lemma blocking_pop_head:
  assumes "spsc_inv q" and "q_capacity q = n" and "2 \<le> n" and "spsc_items q = t # ts"
  shows "\<exists>q'. blocking_pop q = Some (t, q') \<and> spsc_items q' = ts \<and> spsc_inv q' \<and> q_capacity q' = n"
proof -
  obtain q' where q: "blocking_pop q = Some (t, q')" "spsc_items q' = ts" "spsc_inv q'"
    using ring.deq_Cons [OF assms(1,4)] by blast
  moreover have "q_capacity q' - 1 = n - 1" using ring.deq_bound [OF assms(1) q(1)] assms(2) by simp
  ultimately show ?thesis using assms(3) spsc_inv_ring [OF q(3)] by (auto simp: ring_ok_def)
qed

lemma worker_step_ok:
  assumes "service_inv s" and "pending s = t # ts" and "length (finished s) < 1023"
    and "run_task fadd t (heap (svc_pool s)) = Inr h"
  shows "\<exists>s'. worker_step fadd s = Some (Inr s') \<and> service_inv s' \<and> pending s' = ts
    \<and> finished s' = finished s @ [t] \<and> heap (svc_pool s') = h"
proof -
  obtain q where q: "blocking_pop (in_queue s) = Some (t, q)" "spsc_items q = ts" "spsc_inv q"
    and c: "q_capacity q = 1024"
    using blocking_pop_head [of "in_queue s" 1024 t ts] assms(1,2) by (auto simp: service_inv_def)
  from assms(1,3) obtain r where r: "emplace t (out_queue s) = Some r"
    using emplace_None_iff [of "out_queue s" t] by (cases "emplace t (out_queue s)") (auto simp: service_inv_def)
  with q c emplace_Some [OF _ r] assms(1,4) show ?thesis
    by (auto simp: worker_step_def push_def service_inv_def)
qed

lemma worker_n_ok:
  "service_inv s \<Longrightarrow> pending s = ts \<Longrightarrow> length (finished s) + length ts \<le> 1023 \<Longrightarrow>
   run_tasks fadd ts (heap (svc_pool s)) = Inr h \<Longrightarrow>
   \<exists>s'. worker_n fadd (length ts) s = Some (Inr s') \<and> service_inv s' \<and> pending s' = []
     \<and> finished s' = finished s @ ts \<and> heap (svc_pool s') = h"
proof (induction ts arbitrary: s)
  case (Cons t ts)
  then obtain h1 where h1: "run_task fadd t (heap (svc_pool s)) = Inr h1" "run_tasks fadd ts h1 = Inr h"
    by (auto simp: bindR_eq_Inr_iff)
  with Cons.prems worker_step_ok [of s t ts fadd h1] obtain s1 where s1:
    "worker_step fadd s = Some (Inr s1)" "service_inv s1" "pending s1 = ts"
    "finished s1 = finished s @ [t]" "heap (svc_pool s1) = h1"
    by auto
  have "length (finished s1) = Suc (length (finished s))"
    by (simp add: s1(4) del: length_spsc_items)
  with s1 Cons.prems h1 Cons.IH [of s1] show ?case by auto
qed auto

lemma sync_n_ok:
  "service_inv s \<Longrightarrow> length (finished s) = n \<Longrightarrow>
   \<exists>q. sync_n n s = Some (s\<lparr>out_queue := q\<rparr>) \<and> spsc_inv q \<and> spsc_items q = []"
proof (induction n arbitrary: s)
  case 0
  then show ?case
    by (intro exI [of _ "out_queue s"]) (simp add: service_inv_def spsc_items_Nil_iff)
next
  case (Suc n)
  obtain t ts where t: "finished s = t # ts" using Suc.prems(2) by (cases "finished s") simp_all
  obtain q where q: "blocking_pop (out_queue s) = Some (t, q)" "spsc_items q = ts"
    "service_inv (s\<lparr>out_queue := q\<rparr>)"
    using blocking_pop_head [of "out_queue s" 1024 t ts] Suc.prems(1) t by (auto simp: service_inv_def)
  have "length ts = n" using Suc.prems(2) by (simp add: t del: length_spsc_items)
  then show ?case using Suc.IH [of "s\<lparr>out_queue := q\<rparr>"] q by (simp add: sync_compute_task_def)
qed

text \<open>
  C17. The task service from its construction: a batch of up to 1023 tasks is submitted without
  blocking, the background thread's passes execute every task exactly once and in submission
  order (the memory is that of the sequential run), and as many \<open>sync_compute_task\<close> calls
  return, after which both queues are empty and a further sync would block.
\<close>

theorem task_service_runs_batch:
  assumes "length ts \<le> 1023" and "run_tasks fadd ts h = Inr h'"
  shows "\<exists>s0 s1 s2 s3. service_new h = Inr s0 \<and> submit_all ts (start_service_async s0) = Some s1
    \<and> worker_n fadd (length ts) s1 = Some (Inr s2) \<and> heap (svc_pool s2) = h' \<and> finished s2 = ts
    \<and> worker_step fadd s2 = None
    \<and> sync_n (length ts) s2 = Some s3 \<and> heap (svc_pool s3) = h' \<and> sync_compute_task 0 s3 = None"
proof -
  obtain s0 where s0: "service_new h = Inr s0" "service_inv s0" "pending s0 = []" "finished s0 = []"
    "heap (svc_pool s0) = h" using service_new_ok by blast
  let ?s = "start_service_async s0"
  have s: "service_inv ?s" "pending ?s = []" "finished ?s = []" "heap (svc_pool ?s) = h"
    using s0 by (simp_all add: start_service_async_def service_inv_def)
  obtain q where q: "submit_all ts ?s = Some (?s\<lparr>in_queue := q\<rparr>)" "service_inv (?s\<lparr>in_queue := q\<rparr>)"
    "spsc_items q = ts"
    using submit_all_ok [OF s(1), of ts] assms(1) s(2) by (auto simp: spsc_items_Nil_iff)
  obtain s2 where s2: "worker_n fadd (length ts) (?s\<lparr>in_queue := q\<rparr>) = Some (Inr s2)"
    "service_inv s2" "pending s2 = []" "finished s2 = ts" "heap (svc_pool s2) = h'"
    using worker_n_ok [OF q(2), of ts fadd h'] q(3) assms s(3,4) by (auto simp: spsc_items_Nil_iff)
  obtain r where r: "sync_n (length ts) s2 = Some (s2\<lparr>out_queue := r\<rparr>)" "spsc_inv r" "spsc_items r = []"
    using sync_n_ok [OF s2(2)] s2(4) by blast
  have "worker_step fadd s2 = None"
    using s2(2,3) ring.deq_None_iff [of "in_queue s2"] by (simp add: worker_step_def service_inv_def)
  moreover have "sync_compute_task 0 (s2\<lparr>out_queue := r\<rparr>) = None"
    using r(2,3) ring.deq_None_iff [of r] by (simp add: sync_compute_task_def)
  ultimately show ?thesis using s0(1) q(1) s2 r(1) by fastforce
qed

definition two_tasks :: "task_info list" where
  "two_tasks = [\<lparr>agg_width = 2, length_in_byte = 8, task_data = [1, 2] @ replicate 18 0\<rparr>,
                \<lparr>agg_width = 2, length_in_byte = 12, task_data = [3, 1] @ replicate 18 0\<rparr>]"

lemma two_tasks_run:
  "run_tasks (+) two_tasks three_blocks
    = Inr (three_blocks(1 \<mapsto> [11, 22, 30], 3 \<mapsto> [111, 222, 330]))"
  by (simp add: two_tasks_def run_task_def task_elements_def reduce_sum_def load_sources_def
      reduce_elem_def read_elem_def write_elem_def three_blocks_def upt_rec)

theorem task_service_runs_batch_witness:
  "\<exists>s0 s1 s2 s3. service_new three_blocks = Inr s0
    \<and> submit_all two_tasks (start_service_async s0) = Some s1
    \<and> worker_n (+) (length two_tasks) s1 = Some (Inr s2)
    \<and> heap (svc_pool s2) = three_blocks(1 \<mapsto> [11, 22, 30], 3 \<mapsto> [111, 222, 330])
    \<and> finished s2 = two_tasks \<and> worker_step (+) s2 = None
    \<and> sync_n (length two_tasks) s2 = Some s3
    \<and> heap (svc_pool s3) = three_blocks(1 \<mapsto> [11, 22, 30], 3 \<mapsto> [111, 222, 330])
    \<and> sync_compute_task 0 s3 = None"
  by (rule task_service_runs_batch [OF _ two_tasks_run]) (simp add: two_tasks_def)

end
