(* ===== verification/SummationBench.thy ===== *)
theory SummationBench
  imports SummationProps
begin

text \<open>
  The drivers of \<open>SummationService\<close> (summation\_service/lib/summation\_service.cpp,
  include/summation\_service.h, example/summation\_service\_benchmark.cpp): \<open>test_case\<close>, which
  measures a reduction, checks its result and keeps averages by the number of tensors and their
  size, and the loops that call it or submit tasks. What a reduction took is a parameter, as is the
  arithmetic on averages; \<open>flush_mem\<close> and \<open>flush_cache\<close> change no data that is read again.
\<close>

section \<open>The test case\<close>

record 'f stats =
  bs_iter :: u64
  bs_sizes :: "int \<rightharpoonup> nat"
  bs_global :: nat
  bs_current :: nat
  bs_history :: "'f list list"

text \<open>The arithmetic: 0, the conversion of an \<open>int\<close>, \<open>(old * round + time_cost) / (round + 1)\<close>.\<close>

record 'f float_ops =
  fo_add :: "'f \<Rightarrow> 'f \<Rightarrow> 'f"
  fo_eq :: "'f \<Rightarrow> 'f \<Rightarrow> bool"
  fo_zero :: 'f
  fo_of_int :: "int \<Rightarrow> 'f"
  fo_average :: "'f \<Rightarrow> int \<Rightarrow> u64 \<Rightarrow> 'f"

definition stats_new :: "'f \<Rightarrow> 'f stats" where
  "stats_new z = \<lparr>bs_iter = 0, bs_sizes = (\<lambda>n. None), bs_global = 0, bs_current = 0, bs_history = replicate 1000 (replicate 100 z)\<rparr>"

definition index_of_size :: "int \<Rightarrow> 'f stats \<Rightarrow> 'f stats" where
  "index_of_size max_data st = (case bs_sizes st max_data of
     None \<Rightarrow> st\<lparr>bs_sizes := (bs_sizes st)(max_data \<mapsto> bs_global st), bs_current := bs_global st, bs_global := Suc (bs_global st)\<rparr>
   | Some i \<Rightarrow> st\<lparr>bs_current := i\<rparr>)"

definition record_time :: "'f float_ops \<Rightarrow> int \<Rightarrow> int \<Rightarrow> u64 \<Rightarrow> 'f stats \<Rightarrow> 'f stats result" where
  "record_time F round num_data time_cost st =
     bindR (at (bs_history st) (nat num_data)) (\<lambda>row. bindR (at row (bs_current st)) (\<lambda>old.
     bindR (put row (bs_current st) (fo_average F old round time_cost)) (\<lambda>row'.
     bindR (put (bs_history st) (nat num_data) row') (\<lambda>hist. Inr (st\<lparr>bs_history := hist\<rparr>)))))"

definition test_case ::
  "'f float_ops \<Rightarrow> u64 \<Rightarrow> addr list \<Rightarrow> int \<Rightarrow> int \<Rightarrow> 'f heap \<times> 'f stats \<Rightarrow> ('f heap \<times> 'f stats) result" where
  "test_case F time_cost tensor_group num_data max_data = (\<lambda>(h, st0).
     let round = to_int32 (uint (bs_iter st0) div 21);
         st1 = (if bs_iter st0 = 0 then st0\<lparr>bs_history := replicate 1000 (replicate 100 (fo_zero F))\<rparr> else st0);
         st = index_of_size max_data st1 in
     if num_data < 2 \<or> 20 < num_data then Inl (Exit 0)
     else bindR (reduce_sum (fo_add F) tensor_group num_data (unat (word_of_int max_data :: u64)) FLOAT32 h) (\<lambda>h'.
       bindR (record_time F round num_data time_cost st) (\<lambda>st2.
       bindR (at tensor_group 0) (\<lambda>res. case h' res of None \<Rightarrow> Inl OutOfBounds | Some data \<Rightarrow>
       bindR (checksum (fo_eq F) data 0 (fo_of_int F num_data) (nat max_data)) (\<lambda>_.
         Inr (h', st2\<lparr>bs_iter := bs_iter st2 + 1\<rparr>))))))"

section \<open>The drivers\<close>

text \<open>The benchmark: \<open>MAX_TENSOR_NUM\<close> tensors, filled with ones before every test case; the
  number of blocks goes from 2 to their number and starts again.\<close>

definition MAX_TENSOR_NUM :: nat where "MAX_TENSOR_NUM = 16"
definition MAX_DATA :: int where "MAX_DATA = 600 * 1000 * 1000"
definition MAX_NUM_ELEMENT :: int where "MAX_NUM_ELEMENT = 1000 * 1000 * 100"
definition MAX_NUM_BLOCK :: nat where "MAX_NUM_BLOCK = 20"

definition fill_ones :: "'f float_ops \<Rightarrow> nat \<Rightarrow> addr list \<Rightarrow> 'f heap \<Rightarrow> 'f heap" where
  "fill_ones F n tensors h = (\<lambda>a. if a \<in> set tensors then Some (replicate n (fo_of_int F 1)) else h a)"

fun benchmark_loop ::
  "'f float_ops \<Rightarrow> nat \<Rightarrow> addr list \<Rightarrow> u64 list \<Rightarrow> int \<Rightarrow> int \<Rightarrow> 'f heap \<times> 'f stats \<Rightarrow> ('f heap \<times> 'f stats) result" where
  "benchmark_loop F n tensors [] current_block current_data s = Inr s"
| "benchmark_loop F n tensors (t # ts) current_block current_data s =
     (let data = (if current_data > int n then 1000 else current_data);
          block = (if current_block > int MAX_TENSOR_NUM then 2 else current_block) in
      bindR (test_case F t tensors block data (fill_ones F n tensors (fst s), snd s))
        (benchmark_loop F n tensors ts (block + 1) data))"

definition benchmark_main ::
  "'f float_ops \<Rightarrow> addr list \<Rightarrow> u64 list \<Rightarrow> 'f heap \<Rightarrow> ('f heap \<times> 'f stats) result" where
  "benchmark_main F tensors costs h =
     benchmark_loop F (nat MAX_DATA) tensors costs 2 64000000 (h, stats_new (fo_zero F))"

text \<open>One pass of \<open>test_examples\<close>: the tasks it submits, each waited for before the next. The
  background thread may be stuck, or the process end, while it runs the task.\<close>

fun data_lengths :: "nat \<Rightarrow> int \<Rightarrow> int list" where
  "data_lengths 0 n = []"
| "data_lengths (Suc k) n = (if n \<le> MAX_NUM_ELEMENT then n # data_lengths k (n * 10) else [])"

definition example_tasks :: "(int \<times> int) list" where
  "example_tasks = concat (map (\<lambda>block_num. map (\<lambda>n. (block_num, n * 4)) (data_lengths 9 1000)) [2..15])"

fun run_examples ::
  "('f \<Rightarrow> 'f \<Rightarrow> 'f) \<Rightarrow> addr list \<Rightarrow> (int \<times> int) list \<Rightarrow> 'f service \<Rightarrow> 'f service result option" where
  "run_examples fadd tensors [] s = Some (Inr s)"
| "run_examples fadd tensors ((width, len) # tasks) s =
     (case submited_compute_task width len tensors s of None \<Rightarrow> None | Some (_, s1) \<Rightarrow>
     (case worker_step fadd s1 of None \<Rightarrow> None | Some (Inl e) \<Rightarrow> Some (Inl e) | Some (Inr s2) \<Rightarrow>
     (case sync_compute_task 0 s2 of None \<Rightarrow> None | Some s3 \<Rightarrow> run_examples fadd tensors tasks s3)))"

section \<open>A test case passes\<close>

text \<open>\<open>n\<close> ones, added from left to right.\<close>

fun ones :: "'f float_ops \<Rightarrow> nat \<Rightarrow> 'f" where
  "ones F 0 = fo_of_int F 1"
| "ones F (Suc n) = fo_add F (ones F n) (fo_of_int F 1)"

lemma foldl_ones: "foldl (fo_add F) (fo_of_int F 1) (replicate n (fo_of_int F 1)) = ones F n"
proof (induction n)
  case (Suc n)
  then show ?case by (simp flip: replicate_append_same)
qed simp

lemma checksum_all:
  "i + n \<le> length data \<Longrightarrow> \<forall>j. i \<le> j \<and> j < i + n \<longrightarrow> feq (data ! j) v \<Longrightarrow> checksum feq data i v n = Inr ()"
  by (induction n arbitrary: i) auto

lemma summed_ones:
  assumes "\<forall>a \<in> set srcs. h a = Some (replicate m (fo_of_int F 1))" and "srcs \<noteq> []" and "n \<le> m" and "j < n"
  shows "summed (fo_add F) h srcs {..<n} ! j = ones F (length srcs - 1)"
proof -
  obtain d rest where s: "srcs = d # rest" using assms(2) by (cases srcs) auto
  have "map (\<lambda>a. the (h a) ! j) rest = replicate (length rest) (fo_of_int F 1)"
    using assms s by (intro nth_equalityI) auto
  then show ?thesis using assms s by (simp add: summed_def elem_sum_def foldl_ones)
qed

lemma length_summed: "length (summed f h srcs I) = length (the (h (hd srcs)))"
  by (simp add: summed_def)

lemma record_time_ok:
  assumes "n < length (bs_history st)" and "bs_current st < length (bs_history st ! n)"
  shows "\<exists>hs. record_time F r (int n) t st = Inr (st\<lparr>bs_history := hs\<rparr>)"
  using assms by (auto simp: record_time_def)

text \<open>
  A test case of the benchmark on tensors of ones passes: with at least 20 tensors, 2 to 20 of
  which are added, with sizes that fit and fewer than 100 different sizes so far, it ends with the
  sums in tensor 0, after its check and with the time recorded, when adding so many ones gives their
  number.
\<close>

theorem test_case_passes:
  assumes "20 \<le> length tensors" and "2 \<le> n" and "n \<le> 20" and "\<forall>a \<in> set (take n tensors). h a = Some (replicate m (fo_of_int F 1))"
    and "0 \<le> sz" and "sz < 2 ^ 31" and "nat sz \<le> m" and "fo_eq F (ones F (n - 1)) (fo_of_int F (int n))"
    and "length (bs_history st) = 1000" and "\<forall>row \<in> set (bs_history st). length row = 100"
    and "bs_global st < 100" and "\<forall>i \<in> ran (bs_sizes st). i < 100"
  shows "\<exists>st'. test_case F t tensors (int n) sz (h, st)
      = Inr (h(tensors ! 0 \<mapsto> summed (fo_add F) h (take n tensors) {..<nat sz}), st')
    \<and> bs_iter st' = bs_iter st + 1 \<and> sz \<in> dom (bs_sizes st')"
proof -
  let ?st1 = "if bs_iter st = 0 then st\<lparr>bs_history := replicate 1000 (replicate 100 (fo_zero F))\<rparr> else st"
  let ?st2 = "index_of_size sz ?st1"
  let ?r = "to_int32 (uint (bs_iter st) div 21)"
  let ?data = "summed (fo_add F) h (take n tensors) {..<nat sz}"
  have hist: "length (bs_history ?st2) = 1000" "\<forall>row \<in> set (bs_history ?st2). length row = 100" "bs_current ?st2 < 100"
    "bs_iter ?st2 = bs_iter st" "sz \<in> dom (bs_sizes ?st2)"
    using assms(9-12) by (auto simp: index_of_size_def split: option.splits intro: ranI)
  have row: "length (bs_history ?st2 ! n) = 100" using hist(1,2) assms(3) by simp
  have rec: "\<exists>hs. record_time F ?r (int n) t ?st2 = Inr (?st2\<lparr>bs_history := hs\<rparr>)"
    using hist(1,3) row assms(3) by (intro record_time_ok) simp_all
  have "take n tensors \<noteq> []" using assms(1,2) by auto
  moreover from this have "hd (take n tensors) = tensors ! 0" using assms(2) by (simp add: hd_conv_nth)
  ultimately have hd: "hd (take n tensors) = tensors ! 0" "tensors ! 0 \<in> set (take n tensors)" "take n tensors \<noteq> []" "length (take n tensors) = n"
    using assms(1-3) hd_in_set [of "take n tensors"] by simp_all
  have words: "unat (word_of_int sz :: u64) = nat sz"
    using assms(5,6) by (simp add: unsigned_of_int take_bit_int_eq_self)
  have "readable h (take n tensors) (nat sz)" using assms(4,7) by (auto simp: readable_def)
  then have sum: "reduce_sum (fo_add F) tensors (int n) (nat sz) FLOAT32 h = Inr (h(tensors ! 0 \<mapsto> ?data))"
    by (rule reduce_sum_ok [OF assms(1-3)])
  have "checksum (fo_eq F) ?data 0 (fo_of_int F (int n)) (nat sz) = Inr ()"
  proof (rule checksum_all)
    show "0 + nat sz \<le> length ?data" using assms(4,7) hd by (simp add: length_summed)
    show "\<forall>j. 0 \<le> j \<and> j < 0 + nat sz \<longrightarrow> fo_eq F (?data ! j) (fo_of_int F (int n))"
      using summed_ones [OF assms(4) hd(3) assms(7)] assms(8) hd(4) by simp
  qed
  moreover have "at tensors 0 = Inr (tensors ! 0)" using assms(1) by (intro at_in_range) linarith
  ultimately show ?thesis
    using rec sum words hist(4,5) assms(2,3) by (auto simp: test_case_def Let_def)
qed

text \<open>Floats as integers.\<close>

definition int_ops :: "int float_ops" where
  "int_ops = \<lparr>fo_add = (+), fo_eq = (=), fo_zero = 0, fo_of_int = (\<lambda>n. n), fo_average = (\<lambda>old r t. (old * r + uint t) div (r + 1))\<rparr>"

theorem test_case_passes_witness:
  "\<exists>st'. test_case int_ops 5 [1..<21] (int 3) 2 (\<lambda>a. Some (replicate 4 1), stats_new 0)
      = Inr ((\<lambda>a. Some (replicate 4 1))(1 \<mapsto> [3, 3, 1, 1]), st') \<and> bs_iter st' = 1"
proof -
  let ?h = "(\<lambda>a. Some (replicate 4 1)) :: int heap"
  have take: "take 3 [1..<21] = [1, 2, 3 :: nat]" by (simp add: upt_rec)
  have "ones int_ops 2 = 3" by (simp add: numeral_2_eq_2 int_ops_def)
  moreover have "summed (+) ?h [1, 2, 3] {..<2} = [3, 3, 1, 1]"
    by (simp add: summed_def elem_sum_def upt_rec numeral_eq_Suc)
  moreover have "[1..<21] ! 0 = (1 :: nat)" by simp
  ultimately show ?thesis
    using test_case_passes [of "[1..<21]" 3 ?h 4 int_ops 2 "stats_new 0" 5]
    unfolding take by (simp add: int_ops_def stats_new_def) blast
qed

end
