(* ===== verification/SummationOmp.thy ===== *)
theory SummationOmp
  imports SummationBench
begin

text \<open>
  The program \<open>SummationService\<close> grew out of (summation\_service/back\_up/omp.cpp): its reduction, the
  two versions of its test case and its \<open>main\<close>, which returns before it runs them. Its \<open>Timer\<close> is a
  copy of the one of \<open>Timers\<close>; \<open>flush_mem\<close> changes no data that is read again.
\<close>

section \<open>The code\<close>

text \<open>The length is an \<open>int\<close>, which the comparison with a \<open>size_t\<close> converts.\<close>

definition omp_reduce_sum :: "('f \<Rightarrow> 'f \<Rightarrow> 'f) \<Rightarrow> addr list \<Rightarrow> int \<Rightarrow> int \<Rightarrow> 'f heap \<Rightarrow> 'f heap result" where
  "omp_reduce_sum fadd src tensor_num len h =
     bindR (load_sources src) (\<lambda>srcs.
       if 2 \<le> tensor_num \<and> tensor_num \<le> 20
       then reduce_loop fadd (take (nat tensor_num) srcs) [0..<unat (word_of_int len :: u64)] h
       else Inr h)"

definition omp_test_case ::
  "'f float_ops \<Rightarrow> u64 \<Rightarrow> addr list \<Rightarrow> int \<Rightarrow> int \<Rightarrow> 'f heap \<times> 'f stats \<Rightarrow> ('f heap \<times> 'f stats) result" where
  "omp_test_case F time_cost tensor_group num_data max_data = (\<lambda>(h, st0).
     let round = to_int32 (uint (bs_iter st0) div 21);
         st1 = (if bs_iter st0 = 0 then st0\<lparr>bs_history := replicate 1000 (replicate 100 (fo_zero F))\<rparr> else st0);
         st = index_of_size max_data st1 in
     if num_data < 2 \<or> 20 < num_data then Inl (Exit 0)
     else bindR (omp_reduce_sum (fo_add F) tensor_group num_data max_data h) (\<lambda>h'.
       bindR (record_time F round num_data time_cost st) (\<lambda>st2.
       bindR (at tensor_group 0) (\<lambda>res. case h' res of None \<Rightarrow> Inl OutOfBounds | Some data \<Rightarrow>
       bindR (checksum (fo_eq F) data 0 (fo_of_int F num_data) (nat max_data)) (\<lambda>_.
         Inr (h', st2\<lparr>bs_iter := bs_iter st2 + 1\<rparr>))))))"

text \<open>The older version keeps one average for each number of tensors and counts a pass over all
  numbers of tensors as one iteration; \<open>average\<close> is \<open>(old * iter + time_cost) / (iter + 1)\<close>.\<close>

record 'f old_stats =
  os_iter :: u64
  os_history :: "'f list"

definition omp_test_case_old ::
  "'f float_ops \<Rightarrow> ('f \<Rightarrow> u64 \<Rightarrow> u64 \<Rightarrow> 'f) \<Rightarrow> u64 \<Rightarrow> addr list \<Rightarrow> int \<Rightarrow> int \<Rightarrow> 'f heap \<times> 'f old_stats \<Rightarrow> ('f heap \<times> 'f old_stats) result" where
  "omp_test_case_old F average time_cost tensor_group num_data max_data = (\<lambda>(h, st0).
     let st = (if os_iter st0 = 0 \<and> num_data = 2
               then st0\<lparr>os_history := replicate 1000 (fo_zero F) @ drop 1000 (os_history st0)\<rparr> else st0) in
     if num_data < 2 \<or> 20 < num_data then Inl (Exit 0)
     else bindR (omp_reduce_sum (fo_add F) tensor_group num_data max_data h) (\<lambda>h'.
       bindR (at (os_history st) (nat num_data)) (\<lambda>old.
       bindR (put (os_history st) (nat num_data) (average old (os_iter st) time_cost)) (\<lambda>hist.
       bindR (at tensor_group 0) (\<lambda>res. case h' res of None \<Rightarrow> Inl OutOfBounds | Some data \<Rightarrow>
       bindR (checksum (fo_eq F) data 0 (fo_of_int F num_data) (nat max_data)) (\<lambda>_.
         Inr (h', \<lparr>os_iter = (if num_data = 20 then os_iter st + 1 else os_iter st), os_history = hist\<rparr>)))))))"

text \<open>\<open>main\<close> returns what \<open>myfunction\<close> returns.\<close>

definition omp_main :: int where "omp_main = 1"

section \<open>Nothing was lost\<close>

lemma omp_reduce_sum_same:
  "omp_reduce_sum fadd src n len h = reduce_sum fadd src n (unat (word_of_int len :: u64)) FLOAT32 h"
  by (simp add: omp_reduce_sum_def reduce_sum_def)

text \<open>The test case of the service is the newer one of the program, on every input.\<close>

lemma omp_test_case_same: "omp_test_case F t tensors n len s = test_case F t tensors n len s"
  by (cases s) (simp add: omp_test_case_def test_case_def omp_reduce_sum_same)

lemma old_iteration:
  assumes "omp_test_case_old F average t tensors n len (h, st) = Inr (h', st')"
  shows "os_iter st' = (if n = 20 then os_iter st + 1 else os_iter st)"
  using assms
  by (auto simp: omp_test_case_old_def Let_def bindR_eq_Inr_iff split: if_splits option.splits)

end
