(* ===== verification/CString.thy ===== *)
theory CString
  imports Prelude "HOL-Library.List_Lexorder" "HOL-Library.Char_ord"
begin

text \<open>
  The pieces of the C and C++ standard library that RCL's configuration and addressing use:
  \<open>std::string\<close> ordered by \<open><\<close> (lexicographic on unsigned bytes, the order that
  \<open>List_Lexorder\<close> and \<open>Char_ord\<close> give to \<open>string\<close>), \<open>std::to_string\<close>,
  \<open>atoi\<close> and \<open>strtoul\<close> with base 0.
\<close>

definition digit_char :: "nat \<Rightarrow> char" where
  "digit_char d = char_of (48 + d)"

function dec :: "nat \<Rightarrow> string" where
  "dec n = (if n < 10 then [digit_char n] else dec (n div 10) @ [digit_char (n mod 10)])"
  by pat_completeness auto
termination by (relation "measure id") auto

declare dec.simps [simp del]

definition to_string :: "int \<Rightarrow> string" where
  "to_string i = (if i < 0 then CHR ''-'' # dec (nat (- i)) else dec (nat i))"

definition is_space :: "char \<Rightarrow> bool" where
  "is_space c \<longleftrightarrow> of_char c = (32::nat) \<or> (9 \<le> (of_char c :: nat) \<and> of_char c \<le> (13::nat))"

definition digit_val :: "char \<Rightarrow> nat option" where
  "digit_val c = (let n = of_char c :: nat in
     if 48 \<le> n \<and> n \<le> 57 then Some (n - 48)
     else if 65 \<le> n \<and> n \<le> 90 then Some (n - 55)
     else if 97 \<le> n \<and> n \<le> 122 then Some (n - 87)
     else None)"

text \<open>The digits of a number in a base, up to the first character that is not one.\<close>

fun scan :: "nat \<Rightarrow> nat \<Rightarrow> string \<Rightarrow> nat" where
  "scan base acc [] = acc"
| "scan base acc (c # cs) =
     (case digit_val c of
        None \<Rightarrow> acc
      | Some d \<Rightarrow> if d < base then scan base (acc * base + d) cs else acc)"

definition split_sign :: "string \<Rightarrow> bool \<times> string" where
  "split_sign s =
     (case dropWhile is_space s of
        [] \<Rightarrow> (False, [])
      | c # cs \<Rightarrow> if c = CHR ''-'' then (True, cs) else if c = CHR ''+'' then (False, cs) else (False, c # cs))"

text \<open>\<open>atoi\<close> is \<open>strtol\<close> in base 10, which saturates, converted to \<open>int\<close>.\<close>

definition atoi :: "string \<Rightarrow> int" where
  "atoi s = (let (neg, ds) = split_sign s; v = int (scan 10 0 ds) in
     to_int32 (if neg then max (- (2 ^ 63)) (- v) else min (2 ^ 63 - 1) v))"

text \<open>\<open>strtoul(s, NULL, 0)\<close>: hexadecimal after \<open>0x\<close>, octal after \<open>0\<close>, else
  decimal; saturates, and a minus sign negates in 64 bits.\<close>

definition strtoul0 :: "string \<Rightarrow> nat" where
  "strtoul0 s =
     (let (neg, ds) = split_sign s;
          v = (case ds of
                 c # x # h # rest \<Rightarrow>
                   if c = CHR ''0'' \<and> (x = CHR ''x'' \<or> x = CHR ''X'')
                      \<and> (case digit_val h of None \<Rightarrow> False | Some d \<Rightarrow> d < 16)
                   then scan 16 0 (h # rest)
                   else if c = CHR ''0'' then scan 8 0 ds else scan 10 0 ds
               | c # rest \<Rightarrow> if c = CHR ''0'' then scan 8 0 ds else scan 10 0 ds
               | [] \<Rightarrow> 0)
      in if 2 ^ 64 \<le> v then 2 ^ 64 - 1 else if neg \<and> v \<noteq> 0 then 2 ^ 64 - v else v)"

section \<open>Printing and parsing\<close>

lemma of_char_digit: "d < 10 \<Longrightarrow> of_char (digit_char d) = 48 + d"
  by (simp add: digit_char_def)

lemma digit_val_digit [simp]: "d < 10 \<Longrightarrow> digit_val (digit_char d) = Some d"
  by (simp add: digit_val_def of_char_digit)

lemma scan_dec: "scan 10 acc (dec n @ r) = scan 10 (acc * 10 ^ length (dec n) + n) r"
proof (induction n arbitrary: acc r rule: dec.induct)
  case (1 n)
  show ?case
  proof (cases "n < 10")
    case True
    then show ?thesis by (simp add: dec.simps [of n])
  next
    case False
    have "scan 10 acc (dec n @ r) = scan 10 acc (dec (n div 10) @ digit_char (n mod 10) # r)"
      using False by (subst dec.simps) simp
    also have "\<dots> = scan 10 (acc * 10 ^ length (dec (n div 10)) + n div 10) (digit_char (n mod 10) # r)"
      using 1 [OF False] .
    also have "\<dots> = scan 10 (acc * 10 ^ Suc (length (dec (n div 10))) + n) r"
      by (simp add: algebra_simps)
    finally show ?thesis using False by (subst (2) dec.simps) simp
  qed
qed

lemma scan_10_dec [simp]: "scan 10 0 (dec n) = n"
  using scan_dec [of 0 n "[]"] by simp

text \<open>The first character of a printed number is a digit, and not 0 unless the number is 0.\<close>

lemma dec_hd: "\<exists>d r. dec n = digit_char d # r \<and> d < 10 \<and> (d = 0 \<longrightarrow> n = 0 \<and> r = [])"
proof (induction n rule: dec.induct)
  case (1 n)
  show ?case
  proof (cases "n < 10")
    case True
    then show ?thesis by (intro exI [of _ n] exI [of _ "[]"]) (simp add: dec.simps [of n])
  next
    case False
    then obtain d r where d: "dec (n div 10) = digit_char d # r" "d < 10"
      "d = 0 \<longrightarrow> n div 10 = 0 \<and> r = []" using 1 by blast
    with False have "d \<noteq> 0" by auto
    with False d show ?thesis
      by (intro exI [of _ d] exI [of _ "r @ [digit_char (n mod 10)]"]) (simp add: dec.simps [of n])
  qed
qed

lemma digit_char_neq: "d < 10 \<Longrightarrow> \<not> is_space (digit_char d) \<and> digit_char d \<noteq> CHR ''-''
    \<and> digit_char d \<noteq> CHR ''+'' \<and> digit_char d \<noteq> CHR ''.''"
proof -
  assume d: "d < 10"
  have "of_char (digit_char d) \<noteq> (of_char c :: nat)" if "(of_char c :: nat) < 48" for c
    using that of_char_digit [OF d] by linarith
  then have "digit_char d \<noteq> c" if "(of_char c :: nat) < 48" for c
    using that by auto
  from this [of "CHR ''-''"] this [of "CHR ''+''"] this [of "CHR ''.''"]
  show ?thesis using of_char_digit [OF d] by (simp add: is_space_def)
qed

lemma digit_char_0_iff: "d < 10 \<Longrightarrow> digit_char d = CHR ''0'' \<longleftrightarrow> d = 0"
proof -
  assume "d < 10"
  then have "digit_char d = CHR ''0'' \<Longrightarrow> 48 + d = 48"
    using of_char_digit [of d] by simp
  moreover have "of_char (digit_char 0) = (of_char CHR ''0'' :: nat)"
    using of_char_digit [of 0] by simp
  then have "digit_char 0 = CHR ''0''" by (simp only: of_char_eq_iff)
  ultimately show ?thesis by auto
qed

lemma split_sign_dec: "split_sign (dec n @ r) = (False, dec n @ r)"
  using dec_hd [of n] digit_char_neq by (auto simp: split_sign_def)

lemma split_sign_to_string: "split_sign (to_string i) = (i < 0, dec (nat \<bar>i\<bar>))"
proof (cases "i < 0")
  case True
  then show ?thesis by (simp add: to_string_def split_sign_def is_space_def)
next
  case False
  then show ?thesis using split_sign_dec [of "nat i" "[]"] by (simp add: to_string_def)
qed

lemma atoi_to_string: "- (2 ^ 31) \<le> i \<Longrightarrow> i < 2 ^ 31 \<Longrightarrow> atoi (to_string i) = i"
  by (auto simp: atoi_def Let_def split_sign_to_string to_int32_small)

lemma strtoul0_dec: "n < 2 ^ 64 \<Longrightarrow> strtoul0 (dec n) = n"
proof -
  assume n: "n < 2 ^ 64"
  obtain d r where d: "dec n = digit_char d # r" "d < 10" "d = 0 \<longrightarrow> n = 0 \<and> r = []"
    using dec_hd by blast
  have s: "split_sign (dec n) = (False, dec n)" using split_sign_dec [of n "[]"] by simp
  show ?thesis
  proof (cases "d = 0")
    case True
    with d show ?thesis using s digit_char_0_iff [of 0] by (auto simp: strtoul0_def Let_def digit_val_def)
  next
    case False
    then have "digit_char d \<noteq> CHR ''0''" using d(2) digit_char_0_iff by blast
    then have "(case dec n of
                 c # x # h # rest \<Rightarrow>
                   if c = CHR ''0'' \<and> (x = CHR ''x'' \<or> x = CHR ''X'')
                      \<and> (case digit_val h of None \<Rightarrow> False | Some d \<Rightarrow> d < 16)
                   then scan 16 0 (h # rest)
                   else if c = CHR ''0'' then scan 8 0 (dec n) else scan 10 0 (dec n)
               | c # rest \<Rightarrow> if c = CHR ''0'' then scan 8 0 (dec n) else scan 10 0 (dec n)
               | [] \<Rightarrow> 0) = scan 10 0 (dec n)"
      using d(1) by (simp split: list.splits)
    then show ?thesis using n s by (simp add: strtoul0_def)
  qed
qed

end
