(* ===== verification/Sockets.thy ===== *)
theory Sockets
  imports CString
begin

text \<open>
  The TCP side channel over which peers exchange their RDMA parameters:
  \<open>NPRDMAPreConnector\<close> (networking\_service/src/pre\_connector.cpp) and \<open>PreConnector\<close>
  (new\_rdma/include/pre\_connector.h). The kernel is a parameter: \<open>sys_read\<close> answers a
  return code and the bytes, \<open>sys_write\<close> a return code, \<open>sys_socket\<close> a descriptor.
  A receive buffer is a list of bytes; storing past its end is \<open>OutOfBounds\<close>.
\<close>

record 's kernel =
  sys_socket :: "'s \<Rightarrow> int \<times> 's"
  sys_read :: "'s \<Rightarrow> nat \<Rightarrow> int \<times> u8 list \<times> 's"
  sys_write :: "'s \<Rightarrow> u8 list \<Rightarrow> int \<times> 's"

definition store :: "'a list \<Rightarrow> nat \<Rightarrow> 'a list \<Rightarrow> 'a list result" where
  "store buf off bs =
     (if off + length bs \<le> length buf then Inr (take off buf @ bs @ drop (off + length bs) buf)
      else Inl OutOfBounds)"

section \<open>\<open>NPRDMAPreConnector\<close>\<close>

record 's connector =
  root_sock :: int
  peer_ip :: string
  peer_port :: int
  net :: 's

definition pre_connector_new :: "int \<Rightarrow> string \<Rightarrow> int \<Rightarrow> 's \<Rightarrow> 's connector" where
  "pre_connector_new sock ip port s = \<lparr>root_sock = sock, peer_ip = ip, peer_port = port, net = s\<rparr>"

definition get_or_build_socket :: "'s kernel \<Rightarrow> 's connector \<Rightarrow> (int \<times> 's connector) result" where
  "get_or_build_socket k c =
     (if root_sock c = 0
      then let (fd, s) = sys_socket k (net c) in
        if fd \<le> 0 then Inl LogFatal else Inr (fd, c\<lparr>root_sock := fd, net := s\<rparr>)
      else Inr (root_sock c, c))"

definition send_data :: "'s kernel \<Rightarrow> u8 list \<Rightarrow> 's connector \<Rightarrow> (int \<times> 's connector) result" where
  "send_data k data c =
     bindR (get_or_build_socket k c) (\<lambda>(sock, c1).
       let (write_ret, s) = sys_write k (net c1) data in
       if write_ret < int (length data) then Inl LogFatal else Inr (write_ret, c1\<lparr>net := s\<rparr>))"

text \<open>\<open>recv_data\<close> asks for the whole message at every read and always stores at the start of
  the buffer; it returns 0, or the return code of the read that failed.\<close>

fun recv_loop :: "nat \<Rightarrow> 's kernel \<Rightarrow> int \<Rightarrow> 's \<Rightarrow> u8 list \<Rightarrow> int \<Rightarrow> (int \<times> u8 list \<times> 's) result" where
  "recv_loop 0 k msg_size s buf got = Inl OutOfFuel"
| "recv_loop (Suc fuel) k msg_size s buf got =
     (if got < msg_size
      then let (n, bs, s') = sys_read k s (nat msg_size) in
        if n > 0 then bindR (store buf 0 bs) (\<lambda>buf'. recv_loop fuel k msg_size s' buf' (got + n))
        else if n \<noteq> 0 then Inr (n, buf, s') else recv_loop fuel k msg_size s' buf got
      else Inr (0, buf, s))"

definition recv_data ::
  "nat \<Rightarrow> 's kernel \<Rightarrow> int \<Rightarrow> u8 list \<Rightarrow> 's connector \<Rightarrow> (int \<times> u8 list \<times> 's connector) result" where
  "recv_data fuel k msg_size buf c =
     bindR (get_or_build_socket k c) (\<lambda>(sock, c1).
     bindR (recv_loop fuel k msg_size (net c1) buf 0) (\<lambda>(rc, buf', s). Inr (rc, buf', c1\<lparr>net := s\<rparr>)))"

text \<open>\<open>recv_data_force\<close>: a read of 0 bytes is retried (after some, with a warning each).\<close>

fun recv_force_loop :: "nat \<Rightarrow> 's kernel \<Rightarrow> int \<Rightarrow> 's \<Rightarrow> u8 list \<Rightarrow> int \<Rightarrow> (int \<times> u8 list \<times> 's) result" where
  "recv_force_loop 0 k msg_size s buf got = Inl OutOfFuel"
| "recv_force_loop (Suc fuel) k msg_size s buf got =
     (if got < msg_size
      then let (n, bs, s') = sys_read k s (nat (msg_size - got)) in
        if n > 0 then bindR (store buf (nat got) bs)
          (\<lambda>buf'. recv_force_loop fuel k msg_size s' buf' (got + n))
        else if n < 0 then Inl LogFatal
        else recv_force_loop fuel k msg_size s' buf got
      else Inr (got, buf, s))"

definition recv_data_force ::
  "nat \<Rightarrow> 's kernel \<Rightarrow> int \<Rightarrow> u8 list \<Rightarrow> 's connector \<Rightarrow> (int \<times> u8 list \<times> 's connector) result" where
  "recv_data_force fuel k msg_size buf c =
     bindR (get_or_build_socket k c) (\<lambda>(sock, c1).
     bindR (recv_force_loop fuel k msg_size (net c1) buf 0) (\<lambda>(n, buf', s). Inr (n, buf', c1\<lparr>net := s\<rparr>)))"

definition sock_sync_data ::
  "nat \<Rightarrow> 's kernel \<Rightarrow> u8 list \<Rightarrow> u8 list \<Rightarrow> 's connector \<Rightarrow> (int \<times> u8 list \<times> 's connector) result" where
  "sock_sync_data fuel k local_data remote_data c =
     bindR (send_data k local_data c) (\<lambda>(write_msg, c1).
     bindR (recv_data_force fuel k (int (length local_data)) remote_data c1) (\<lambda>(recv_msg, buf, c2).
     Inr (recv_msg - write_msg, buf, c2)))"

section \<open>\<open>PreConnector\<close>\<close>

text \<open>\<open>sock_sync_data\<close> of new\_rdma advances the pointer but still asks for all of
  \<open>num_data\<close> at every read; a read of 0 bytes is retried.\<close>

fun sync_loop :: "nat \<Rightarrow> 's kernel \<Rightarrow> int \<Rightarrow> 's \<Rightarrow> u8 list \<Rightarrow> int \<Rightarrow> (int \<times> u8 list \<times> 's) result" where
  "sync_loop 0 k num_data s buf got = Inl OutOfFuel"
| "sync_loop (Suc fuel) k num_data s buf got =
     (if got < num_data
      then let (n, bs, s') = sys_read k s (nat num_data) in
        if n > 0 then bindR (store buf (nat got) bs) (\<lambda>buf'. sync_loop fuel k num_data s' buf' (got + n))
        else if n \<noteq> 0 then Inr (n, buf, s') else sync_loop fuel k num_data s' buf got
      else Inr (0, buf, s))"

definition pc_sock_sync_data ::
  "nat \<Rightarrow> 's kernel \<Rightarrow> u8 list \<Rightarrow> u8 list \<Rightarrow> 's \<Rightarrow> (int \<times> u8 list \<times> 's) result" where
  "pc_sock_sync_data fuel k local_data remote_data s =
     (let (rc, s1) = sys_write k s local_data in
      if rc < int (length local_data) then Inl (Exit 0)
      else sync_loop fuel k (int (length local_data)) s1 remote_data 0)"

text \<open>
  \<open>read_exact\<close> and \<open>write_exact\<close>; the last return code decides whether the caller hangs
  (\<open>ECONNRESET\<close>), which is the parameter \<open>reset\<close>; with \<open>count = 0\<close> that code is an
  uninitialised variable, the parameter \<open>n0\<close>. \<open>None\<close> is "never returns".
\<close>

fun read_exact_loop :: "nat \<Rightarrow> 's kernel \<Rightarrow> nat \<Rightarrow> 's \<Rightarrow> u8 list \<Rightarrow> nat \<Rightarrow> int \<Rightarrow> (int \<times> nat \<times> u8 list \<times> 's) result" where
  "read_exact_loop 0 k cnt s buf done n0 = (if cnt = 0 then Inr (n0, done, buf, s) else Inl OutOfFuel)"
| "read_exact_loop (Suc fuel) k cnt s buf done n0 =
     (if cnt = 0 then Inr (n0, done, buf, s)
      else let (n, bs, s') = sys_read k s cnt in
        if n \<le> 0 then Inr (n, done, buf, s')
        else bindR (store buf done bs) (\<lambda>buf'.
          read_exact_loop fuel k (cnt - nat n) s' buf' (done + nat n) n))"

definition read_exact ::
  "nat \<Rightarrow> 's kernel \<Rightarrow> bool \<Rightarrow> int \<Rightarrow> nat \<Rightarrow> 's \<Rightarrow> u8 list \<Rightarrow> (nat \<times> u8 list \<times> 's) option result" where
  "read_exact fuel k reset n0 cnt s buf =
     bindR (read_exact_loop fuel k cnt s buf 0 n0) (\<lambda>(n, done, buf', s').
       Inr (if n < 0 \<and> reset then None else Some (done, buf', s')))"

fun write_exact_loop :: "nat \<Rightarrow> 's kernel \<Rightarrow> u8 list \<Rightarrow> 's \<Rightarrow> nat \<Rightarrow> int \<Rightarrow> (int \<times> nat \<times> 's) result" where
  "write_exact_loop 0 k data s done n0 = (if data = [] then Inr (n0, done, s) else Inl OutOfFuel)"
| "write_exact_loop (Suc fuel) k data s done n0 =
     (if data = [] then Inr (n0, done, s)
      else let (n, s') = sys_write k s data in
        if n \<le> 0 then Inr (n, done, s')
        else write_exact_loop fuel k (drop (nat n) data) s' (done + nat n) n)"

definition write_exact ::
  "nat \<Rightarrow> 's kernel \<Rightarrow> bool \<Rightarrow> int \<Rightarrow> u8 list \<Rightarrow> 's \<Rightarrow> (nat \<times> 's) option result" where
  "write_exact fuel k reset n0 data s =
     bindR (write_exact_loop fuel k data s 0 n0) (\<lambda>(n, done, s').
       Inr (if n < 0 \<and> reset then None else Some (done, s')))"

section \<open>What a stream socket promises\<close>

text \<open>
  While bytes are on their way, a read hands out a nonempty prefix of them, no longer than
  asked for, and keeps the rest: \<open>read(2)\<close> on a connected blocking socket.
\<close>

definition stream_ok :: "'s kernel \<Rightarrow> ('s \<Rightarrow> u8 list) \<Rightarrow> bool" where
  "stream_ok k pending \<longleftrightarrow> (\<forall>s n. 0 < n \<longrightarrow> pending s \<noteq> [] \<longrightarrow>
     (\<exists>bs s'. sys_read k s n = (int (length bs), bs, s') \<and> bs \<noteq> [] \<and> length bs \<le> n
        \<and> pending s = bs @ pending s'))"

lemma stream_readE:
  assumes "stream_ok k pending" and "0 < n" and "pending s \<noteq> []"
  obtains bs s' where "sys_read k s n = (int (length bs), bs, s')" "bs \<noteq> []" "length bs \<le> n"
    "pending s = bs @ pending s'"
  using assms unfolding stream_ok_def by blast

lemma store_ok: "off + length bs \<le> length buf \<Longrightarrow>
    store buf off bs = Inr (take off buf @ bs @ drop (off + length bs) buf)"
  by (simp add: store_def)

text \<open>The part of the buffer already filled, and one more chunk.\<close>

lemma store_step:
  assumes "length done + length bs + length rest \<le> length buf"
  shows "store (done @ drop (length done) buf) (length done) bs
    = Inr ((done @ bs) @ drop (length (done @ bs)) buf)"
  using assms by (simp add: store_def add.commute)

lemma recv_force_loop_ok:
  assumes "stream_ok k pending"
  shows "pending s = msg @ rest \<Longrightarrow> length msg < fuel \<Longrightarrow> length done + length msg \<le> length buf \<Longrightarrow>
    \<exists>s'. recv_force_loop fuel k (int (length done + length msg)) s (done @ drop (length done) buf)
        (int (length done))
      = Inr (int (length done + length msg), (done @ msg) @ drop (length (done @ msg)) buf, s')
      \<and> pending s' = rest"
proof (induction fuel arbitrary: s msg "done")
  case (Suc fuel)
  show ?case
  proof (cases "msg = []")
    case False
    with Suc.prems(1) obtain bs s1 where rd: "sys_read k s (length msg) = (int (length bs), bs, s1)"
      "bs \<noteq> []" "length bs \<le> length msg" "pending s = bs @ pending s1"
      by (auto intro: stream_readE [OF assms, of "length msg" s])
    then obtain msg' where m: "msg = bs @ msg'" "pending s1 = msg' @ rest"
      using append_prefix_split [of bs "pending s1" msg rest] Suc.prems(1) by auto
    have st: "store (done @ drop (length done) buf) (length done) bs
        = Inr ((done @ bs) @ drop (length (done @ bs)) buf)"
      by (rule store_step [where rest = msg']) (use Suc.prems(3) m(1) in simp)
    have "length msg' < fuel" using Suc.prems(2) m(1) rd(2) by (cases bs) auto
    then have IH: "\<exists>s'. recv_force_loop fuel k (int (length (done @ bs) + length msg')) s1
          ((done @ bs) @ drop (length (done @ bs)) buf) (int (length (done @ bs)))
        = Inr (int (length (done @ bs) + length msg'),
            ((done @ bs) @ msg') @ drop (length ((done @ bs) @ msg')) buf, s')
        \<and> pending s' = rest"
      using Suc.prems(3) m by (intro Suc.IH) auto
    have "nat (int (length done + length msg) - int (length done)) = length msg" by simp
    moreover have "0 < int (length bs) + int (length msg')" using rd(2) by (cases bs) simp_all
    ultimately show ?thesis using rd(1,2) st IH m(1) by (simp add: add.assoc)
  qed (use Suc.prems in simp)
qed simp

text \<open>
  C29. The parameter exchange survives every way TCP can cut the stream: when the peer's bytes
  are on their way, \<open>sock_sync_data\<close> returns 0 with exactly the peer's message in the
  receive buffer and leaves what follows it in the stream, whatever each single read returns.
\<close>

theorem sock_sync_data_correct:
  assumes "stream_ok k pending" and "root_sock c \<noteq> 0" and "length msg = length local_data"
    and "sys_write k (net c) local_data = (int (length local_data), s1)"
    and "pending s1 = msg @ rest" and "length msg < fuel" and "length msg \<le> length buf"
  shows "\<exists>s2. sock_sync_data fuel k local_data buf c
      = Inr (0, msg @ drop (length msg) buf, c\<lparr>net := s2\<rparr>) \<and> pending s2 = rest"
proof -
  obtain s2 where "recv_force_loop fuel k (int (length msg)) s1 buf 0
      = Inr (int (length msg), msg @ drop (length msg) buf, s2)" "pending s2 = rest"
    using recv_force_loop_ok [OF assms(1,5,6), of "[]" buf] assms(7) by auto
  then show ?thesis
    using assms(2-4)
    by (intro exI [of _ s2])
      (simp add: sock_sync_data_def send_data_def recv_data_force_def get_or_build_socket_def)
qed

text \<open>A kernel whose stream is a list of packets; a read hands out at most one packet.\<close>

definition packet_kernel :: "u8 list list kernel" where
  "packet_kernel = \<lparr>sys_socket = (\<lambda>s. (3, s)),
     sys_read = (\<lambda>s n. case dropWhile (\<lambda>p. p = []) s of
        [] \<Rightarrow> (0, [], [])
      | p # ps \<Rightarrow> (int (length (take n p)), take n p, drop n p # ps)),
     sys_write = (\<lambda>s data. (int (length data), s))\<rparr>"

lemma concat_drop_empty: "concat (dropWhile (\<lambda>p. p = []) s) = concat s"
  by (induction s) auto

lemma packet_kernel_stream: "stream_ok packet_kernel concat"
proof -
  have "\<exists>bs s'. sys_read packet_kernel s n = (int (length bs), bs, s') \<and> bs \<noteq> [] \<and> length bs \<le> n
      \<and> concat s = bs @ concat s'" if n: "0 < n" "concat s \<noteq> []" for s n
  proof (cases "dropWhile (\<lambda>p. p = []) s")
    case Nil
    with n(2) concat_drop_empty [of s] show ?thesis by simp
  next
    case (Cons p ps)
    then have "p \<noteq> []" by (metis (mono_tags) dropWhile_eq_Cons_conv)
    moreover have "concat s = p @ concat ps" using concat_drop_empty [of s] Cons by simp
    ultimately show ?thesis using n(1) Cons
      by (intro exI [of _ "take n p"] exI [of _ "drop n p # ps"]) (simp add: packet_kernel_def)
  qed
  then show ?thesis by (simp add: stream_ok_def)
qed

theorem sock_sync_data_correct_witness:
  "\<exists>s2. sock_sync_data 5 packet_kernel [9, 9, 9] [0, 0, 0, 0]
        (pre_connector_new 3 ''peer'' 2020 [[1], [], [2, 3, 4], [5]])
      = Inr (0, [1, 2, 3, 0], (pre_connector_new 3 ''peer'' 2020 [[1], [], [2, 3, 4], [5]])\<lparr>net := s2\<rparr>)
    \<and> concat s2 = [4, 5]"
  using sock_sync_data_correct [OF packet_kernel_stream,
      of "pre_connector_new 3 ''peer'' 2020 [[1], [], [2, 3, 4], [5]]" "[1, 2, 3]" "[9, 9, 9]"
        "[[1], [], [2, 3, 4], [5]]" "[4, 5]" 5 "[0, 0, 0, 0]"]
  by (simp add: packet_kernel_def pre_connector_new_def)

text \<open>
  \<open>recv_data\<close>, which \<open>recv_data_force\<close> replaced, reports success on a message that
  arrives in two parts but stores the second part over the first.
\<close>

theorem recv_data_overwrites:
  assumes "root_sock c \<noteq> 0" and "b1 \<noteq> []" and "b2 \<noteq> []"
    and "sys_read k (net c) (length (b1 @ b2)) = (int (length b1), b1, s1)"
    and "sys_read k s1 (length (b1 @ b2)) = (int (length b2), b2, s2)"
    and "length (b1 @ b2) \<le> length buf" and "3 \<le> fuel"
  shows "recv_data fuel k (int (length (b1 @ b2))) buf c
    = Inr (0, b2 @ drop (length b2) (b1 @ drop (length b1) buf), c\<lparr>net := s2\<rparr>)"
proof -
  obtain f where f: "fuel = Suc (Suc (Suc f))" using assms(7) by (metis Suc_le_D numeral_3_eq_3 Suc_le_mono)
  obtain x xs y ys where "b1 = x # xs" "b2 = y # ys" using assms(2,3) by (cases b1; cases b2) auto
  then show ?thesis
    using assms(1,4-6) by (simp add: recv_data_def get_or_build_socket_def f store_def nat_add_distrib)
qed

theorem recv_data_overwrites_witness:
  "recv_data 3 packet_kernel 3 [0, 0, 0] (pre_connector_new 3 ''peer'' 2020 [[1], [2, 3]])
    = Inr (0, [2, 3, 0], pre_connector_new 3 ''peer'' 2020 [[]])"
  using recv_data_overwrites [of "pre_connector_new 3 ''peer'' 2020 [[1], [2, 3]]" "[1]" "[2, 3]"
      packet_kernel "[[], [2, 3]]" "[[]]" "[0, 0, 0]" 3]
  by (simp add: packet_kernel_def pre_connector_new_def)

text \<open>
  \<open>PreConnector::sock_sync_data\<close> asks for the whole message again after a short read: when
  the peer's next message is already in the stream, the second read writes past the buffer.
\<close>

theorem pc_sock_sync_overruns:
  assumes "b1 \<noteq> []" and "length b1 < n" and "length b2 = n" and "length local_data = n"
    and "length buf = n" and "2 \<le> fuel"
    and "sys_write k s local_data = (int n, s0)"
    and "sys_read k s0 n = (int (length b1), b1, s1)" and "sys_read k s1 n = (int n, b2, s2)"
  shows "pc_sock_sync_data fuel k local_data buf s = Inl OutOfBounds"
proof -
  obtain f where f: "fuel = Suc (Suc f)" using assms(6) by (metis Suc_le_D numeral_2_eq_2 Suc_le_mono)
  have "0 < length b1" using assms(1) by simp
  with assms show ?thesis by (simp add: pc_sock_sync_data_def f store_def)
qed

theorem pc_sock_sync_overruns_witness:
  "pc_sock_sync_data 2 packet_kernel [9, 9] [0, 0] [[1], [2, 3, 4]] = Inl OutOfBounds"
  by (rule pc_sock_sync_overruns [of "[1]" 2 "[2, 3]" _ _ _ _ _ "[[1], [2, 3, 4]]" "[[], [2, 3, 4]]" "[[4]]"])
     (simp_all add: packet_kernel_def)

section \<open>\<open>write_exact\<close> and \<open>read_exact\<close>\<close>

text \<open>A write takes a nonempty prefix of what it is given into the stream.\<close>

definition sink_ok :: "'s kernel \<Rightarrow> ('s \<Rightarrow> u8 list) \<Rightarrow> bool" where
  "sink_ok k sent \<longleftrightarrow> (\<forall>s data. data \<noteq> [] \<longrightarrow>
     (\<exists>n s'. sys_write k s data = (int n, s') \<and> 0 < n \<and> n \<le> length data
        \<and> sent s' = sent s @ take n data))"

lemma write_exact_loop_ok:
  assumes "sink_ok k sent"
  shows "length data \<le> fuel \<Longrightarrow> \<exists>n s'. write_exact_loop fuel k data s done n0 = Inr (n, done + length data, s')
    \<and> (data \<noteq> [] \<longrightarrow> 0 < n) \<and> (data = [] \<longrightarrow> n = n0) \<and> sent s' = sent s @ data"
proof (induction fuel arbitrary: data s "done" n0)
  case (Suc fuel)
  show ?case
  proof (cases "data = []")
    case False
    with assms obtain n s1 where w: "sys_write k s data = (int n, s1)" "0 < n" "n \<le> length data"
      "sent s1 = sent s @ take n data"
      unfolding sink_ok_def by blast
    have "length (drop n data) \<le> fuel" using w(2,3) Suc.prems by simp
    from Suc.IH [OF this, of s1 "done + n" "int n"] obtain n' s' where
      IH: "write_exact_loop fuel k (drop n data) s1 (done + n) (int n) = Inr (n', done + n + length (drop n data), s')"
      "drop n data \<noteq> [] \<longrightarrow> 0 < n'" "drop n data = [] \<longrightarrow> n' = int n" "sent s' = sent s1 @ drop n data"
      by blast
    then have "0 < n'" using w(2) by (cases "drop n data = []") simp_all
    with False w IH(1,4) show ?thesis by simp
  qed simp
qed auto

lemma read_exact_loop_ok:
  assumes "stream_ok k pending"
  shows "pending s = msg @ rest \<Longrightarrow> length msg \<le> fuel \<Longrightarrow> length done + length msg \<le> length buf \<Longrightarrow>
    \<exists>n s'. read_exact_loop fuel k (length msg) s (done @ drop (length done) buf) (length done) n0
      = Inr (n, length done + length msg, (done @ msg) @ drop (length (done @ msg)) buf, s')
      \<and> (msg \<noteq> [] \<longrightarrow> 0 < n) \<and> (msg = [] \<longrightarrow> n = n0) \<and> pending s' = rest"
proof (induction fuel arbitrary: s msg "done" n0)
  case (Suc fuel)
  show ?case
  proof (cases "msg = []")
    case False
    with Suc.prems(1) obtain bs s1 where rd: "sys_read k s (length msg) = (int (length bs), bs, s1)"
      "bs \<noteq> []" "length bs \<le> length msg" "pending s = bs @ pending s1"
      by (auto intro: stream_readE [OF assms, of "length msg" s])
    then obtain msg' where m: "msg = bs @ msg'" "pending s1 = msg' @ rest"
      using append_prefix_split [of bs "pending s1" msg rest] Suc.prems(1) by auto
    have st: "store (done @ drop (length done) buf) (length done) bs
        = Inr ((done @ bs) @ drop (length (done @ bs)) buf)"
      by (rule store_step [where rest = msg']) (use Suc.prems(3) m(1) in simp)
    have "length msg' \<le> fuel" using Suc.prems(2) m(1) rd(2) by (cases bs) auto
    then obtain n s' where IH: "read_exact_loop fuel k (length msg') s1
          ((done @ bs) @ drop (length (done @ bs)) buf) (length (done @ bs)) (int (length bs))
        = Inr (n, length (done @ bs) + length msg', ((done @ bs) @ msg') @ drop (length ((done @ bs) @ msg')) buf, s')"
      "msg' \<noteq> [] \<longrightarrow> 0 < n" "msg' = [] \<longrightarrow> n = int (length bs)" "pending s' = rest"
      using Suc.IH [OF m(2), of "done @ bs" "int (length bs)"] Suc.prems(3) m(1) by auto
    have pos: "0 < length bs" using rd(2) by simp
    then have "0 < n" using IH(2,3) by (cases "msg' = []") simp_all
    with False rd(1,2) pos st IH(1,4) m(1) show ?thesis by (simp add: add.assoc)
  qed (use Suc.prems in simp)
qed auto

text \<open>
  C28. What \<open>write_exact\<close> sends, \<open>read_exact\<close> receives: a block of at least one byte goes
  through completely and unchanged, both calls report its whole length, and the bytes after it
  stay in the stream, however the two kernels cut their writes and reads.
\<close>

theorem write_read_exact_roundtrip:
  assumes "sink_ok ka sent" and "stream_ok kb pending" and "sent sa = []"
    and "data \<noteq> []" and "length data \<le> fuel" and "length data \<le> length buf"
  shows "\<exists>sa'. write_exact fuel ka reset n0 data sa = Inr (Some (length data, sa'))
    \<and> (\<forall>sb rest. pending sb = sent sa' @ rest \<longrightarrow>
        (\<exists>sb'. read_exact fuel kb reset n0 (length data) sb buf
           = Inr (Some (length data, data @ drop (length data) buf, sb')) \<and> pending sb' = rest))"
proof -
  obtain n sa' where w: "write_exact_loop fuel ka data sa 0 n0 = Inr (n, length data, sa')" "0 < n"
    "sent sa' = data"
    using write_exact_loop_ok [OF assms(1,5), of sa 0 n0] assms(3,4) by auto
  have "\<exists>sb'. read_exact fuel kb reset n0 (length data) sb buf
      = Inr (Some (length data, data @ drop (length data) buf, sb')) \<and> pending sb' = rest"
    if "pending sb = sent sa' @ rest" for sb rest
    using read_exact_loop_ok [OF assms(2), of sb data rest fuel "[]" buf n0] that w(3) assms(4-6)
    by (auto simp: read_exact_def)
  with w show ?thesis by (auto simp: write_exact_def)
qed

text \<open>A sink that takes two bytes per write.\<close>

definition slow_sink :: "u8 list kernel" where
  "slow_sink = \<lparr>sys_socket = (\<lambda>s. (3, s)), sys_read = (\<lambda>s n. (0, [], s)),
     sys_write = (\<lambda>s data. (int (length (take 2 data)), s @ take 2 data))\<rparr>"

theorem write_read_exact_roundtrip_witness:
  "\<exists>sa'. write_exact 3 slow_sink True (-1) [1, 2, 3] [] = Inr (Some (3, sa'))
    \<and> (\<forall>sb rest. concat sb = sa' @ rest \<longrightarrow>
        (\<exists>sb'. read_exact 3 packet_kernel True (-1) 3 sb [0, 0, 0]
           = Inr (Some (3, [1, 2, 3], sb')) \<and> concat sb' = rest))"
proof -
  have "sink_ok slow_sink id"
    unfolding sink_ok_def slow_sink_def
    by (auto intro!: exI [of _ "min _ 2"] simp: min_def)
  from write_read_exact_roundtrip [OF this packet_kernel_stream, of "[]" "[1, 2, 3]" 3 "[0, 0, 0]" True "-1"]
  show ?thesis by (simp add: numeral_3_eq_3 [symmetric])
qed

end
