(* ===== verification/Config.thy ===== *)
theory Config
  imports CString
begin

text \<open>
  \<open>Config\<close> (networking\_service/include/config.h): the fields with their defaults, the
  command line, and \<open>conflict_check\<close>. \<open>getopt_long\<close> is glibc's and is a parameter;
  \<open>NetTool::get_ip("12.12.12.111", 24)\<close>, which asks the host's interfaces, is the
  parameter \<open>ip\<close>. What is printed is left out.
\<close>

section \<open>Fields and defaults\<close>

datatype all_reduce_type = UNKNOWN_ALLREDUCE | SERVER_CLIENT | FULL_MESH_ALLREDUCE
  | RING_ALLREDUCE | TREE_ALLREDUCE | DOUBLE_BINARY_TREE_ALLREDUCE

record config =
  dev_name :: string
  server_name :: string
  serve_as_client :: bool
  tcp_port :: u32
  ib_port :: int
  gid_idx :: int
  traffic_class :: u32
  use_event :: bool
  DATA_MSG_SIZE :: int
  CTRL_MSG_SIZE :: int
  MSG_BLOCK_NUM :: int
  local_ip :: string
  cluster :: "string list"
  num_senders :: int
  single_recv :: bool
  service_type :: int
  all_reduce :: all_reduce_type
  tree_width :: int
  sub_groups :: "string list list"

definition config_default :: config where
  "config_default = \<lparr>dev_name = ''mlx5_0'', server_name = '''', serve_as_client = False,
     tcp_port = 2020, ib_port = 1, gid_idx = 3, traffic_class = 0, use_event = False,
     DATA_MSG_SIZE = 1000, CTRL_MSG_SIZE = 4, MSG_BLOCK_NUM = 2, local_ip = '''', cluster = [],
     num_senders = 0, single_recv = False, service_type = 0, all_reduce = UNKNOWN_ALLREDUCE,
     tree_width = 0, sub_groups = []\<rparr>"

section \<open>Operations\<close>

text \<open>\<open>get_local_ip\<close> asks for the address once and remembers it.\<close>

definition get_local_ip :: "string \<Rightarrow> config \<Rightarrow> string \<times> config" where
  "get_local_ip ip c =
     (let c' = (if length (local_ip c) = 0 then c\<lparr>local_ip := ip\<rparr> else c) in (local_ip c', c'))"

definition set_server_name :: "string \<Rightarrow> string \<Rightarrow> config \<Rightarrow> config" where
  "set_server_name ip name c =
     (let (my_ip, c1) = get_local_ip ip c in
      if my_ip = name then c1\<lparr>server_name := name, serve_as_client := False\<rparr>
      else c1\<lparr>serve_as_client := True, server_name := name\<rparr>)"

definition add_to_cluster :: "string \<Rightarrow> string \<Rightarrow> config \<Rightarrow> config" where
  "add_to_cluster ip str c =
     (let (my_ip, c1) = get_local_ip ip c;
          nodes = (if my_ip \<noteq> str then cluster c1 @ [str] else cluster c1)
      in c1\<lparr>cluster := sort nodes\<rparr>)"

definition conflict_check :: "string \<Rightarrow> config \<Rightarrow> config result" where
  "conflict_check ip c0 =
     (let c = (if num_senders c0 = 0 \<and> length (cluster c0) \<noteq> 0
               then c0\<lparr>num_senders := to_int32 (int (length (cluster c0)))\<rparr> else c0);
          continue_check = \<not> (single_recv c \<and> num_senders c = 0);
          continue_check =
            (if continue_check \<and> all_reduce c = TREE_ALLREDUCE \<and> tree_width c \<le> 0 then False
             else continue_check)
      in bindR
           (if continue_check \<and> all_reduce c = SERVER_CLIENT
            then if server_name c = '''' \<and> serve_as_client c then Inl LogFatal
                 else let (this_ip, c1) = get_local_ip ip c in
                   Inr (c1\<lparr>serve_as_client := (this_ip \<noteq> server_name c1)\<rparr>)
            else Inr c)
           (\<lambda>c. if \<not> continue_check then Inl (Exit (-1)) else Inr c))"

section \<open>The command line\<close>

text \<open>
  \<open>getopt_long\<close> answers the option's value (-1 when there is none left), \<open>optarg\<close>, and
  its next state; \<open>rest_args\<close> is \<open>argv[optind]\<close> to \<open>argv[argc - 1]\<close>, and
  \<open>skip_arg\<close> is \<open>optind++\<close>.
\<close>

record 'g getopt_api =
  getopt_long :: "'g \<Rightarrow> int \<times> string \<times> 'g"
  rest_args :: "'g \<Rightarrow> string list"
  skip_arg :: "'g \<Rightarrow> 'g"

fun add_cluster_args :: "'g getopt_api \<Rightarrow> string \<Rightarrow> string list \<Rightarrow> 'g \<Rightarrow> config \<Rightarrow> config \<times> 'g" where
  "add_cluster_args api ip [] g c = (c, g)"
| "add_cluster_args api ip (a # as) g c =
     (if a \<noteq> [] \<and> hd a = CHR ''-'' then (c, g)
      else add_cluster_args api ip as (skip_arg api g) (add_to_cluster ip a c))"

definition opt :: "char \<Rightarrow> int" where
  "opt ch = int (of_char ch)"

definition set_topology :: "string \<Rightarrow> config \<Rightarrow> config" where
  "set_topology topology c =
     (if topology = ''full-mesh'' then c\<lparr>all_reduce := FULL_MESH_ALLREDUCE\<rparr>
      else if topology = ''double-binary-tree'' \<or> topology = ''dbt''
           then c\<lparr>all_reduce := DOUBLE_BINARY_TREE_ALLREDUCE\<rparr>
      else if topology = ''ring'' then c\<lparr>all_reduce := RING_ALLREDUCE\<rparr>
      else if topology = ''tree'' then c\<lparr>all_reduce := TREE_ALLREDUCE\<rparr>
      else if topology = ''server-client'' then c\<lparr>all_reduce := SERVER_CLIENT\<rparr>
      else c)"

text \<open>
  One pass of the loop's switch. Values with no case (\<open>'?'\<close>, 260) and the cases that
  only print (\<open>v\<close>, \<open>c\<close>, \<open>m\<close>) leave the configuration as it is.
\<close>

definition handle_option ::
  "'g getopt_api \<Rightarrow> string \<Rightarrow> int \<Rightarrow> string \<Rightarrow> 'g \<Rightarrow> config \<Rightarrow> (config \<times> 'g) result" where
  "handle_option api ip iarg optarg g c =
     (if iarg = opt CHR ''h'' then Inl (Exit 0)
      else if iarg = opt CHR ''u''
           then Inr (add_cluster_args api ip (rest_args api g) g (add_to_cluster ip optarg c))
      else if iarg = opt CHR ''p'' then Inr (c\<lparr>tcp_port := word_of_nat (strtoul0 optarg)\<rparr>, g)
      else if iarg = opt CHR ''d'' then Inr (c\<lparr>dev_name := optarg\<rparr>, g)
      else if iarg = opt CHR ''i'' then
        (let v = to_int32 (int (strtoul0 optarg)) in
         if v < 0 then Inl (Exit (-1)) else Inr (c\<lparr>ib_port := v\<rparr>, g))
      else if iarg = opt CHR ''g'' then
        (let v = to_int32 (int (strtoul0 optarg)) in
         if v < 0 then Inl (Exit (-1)) else Inr (c\<lparr>gid_idx := v\<rparr>, g))
      else if iarg = opt CHR ''s'' then Inr (set_server_name ip optarg c, g)
      else if iarg = opt CHR ''t'' then Inr (c\<lparr>traffic_class := word_of_nat (strtoul0 optarg)\<rparr>, g)
      else if iarg = opt CHR ''e'' then Inr (c\<lparr>use_event := True\<rparr>, g)
      else if iarg = 257 then Inr (c\<lparr>DATA_MSG_SIZE := atoi optarg\<rparr>, g)
      else if iarg = 258 then Inr (c\<lparr>num_senders := atoi optarg\<rparr>, g)
      else if iarg = 259 then Inr (c\<lparr>single_recv := True\<rparr>, g)
      else if iarg = 261 then Inr (set_topology optarg c, g)
      else if iarg = 262 then Inr (c\<lparr>tree_width := atoi optarg\<rparr>, g)
      else Inr (c, g))"

fun parse_loop :: "nat \<Rightarrow> 'g getopt_api \<Rightarrow> string \<Rightarrow> 'g \<Rightarrow> config \<Rightarrow> config result" where
  "parse_loop 0 api ip g c = Inl OutOfFuel"
| "parse_loop (Suc n) api ip g c =
     (let (iarg, optarg, g1) = getopt_long api g in
      bindR (handle_option api ip iarg optarg g1 c) (\<lambda>(c', g2).
        if iarg = -1 then Inr c' else parse_loop n api ip g2 c'))"

definition parse_args :: "nat \<Rightarrow> 'g getopt_api \<Rightarrow> string \<Rightarrow> 'g \<Rightarrow> config \<Rightarrow> config result" where
  "parse_args n api ip g c = bindR (parse_loop n api ip g c) (conflict_check ip)"

section \<open>What the operations keep\<close>

definition config_inv :: "string \<Rightarrow> config \<Rightarrow> bool" where
  "config_inv ip c \<longleftrightarrow> (local_ip c = '''' \<or> local_ip c = ip) \<and> sorted (cluster c)
     \<and> ip \<notin> set (cluster c) \<and> (cluster c \<noteq> [] \<longrightarrow> local_ip c = ip)
     \<and> 0 \<le> ib_port c \<and> 0 \<le> gid_idx c"

lemma config_inv_default: "config_inv ip config_default"
  by (simp add: config_inv_def config_default_def)

lemma get_local_ip_inv: "config_inv ip c \<Longrightarrow> get_local_ip ip c = (ip, c\<lparr>local_ip := ip\<rparr>)"
  by (auto simp: config_inv_def get_local_ip_def)

lemma config_inv_set_server_name: "config_inv ip c \<Longrightarrow> config_inv ip (set_server_name ip name c)"
  by (simp add: set_server_name_def get_local_ip_inv) (auto simp: config_inv_def)

lemma config_inv_add_to_cluster: "config_inv ip c \<Longrightarrow> config_inv ip (add_to_cluster ip str c)"
  by (simp add: add_to_cluster_def get_local_ip_inv Let_def) (auto simp: config_inv_def)

lemma config_inv_add_cluster_args:
  "config_inv ip c \<Longrightarrow> config_inv ip (fst (add_cluster_args api ip as g c))"
  by (induction as arbitrary: g c) (auto intro: config_inv_add_to_cluster)

lemma config_inv_other:
  "config_inv ip c \<Longrightarrow> config_inv ip (c\<lparr>tcp_port := p\<rparr>)"
  "config_inv ip c \<Longrightarrow> config_inv ip (c\<lparr>dev_name := d\<rparr>)"
  "config_inv ip c \<Longrightarrow> 0 \<le> i \<Longrightarrow> config_inv ip (c\<lparr>ib_port := i\<rparr>)"
  "config_inv ip c \<Longrightarrow> 0 \<le> i \<Longrightarrow> config_inv ip (c\<lparr>gid_idx := i\<rparr>)"
  "config_inv ip c \<Longrightarrow> config_inv ip (c\<lparr>traffic_class := p\<rparr>)"
  "config_inv ip c \<Longrightarrow> config_inv ip (c\<lparr>use_event := b\<rparr>)"
  "config_inv ip c \<Longrightarrow> config_inv ip (c\<lparr>DATA_MSG_SIZE := i\<rparr>)"
  "config_inv ip c \<Longrightarrow> config_inv ip (c\<lparr>num_senders := i\<rparr>)"
  "config_inv ip c \<Longrightarrow> config_inv ip (c\<lparr>single_recv := b\<rparr>)"
  "config_inv ip c \<Longrightarrow> config_inv ip (c\<lparr>all_reduce := t\<rparr>)"
  "config_inv ip c \<Longrightarrow> config_inv ip (c\<lparr>tree_width := i\<rparr>)"
  "config_inv ip c \<Longrightarrow> config_inv ip (c\<lparr>serve_as_client := b\<rparr>)"
  "config_inv ip c \<Longrightarrow> config_inv ip (c\<lparr>local_ip := ip\<rparr>)"
  by (auto simp: config_inv_def)

lemma config_inv_handle_option:
  assumes "config_inv ip c" and "handle_option api ip iarg optarg g c = Inr (c', g')"
  shows "config_inv ip c'"
  using assms config_inv_add_cluster_args [OF config_inv_add_to_cluster [OF assms(1), of optarg],
      of api "rest_args api g" g]
  by (auto simp: handle_option_def Let_def set_topology_def
      intro: config_inv_other config_inv_set_server_name split: if_splits)

lemma config_inv_parse_loop:
  "config_inv ip c \<Longrightarrow> parse_loop n api ip g c = Inr c' \<Longrightarrow> config_inv ip c'"
proof (induction n arbitrary: g c)
  case (Suc n)
  then show ?case
    by (auto simp: Let_def bindR_eq_Inr_iff split: prod.splits if_splits
        dest: config_inv_handle_option)
qed simp

section \<open>The outcomes of \<open>conflict_check\<close>\<close>

definition check_fails :: "config \<Rightarrow> bool" where
  "check_fails c \<longleftrightarrow> (single_recv c \<and> num_senders c = 0 \<and> cluster c = [])
     \<or> (all_reduce c = TREE_ALLREDUCE \<and> tree_width c \<le> 0)"

definition checked :: "string \<Rightarrow> config \<Rightarrow> config" where
  "checked ip c =
     (let c1 = (if num_senders c = 0 \<and> cluster c \<noteq> [] then c\<lparr>num_senders := int (length (cluster c))\<rparr> else c) in
      if all_reduce c = SERVER_CLIENT
      then c1\<lparr>local_ip := ip, serve_as_client := (ip \<noteq> server_name c)\<rparr> else c1)"

text \<open>The configuration with the number of senders filled in, and the check after that.\<close>

definition senders_counted :: "config \<Rightarrow> config" where
  "senders_counted c = (if num_senders c = 0 \<and> length (cluster c) \<noteq> 0
     then c\<lparr>num_senders := to_int32 (int (length (cluster c)))\<rparr> else c)"

definition options_agree :: "config \<Rightarrow> bool" where
  "options_agree c \<longleftrightarrow> \<not> (single_recv c \<and> num_senders c = 0) \<and> \<not> (all_reduce c = TREE_ALLREDUCE \<and> tree_width c \<le> 0)"

lemma senders_counted_inv: "config_inv ip c \<Longrightarrow> config_inv ip (senders_counted c)"
  by (simp add: senders_counted_def config_inv_other(8))

lemma senders_counted_simps [simp]:
  "all_reduce (senders_counted c) = all_reduce c" "tree_width (senders_counted c) = tree_width c"
  "single_recv (senders_counted c) = single_recv c" "server_name (senders_counted c) = server_name c"
  "serve_as_client (senders_counted c) = serve_as_client c"
  by (simp_all add: senders_counted_def)

lemma conflict_check_counted:
  assumes "config_inv ip c0" and "c = senders_counted c0"
  shows "conflict_check ip c0 =
    (if \<not> options_agree c then Inl (Exit (-1))
     else if all_reduce c = SERVER_CLIENT
     then if server_name c = '''' \<and> serve_as_client c then Inl LogFatal
          else Inr (c\<lparr>local_ip := ip, serve_as_client := (ip \<noteq> server_name c)\<rparr>)
     else Inr c)"
proof -
  have "get_local_ip ip c = (ip, c\<lparr>local_ip := ip\<rparr>)"
    using senders_counted_inv [OF assms(1)] assms(2) get_local_ip_inv by simp
  then show ?thesis
    unfolding conflict_check_def senders_counted_def [symmetric] assms(2) [symmetric] options_agree_def Let_def
    by (cases "single_recv c \<and> num_senders c = 0"; cases "all_reduce c") simp_all
qed

lemma conflict_check_eq:
  assumes "config_inv ip c" and "length (cluster c) < 2 ^ 31"
  shows "conflict_check ip c =
    (if check_fails c then Inl (Exit (-1))
     else if all_reduce c = SERVER_CLIENT \<and> server_name c = '''' \<and> serve_as_client c then Inl LogFatal
     else Inr (checked ip c))"
proof -
  have n: "senders_counted c = (if num_senders c = 0 \<and> cluster c \<noteq> [] then c\<lparr>num_senders := int (length (cluster c))\<rparr> else c)"
    using assms(2) by (simp add: senders_counted_def to_int32_small)
  then have "check_fails c \<longleftrightarrow> \<not> options_agree (senders_counted c)" by (auto simp: check_fails_def options_agree_def)
  then show ?thesis unfolding conflict_check_counted [OF assms(1) refl] checked_def n [symmetric] Let_def by simp
qed

lemma conflict_check_Inr:
  assumes "conflict_check ip c0 = Inr c" and "config_inv ip c0"
  shows "config_inv ip c \<and> (single_recv c \<longrightarrow> num_senders c \<noteq> 0)
    \<and> (all_reduce c = TREE_ALLREDUCE \<longrightarrow> 0 < tree_width c)
    \<and> (all_reduce c = SERVER_CLIENT \<longrightarrow> (serve_as_client c \<longleftrightarrow> server_name c \<noteq> ip))"
proof -
  define d where "d = senders_counted c0"
  have inv: "config_inv ip d" using senders_counted_inv [OF assms(2)] by (simp add: d_def)
  have d: "options_agree d" "c = (if all_reduce d = SERVER_CLIENT
      then d\<lparr>local_ip := ip, serve_as_client := (ip \<noteq> server_name d)\<rparr> else d)"
    using assms(1) unfolding conflict_check_counted [OF assms(2) d_def] by (auto split: if_splits)
  then have "config_inv ip c" using inv config_inv_other(12,13) by simp
  then show ?thesis using d by (auto simp: options_agree_def)
qed

text \<open>
  C30. Whatever the command line, a configuration that \<open>parse_args\<close> accepts has a sorted
  cluster without the node's own address, no negative port or gid index, a positive width in
  tree mode, a number of senders when the single receiver thread is asked for, and, in
  server-client mode, the client role exactly when the named server is another node.
\<close>

theorem parse_args_valid:
  assumes "parse_args n api ip g config_default = Inr c"
  shows "sorted (cluster c) \<and> ip \<notin> set (cluster c) \<and> 0 \<le> ib_port c \<and> 0 \<le> gid_idx c
    \<and> (single_recv c \<longrightarrow> num_senders c \<noteq> 0)
    \<and> (all_reduce c = TREE_ALLREDUCE \<longrightarrow> 0 < tree_width c)
    \<and> (all_reduce c = SERVER_CLIENT \<longrightarrow> (serve_as_client c \<longleftrightarrow> server_name c \<noteq> ip))"
proof -
  obtain c0 where c0: "parse_loop n api ip g config_default = Inr c0" "conflict_check ip c0 = Inr c"
    using assms by (auto simp: parse_args_def bindR_eq_Inr_iff)
  from conflict_check_Inr [OF c0(2) config_inv_parse_loop [OF config_inv_default c0(1)]]
  show ?thesis by (simp add: config_inv_def)
qed

text \<open>A getopt that answers scripted options, each with the plain arguments that follow it.\<close>

type_synonym script = "string list \<times> (int \<times> string \<times> string list) list"

definition scripted :: "script getopt_api" where
  "scripted = \<lparr>getopt_long = (\<lambda>(rest, os). case os of
       [] \<Rightarrow> (-1, '''', (rest, [])) | (v, a, r) # os' \<Rightarrow> (v, a, (r, os'))),
     rest_args = fst, skip_arg = apfst tl\<rparr>"

definition tree_line :: script where
  "tree_line = ([], [(261, ''tree'', []), (262, ''2'', []),
     (opt CHR ''u'', ''12.12.12.3'', [''12.12.12.2'', ''12.12.12.1''])])"

lemma opt_simps [simp]:
  "opt CHR ''h'' = 104" "opt CHR ''u'' = 117" "opt CHR ''p'' = 112" "opt CHR ''d'' = 100"
  "opt CHR ''i'' = 105" "opt CHR ''g'' = 103" "opt CHR ''s'' = 115" "opt CHR ''t'' = 116"
  "opt CHR ''e'' = 101"
  by (simp_all add: opt_def)

lemma atoi_2: "atoi ''2'' = 2"
  by (simp add: atoi_def split_sign_def is_space_def digit_val_def Let_def to_int32_small)

lemma tree_line_parsed:
  "parse_args 4 scripted ''12.12.12.2'' tree_line config_default =
    Inr (config_default\<lparr>all_reduce := TREE_ALLREDUCE, tree_width := 2, local_ip := ''12.12.12.2'',
           cluster := [''12.12.12.1'', ''12.12.12.3''], num_senders := 2\<rparr>)"
  by (simp add: parse_args_def tree_line_def scripted_def eval_nat_numeral handle_option_def atoi_2
      set_topology_def add_to_cluster_def get_local_ip_def config_default_def conflict_check_def
      to_int32_small less_char_def)

theorem parse_args_valid_witness:
  "sorted [''12.12.12.1'', ''12.12.12.3''] \<and> ''12.12.12.2'' \<notin> set [''12.12.12.1'', ''12.12.12.3'']"
  using parse_args_valid [OF tree_line_parsed] by simp

text \<open>
  The \<open>--cluster\<close> option with the plain arguments that follow it puts exactly the named
  nodes other than the local one into the cluster, in order, and stops at the first argument
  that starts with a dash.
\<close>

theorem cluster_option_spec:
  assumes "config_inv ip c" and "rest_args api g = before @ after"
    and "\<forall>a \<in> set before. a \<noteq> '''' \<longrightarrow> hd a \<noteq> CHR ''-''"
    and "after = [] \<or> (hd after \<noteq> '''' \<and> hd (hd after) = CHR ''-'')"
  shows "handle_option api ip (opt CHR ''u'') first g c =
    Inr (c\<lparr>local_ip := ip,
           cluster := sort (cluster c @ filter (\<lambda>a. a \<noteq> ip) (first # before))\<rparr>,
         (skip_arg api ^^ length before) g)"
proof -
  have add: "add_to_cluster ip a c =
      c\<lparr>local_ip := ip, cluster := sort (cluster c @ filter (\<lambda>a. a \<noteq> ip) [a])\<rparr>"
    if "config_inv ip c" for a and c :: config
    using that by (simp add: add_to_cluster_def get_local_ip_inv)
  have loop: "add_cluster_args api ip (before @ after) g c =
      (if before = [] then c
       else c\<lparr>local_ip := ip, cluster := sort (cluster c @ filter (\<lambda>a. a \<noteq> ip) before)\<rparr>,
       (skip_arg api ^^ length before) g)"
    if "config_inv ip c" and "\<forall>a \<in> set before. a \<noteq> '''' \<longrightarrow> hd a \<noteq> CHR ''-''" for before g c
    using that
  proof (induction before arbitrary: g c)
    case Nil
    with assms(4) show ?case by (cases after) auto
  next
    case (Cons a as)
    let ?c = "add_to_cluster ip a c"
    have IH: "add_cluster_args api ip (as @ after) (skip_arg api g) ?c =
      (if as = [] then ?c
       else ?c\<lparr>local_ip := ip, cluster := sort (cluster ?c @ filter (\<lambda>a. a \<noteq> ip) as)\<rparr>,
       (skip_arg api ^^ length as) (skip_arg api g))"
      using Cons.prems by (intro Cons.IH config_inv_add_to_cluster) auto
    have "sort (sort xs @ ys) = sort (xs @ ys)" for xs ys :: "string list"
      by (rule properties_for_sort) simp_all
    with IH Cons.prems show ?case
      by (auto simp: add funpow_swap1)
  qed
  have "sort (sort xs @ ys) = sort (xs @ ys)" for xs ys :: "string list"
    by (rule properties_for_sort) simp_all
  then show ?thesis
    using loop [OF config_inv_add_to_cluster [OF assms(1), of first] assms(3), of g] assms(1,2)
    by (auto simp: handle_option_def opt_def add)
qed

theorem cluster_option_spec_witness:
  "handle_option scripted ''b'' (opt CHR ''u'') ''c'' ([''a'', ''b'', ''-p''], []) config_default =
    Inr (config_default\<lparr>local_ip := ''b'', cluster := sort [''c'', ''a'']\<rparr>, ([''-p''], []))"
  using cluster_option_spec [OF config_inv_default, of scripted "([''a'', ''b'', ''-p''], [])"
      "[''a'', ''b'']" "[''-p'']" "''b''" "''c''"]
  by (simp add: scripted_def config_default_def eval_nat_numeral)

text \<open>
  The option loop ends: as every \<open>getopt_long\<close> call that finds an option moves forward
  in the arguments, the loop returns within one pass per remaining argument, plus the last.
\<close>

theorem parse_args_terminates:
  assumes "\<And>g v a g'. getopt_long api g = (v, a, g') \<Longrightarrow> v \<noteq> -1 \<Longrightarrow> remaining g' < remaining g"
    and "\<And>g. remaining (skip_arg api g) \<le> (remaining g :: nat)"
    and "remaining g < n"
  shows "parse_args n api ip g c \<noteq> Inl OutOfFuel"
proof -
  have skip: "remaining (snd (add_cluster_args api ip as g c)) \<le> remaining g" for as g c
    by (induction as arbitrary: g c) (auto intro: order_trans [OF _ assms(2)])
  have no_fuel: "handle_option api ip v a g c \<noteq> Inl OutOfFuel" for v a g c
    by (simp add: handle_option_def Let_def)
  have step: "remaining g' \<le> remaining g" if "handle_option api ip v a g c = Inr (c', g')" for v a g c c' g'
    using that skip [of "rest_args api g" g "add_to_cluster ip a c"]
    by (auto simp: handle_option_def Let_def split: if_splits)
  have "parse_loop n api ip g c \<noteq> Inl OutOfFuel"
    using assms(3)
  proof (induction n arbitrary: g c)
    case (Suc n)
    obtain v a g1 where g1: "getopt_long api g = (v, a, g1)" by (metis prod_cases3)
    show ?case
    proof (cases "handle_option api ip v a g1 c")
      case (Inl e)
      with no_fuel [of v a g1 c] g1 show ?thesis by simp
    next
      case (Inr r)
      obtain c' g2 where r: "r = (c', g2)" by (cases r)
      have "v \<noteq> -1 \<Longrightarrow> remaining g2 < n"
        using step [of v a g1 c c' g2] assms(1) [OF g1] Inr r Suc.prems by simp
      then show ?thesis using Suc.IH g1 Inr r by simp
    qed
  qed simp
  moreover have "conflict_check ip c1 \<noteq> Inl OutOfFuel" for c1
    by (simp add: conflict_check_def Let_def get_local_ip_def bindR_eq_Inl_iff)
  ultimately show ?thesis by (auto simp: parse_args_def bindR_eq_Inl_iff)
qed

theorem parse_args_terminates_witness:
  "parse_args 5 scripted ''12.12.12.2'' tree_line config_default \<noteq> Inl OutOfFuel"
  by (rule parse_args_terminates [of scripted "\<lambda>(rest, os). length os"])
     (auto simp: scripted_def tree_line_def split: list.splits prod.splits)

text \<open>
  Server-client mode without a server: \<open>conflict_check\<close> means to refuse it, but its test
  asks for \<open>serve_as_client\<close>, which is still false; the node then becomes a client of the
  server named by the empty string.
\<close>

theorem server_client_without_server:
  assumes "ip \<noteq> ''''"
  shows "\<exists>c. conflict_check ip (config_default\<lparr>all_reduce := SERVER_CLIENT\<rparr>) = Inr c
    \<and> serve_as_client c \<and> server_name c = ''''"
  using assms by (simp add: conflict_check_eq config_inv_def config_default_def check_fails_def checked_def)

theorem server_client_without_server_witness:
  "\<exists>c. conflict_check ''12.12.12.2'' (config_default\<lparr>all_reduce := SERVER_CLIENT\<rparr>) = Inr c
    \<and> serve_as_client c \<and> server_name c = ''''"
  by (rule server_client_without_server) simp

end
