(* ===== verification/Verbs.thy ===== *)
theory Verbs
  imports Sockets Config
begin

text \<open>
  The vocabulary of InfiniBand verbs that RCL uses: work requests, completions, queue pair
  attributes, and the record of verbs calls, which is a parameter of everything that talks to
  the device (libibverbs is not part of the repository). Handles are numbers and 0 is the null
  pointer. Also the connection data that peers exchange, with its byte order
  (networking\_service/include/rdma\_base.h).
\<close>

section \<open>Work requests and completions\<close>

datatype wr_opcode = IBV_WR_SEND | IBV_WR_SEND_WITH_IMM | IBV_WR_RDMA_READ | IBV_WR_RDMA_WRITE | IBV_WR_RDMA_WRITE_WITH_IMM

datatype wc_opcode = IBV_WC_SEND | IBV_WC_RECV | IBV_WC_RDMA_WRITE | IBV_WC_RDMA_READ
  | IBV_WC_RECV_RDMA_WITH_IMM | IBV_WC_OTHER

record sge =
  sge_addr :: u64
  sge_length :: u32
  sge_lkey :: u32

record send_wr =
  sw_id :: u64
  sw_sge :: sge
  sw_opcode :: wr_opcode
  sw_signaled :: bool
  sw_inline :: bool
  sw_imm :: u32
  sw_remote_addr :: u64
  sw_rkey :: u32

record recv_wr =
  rw_id :: u64
  rw_sge :: sge

text \<open>Status 0 is \<open>IBV_WC_SUCCESS\<close>.\<close>

record wc =
  wc_status :: nat
  wc_opcode_of :: wc_opcode
  wc_imm :: u32

datatype qp_state = IBV_QPS_RESET | IBV_QPS_INIT | IBV_QPS_RTR | IBV_QPS_RTS

record qp_attr =
  qa_state :: qp_state
  qa_port :: int
  qa_dest_qp_num :: u32
  qa_dlid :: u16
  qa_is_global :: bool
  qa_dgid :: "u8 list"
  qa_sgid_index :: int
  qa_traffic_class :: u32
  qa_psn :: u32

text \<open>\<open>qa_psn\<close> is \<open>rq_psn\<close> in a transition to RTR and \<open>sq_psn\<close> in one to RTS.\<close>

definition qp_attr_zero :: qp_attr where
  "qp_attr_zero = \<lparr>qa_state = IBV_QPS_RESET, qa_port = 0, qa_dest_qp_num = 0, qa_dlid = 0,
     qa_is_global = False, qa_dgid = replicate 16 0, qa_sgid_index = 0, qa_traffic_class = 0, qa_psn = 0\<rparr>"

section \<open>The verbs calls\<close>

text \<open>\<open>'d\<close> is the state of the device, of the allocator and of the clock.\<close>

record 'd verbs =
  ibv_get_device_list :: "'d \<Rightarrow> string list option \<times> 'd"
  ibv_open_device :: "'d \<Rightarrow> string \<Rightarrow> nat \<times> 'd"
  ibv_query_port :: "'d \<Rightarrow> nat \<Rightarrow> int \<Rightarrow> int \<times> u16 \<times> 'd"
  ibv_query_gid :: "'d \<Rightarrow> nat \<Rightarrow> int \<Rightarrow> int \<Rightarrow> int \<times> u8 list \<times> 'd"
  ibv_create_comp_channel :: "'d \<Rightarrow> nat \<Rightarrow> nat \<times> 'd"
  ibv_alloc_pd :: "'d \<Rightarrow> nat \<Rightarrow> nat \<times> 'd"
  ibv_create_cq :: "'d \<Rightarrow> nat \<Rightarrow> int \<Rightarrow> nat \<Rightarrow> nat \<times> 'd"
  ibv_req_notify_cq :: "'d \<Rightarrow> nat \<Rightarrow> int \<times> 'd"
  ibv_get_cq_event :: "'d \<Rightarrow> nat \<Rightarrow> int \<times> nat \<times> 'd"
  ibv_reg_mr :: "'d \<Rightarrow> nat \<Rightarrow> u64 \<Rightarrow> int \<Rightarrow> nat \<times> u32 \<times> u32 \<times> 'd"
  ibv_create_qp :: "'d \<Rightarrow> nat \<Rightarrow> nat \<Rightarrow> bool \<Rightarrow> nat \<times> u32 \<times> 'd"
  ibv_modify_qp :: "'d \<Rightarrow> nat \<Rightarrow> qp_attr \<Rightarrow> int \<times> 'd"
  ibv_post_send :: "'d \<Rightarrow> nat \<Rightarrow> send_wr \<Rightarrow> int \<times> 'd"
  ibv_post_recv :: "'d \<Rightarrow> nat \<Rightarrow> recv_wr \<Rightarrow> int \<times> 'd"
  ibv_poll_cq :: "'d \<Rightarrow> nat \<Rightarrow> int \<times> wc \<times> 'd"
  ibv_destroy :: "'d \<Rightarrow> nat \<Rightarrow> int \<times> 'd"
  posix_memalign :: "'d \<Rightarrow> int \<Rightarrow> int \<times> u64 \<times> 'd"
  free_mem :: "'d \<Rightarrow> u64 \<Rightarrow> 'd"
  clock_msec :: "'d \<Rightarrow> u64 \<times> 'd"

section \<open>Byte order\<close>

fun le_bytes :: "nat \<Rightarrow> nat \<Rightarrow> u8 list" where
  "le_bytes 0 n = []"
| "le_bytes (Suc k) n = word_of_nat n # le_bytes k (n div 256)"

fun nat_of_le :: "u8 list \<Rightarrow> nat" where
  "nat_of_le [] = 0"
| "nat_of_le (b # bs) = unat b + 256 * nat_of_le bs"

text \<open>\<open>htonll\<close>, \<open>htonl\<close> and \<open>htons\<close> on a little-endian host: the bytes reversed.
  Each is its own inverse, \<open>ntohll\<close> and so on.\<close>

definition htonll :: "u64 \<Rightarrow> u64" where
  "htonll x = word_of_nat (nat_of_le (rev (le_bytes 8 (unat x))))"

definition htonl :: "u32 \<Rightarrow> u32" where
  "htonl x = word_of_nat (nat_of_le (rev (le_bytes 4 (unat x))))"

definition htons :: "u16 \<Rightarrow> u16" where
  "htons x = word_of_nat (nat_of_le (rev (le_bytes 2 (unat x))))"

lemma length_le_bytes [simp]: "length (le_bytes k n) = k"
  by (induction k arbitrary: n) simp_all

lemma nat_of_le_bytes: "nat_of_le (le_bytes k n) = n mod 256 ^ k"
proof (induction k arbitrary: n)
  case (Suc k)
  have "unat (word_of_nat n :: u8) = n mod 256" by (simp add: unsigned_of_nat take_bit_nat_def)
  moreover have "n mod (256 * 256 ^ k) = n mod 256 + 256 * (n div 256 mod 256 ^ k)"
    by (simp add: mod_mult2_eq)
  ultimately show ?case using Suc by simp
qed simp

lemma unat_u8_less: "unat (b :: u8) < 256"
  using unsigned_less [of b] by simp

lemma nat_of_le_less: "nat_of_le bs < 256 ^ length bs"
proof (induction bs)
  case (Cons b bs)
  then have "256 * Suc (nat_of_le bs) \<le> 256 * 256 ^ length bs" by (intro mult_le_mono2) simp
  then show ?case using unat_u8_less [of b] by simp
qed simp

lemma le_bytes_nat_of_le: "length bs = k \<Longrightarrow> le_bytes k (nat_of_le bs) = bs"
proof (induction bs arbitrary: k)
  case (Cons b bs)
  have zero: "(256 :: u8) = 0" by simp
  have "(unat b + 256 * nat_of_le bs) div 256 = nat_of_le bs" using unat_u8_less [of b] by simp
  moreover have "(word_of_nat (unat b + 256 * nat_of_le bs) :: u8) = b"
    by (simp add: zero)
  ultimately show ?case using Cons by auto
qed simp

lemma swap_bytes_swap:
  assumes "n < 256 ^ k"
  shows "nat_of_le (rev (le_bytes k (nat_of_le (rev (le_bytes k n))))) = n"
proof -
  have "le_bytes k (nat_of_le (rev (le_bytes k n))) = rev (le_bytes k n)"
    by (rule le_bytes_nat_of_le) simp
  then show ?thesis using assms by (simp add: nat_of_le_bytes)
qed

lemma swap_less: "nat_of_le (rev (le_bytes k n)) < 256 ^ k"
  using nat_of_le_less [of "rev (le_bytes k n)"] by simp

lemma htonll_htonll [simp]: "htonll (htonll x) = x"
proof -
  have "unat x < 256 ^ 8" using unsigned_less [of x] by simp
  moreover have "nat_of_le (rev (le_bytes 8 (unat x))) < 2 ^ 64" using swap_less [of 8 "unat x"] by simp
  ultimately show ?thesis
    by (simp add: htonll_def unsigned_of_nat take_bit_nat_eq_self swap_bytes_swap)
qed

lemma htonl_htonl [simp]: "htonl (htonl x) = x"
proof -
  have "unat x < 256 ^ 4" using unsigned_less [of x] by simp
  moreover have "nat_of_le (rev (le_bytes 4 (unat x))) < 2 ^ 32" using swap_less [of 4 "unat x"] by simp
  ultimately show ?thesis
    by (simp add: htonl_def unsigned_of_nat take_bit_nat_eq_self swap_bytes_swap)
qed

lemma htons_htons [simp]: "htons (htons x) = x"
proof -
  have "unat x < 256 ^ 2" using unsigned_less [of x] by simp
  moreover have "nat_of_le (rev (le_bytes 2 (unat x))) < 2 ^ 16" using swap_less [of 2 "unat x"] by simp
  ultimately show ?thesis
    by (simp add: htons_def unsigned_of_nat take_bit_nat_eq_self swap_bytes_swap)
qed

section \<open>Connection data\<close>

record cm_con_data =
  cd_addr :: u64
  cd_rkey :: u32
  cd_qp_num :: u32
  cd_lid :: u16
  cd_gid :: "u8 list"

text \<open>The packed struct as it lies in memory, and the struct read from 34 bytes.\<close>

definition con_bytes :: "cm_con_data \<Rightarrow> u8 list" where
  "con_bytes d = le_bytes 8 (unat (cd_addr d)) @ le_bytes 4 (unat (cd_rkey d))
     @ le_bytes 4 (unat (cd_qp_num d)) @ le_bytes 2 (unat (cd_lid d)) @ cd_gid d"

definition con_of_bytes :: "u8 list \<Rightarrow> cm_con_data" where
  "con_of_bytes bs = \<lparr>cd_addr = word_of_nat (nat_of_le (take 8 bs)),
     cd_rkey = word_of_nat (nat_of_le (take 4 (drop 8 bs))),
     cd_qp_num = word_of_nat (nat_of_le (take 4 (drop 12 bs))),
     cd_lid = word_of_nat (nat_of_le (take 2 (drop 16 bs))), cd_gid = take 16 (drop 18 bs)\<rparr>"

text \<open>Network byte order, both ways.\<close>

definition swap_con :: "cm_con_data \<Rightarrow> cm_con_data" where
  "swap_con d = \<lparr>cd_addr = htonll (cd_addr d), cd_rkey = htonl (cd_rkey d),
     cd_qp_num = htonl (cd_qp_num d), cd_lid = htons (cd_lid d), cd_gid = cd_gid d\<rparr>"

lemma con_of_con_bytes: "length (cd_gid d) = 16 \<Longrightarrow> con_of_bytes (con_bytes d) = d"
proof -
  assume "length (cd_gid d) = 16"
  moreover have "unat (cd_addr d) < 256 ^ 8" "unat (cd_rkey d) < 256 ^ 4"
    "unat (cd_qp_num d) < 256 ^ 4" "unat (cd_lid d) < 256 ^ 2"
    using unsigned_less [of "cd_addr d"] unsigned_less [of "cd_rkey d"]
      unsigned_less [of "cd_qp_num d"] unsigned_less [of "cd_lid d"] by simp_all
  ultimately show ?thesis
    by (simp add: con_bytes_def con_of_bytes_def nat_of_le_bytes del: le_bytes.simps)
qed

lemma length_con_bytes: "length (cd_gid d) = 16 \<Longrightarrow> length (con_bytes d) = 34"
  by (simp add: con_bytes_def)

lemma swap_con_swap: "swap_con (swap_con d) = d"
  by (simp add: swap_con_def)

section \<open>A device for examples\<close>

text \<open>Every call succeeds, nothing completes and the device state never changes.\<close>

definition still_device :: "'d verbs" where
  "still_device = \<lparr>ibv_get_device_list = (\<lambda>d. (Some [''mlx5_0''], d)), ibv_open_device = (\<lambda>d n. (1, d)),
     ibv_query_port = (\<lambda>d c p. (0, 7, d)), ibv_query_gid = (\<lambda>d c p i. (0, replicate 16 9, d)),
     ibv_create_comp_channel = (\<lambda>d c. (2, d)), ibv_alloc_pd = (\<lambda>d c. (3, d)),
     ibv_create_cq = (\<lambda>d c n ch. (4, d)), ibv_req_notify_cq = (\<lambda>d c. (0, d)),
     ibv_get_cq_event = (\<lambda>d c. (0, 4, d)), ibv_reg_mr = (\<lambda>d p b n. (6, 60, 61, d)),
     ibv_create_qp = (\<lambda>d p c s. (5, 17, d)), ibv_modify_qp = (\<lambda>d q attr. (0, d)),
     ibv_post_send = (\<lambda>d q w. (0, d)), ibv_post_recv = (\<lambda>d q w. (0, d)),
     ibv_poll_cq = (\<lambda>d q. (0, \<lparr>wc_status = 0, wc_opcode_of = IBV_WC_SEND, wc_imm = 0\<rparr>, d)),
     ibv_destroy = (\<lambda>d h. (0, d)), posix_memalign = (\<lambda>d n. (0, 0x1000, d)), free_mem = (\<lambda>d b. d),
     clock_msec = (\<lambda>d. (0, d))\<rparr>"

end
