(* ===== verification/Ledger.thy ===== *)
theory Ledger
  imports Verbs
begin

text \<open>
  What a device promises about the objects it hands out, as far as RCL relies on it: a call that
  creates an object answers the null pointer and changes nothing, or answers the address of a
  new object; an object is destroyed only while nothing live still uses it (a completion channel
  under a completion queue, a protection domain under memory regions and queue pairs, a
  completion queue under queue pairs), otherwise the call fails with \<open>EBUSY\<close>. Nothing is said of
  destroying what is not live, nor of freeing what is not allocated: what is proved with these
  laws holds of code that does neither.
\<close>

section \<open>Live objects\<close>

record 'd ledger =
  lg_live :: "'d \<Rightarrow> nat set"
  lg_blocks :: "'d \<Rightarrow> u64 set"
  lg_uses :: "'d \<Rightarrow> nat \<Rightarrow> nat set"

definition kept :: "'d ledger \<Rightarrow> 'd \<Rightarrow> 'd \<Rightarrow> bool" where
  "kept G d d' \<longleftrightarrow> lg_live G d' = lg_live G d \<and> lg_blocks G d' = lg_blocks G d \<and> lg_uses G d' = lg_uses G d"

definition created :: "'d ledger \<Rightarrow> nat set \<Rightarrow> 'd \<Rightarrow> nat \<Rightarrow> 'd \<Rightarrow> bool" where
  "created G us d h d' \<longleftrightarrow> (if h = 0 then kept G d d'
     else h \<notin> lg_live G d \<and> lg_live G d' = insert h (lg_live G d) \<and> lg_blocks G d' = lg_blocks G d
       \<and> lg_uses G d' = (lg_uses G d)(h := us))"

definition busy :: "'d ledger \<Rightarrow> 'd \<Rightarrow> nat \<Rightarrow> bool" where
  "busy G d h \<longleftrightarrow> (\<exists>c \<in> lg_live G d. h \<in> lg_uses G d c)"

definition destroyed :: "'d ledger \<Rightarrow> 'd \<Rightarrow> nat \<Rightarrow> int \<Rightarrow> 'd \<Rightarrow> bool" where
  "destroyed G d h rc d' \<longleftrightarrow> (h \<in> lg_live G d \<longrightarrow>
     (if busy G d h then rc \<noteq> 0 \<and> kept G d d'
      else rc = 0 \<and> lg_live G d' = lg_live G d - {h} \<and> lg_blocks G d' = lg_blocks G d \<and> lg_uses G d' = lg_uses G d))"

definition allocated :: "'d ledger \<Rightarrow> 'd \<Rightarrow> int \<Rightarrow> u64 \<Rightarrow> 'd \<Rightarrow> bool" where
  "allocated G d rc b d' \<longleftrightarrow> (if rc \<noteq> 0 then kept G d d'
     else b \<noteq> 0 \<and> b \<notin> lg_blocks G d \<and> lg_blocks G d' = insert b (lg_blocks G d)
       \<and> lg_live G d' = lg_live G d \<and> lg_uses G d' = lg_uses G d)"

definition freed :: "'d ledger \<Rightarrow> 'd \<Rightarrow> u64 \<Rightarrow> 'd \<Rightarrow> bool" where
  "freed G d b d' \<longleftrightarrow> (b \<in> lg_blocks G d \<longrightarrow> lg_blocks G d' = lg_blocks G d - {b}
     \<and> lg_live G d' = lg_live G d \<and> lg_uses G d' = lg_uses G d)"

text \<open>The laws, call by call.\<close>

definition tracked :: "('d, 'm) verbs_scheme \<Rightarrow> 'd ledger \<Rightarrow> bool" where
  "tracked V G \<longleftrightarrow>
     (\<forall>d. kept G d (snd (ibv_get_device_list V d)))
   \<and> (\<forall>d c p. kept G d (snd (snd (ibv_query_port V d c p))))
   \<and> (\<forall>d c p i. kept G d (snd (snd (ibv_query_gid V d c p i))))
   \<and> (\<forall>d q. kept G d (snd (ibv_req_notify_cq V d q)))
   \<and> (\<forall>d q attr. kept G d (snd (ibv_modify_qp V d q attr)))
   \<and> (\<forall>d n. created G {} d (fst (ibv_open_device V d n)) (snd (ibv_open_device V d n)))
   \<and> (\<forall>d c. created G {} d (fst (ibv_create_comp_channel V d c)) (snd (ibv_create_comp_channel V d c)))
   \<and> (\<forall>d c. created G {} d (fst (ibv_alloc_pd V d c)) (snd (ibv_alloc_pd V d c)))
   \<and> (\<forall>d c n ch. created G ({ch} - {0}) d (fst (ibv_create_cq V d c n ch)) (snd (ibv_create_cq V d c n ch)))
   \<and> (\<forall>d pd b n. created G {pd} d (fst (ibv_reg_mr V d pd b n)) (snd (snd (snd (ibv_reg_mr V d pd b n)))))
   \<and> (\<forall>d pd cq s. created G {pd, cq} d (fst (ibv_create_qp V d pd cq s)) (snd (snd (ibv_create_qp V d pd cq s))))
   \<and> (\<forall>d h. destroyed G d h (fst (ibv_destroy V d h)) (snd (ibv_destroy V d h)))
   \<and> (\<forall>d n. allocated G d (fst (posix_memalign V d n)) (fst (snd (posix_memalign V d n))) (snd (snd (posix_memalign V d n))))
   \<and> (\<forall>d b. freed G d b (free_mem V d b))"

lemma tracked_calls:
  assumes "tracked V G"
  shows "ibv_get_device_list V d = (l, d') \<Longrightarrow> kept G d d'"
    and "ibv_query_port V d c p = (rc, lid, d') \<Longrightarrow> kept G d d'"
    and "ibv_query_gid V d c p i = (rc, gid, d') \<Longrightarrow> kept G d d'"
    and "ibv_req_notify_cq V d q = (rc, d') \<Longrightarrow> kept G d d'"
    and "ibv_modify_qp V d q attr = (rc, d') \<Longrightarrow> kept G d d'"
    and "ibv_open_device V d n = (h, d') \<Longrightarrow> created G {} d h d'"
    and "ibv_create_comp_channel V d c = (h, d') \<Longrightarrow> created G {} d h d'"
    and "ibv_alloc_pd V d c = (h, d') \<Longrightarrow> created G {} d h d'"
    and "ibv_create_cq V d c k ch = (h, d') \<Longrightarrow> created G ({ch} - {0}) d h d'"
    and "ibv_reg_mr V d pd b len = (h, lk, rk, d') \<Longrightarrow> created G {pd} d h d'"
    and "ibv_create_qp V d pd cq s = (h, qpn, d') \<Longrightarrow> created G {pd, cq} d h d'"
    and "ibv_destroy V d h = (rc, d') \<Longrightarrow> destroyed G d h rc d'"
    and "posix_memalign V d len = (rc, b, d') \<Longrightarrow> allocated G d rc b d'"
    and "freed G d b (free_mem V d b)"
  using assms by (metis tracked_def fst_conv snd_conv)+

lemma kept_refl [simp]: "kept G d d"
  by (simp add: kept_def)

lemma kept_eqs: "kept G d d' \<Longrightarrow> lg_live G d' = lg_live G d \<and> lg_blocks G d' = lg_blocks G d \<and> lg_uses G d' = lg_uses G d"
  by (simp add: kept_def)

lemma kept_trans: "kept G d d1 \<Longrightarrow> kept G d1 d2 \<Longrightarrow> kept G d d2"
  by (simp add: kept_def)

lemma created_null: "created G us d 0 d' \<longleftrightarrow> kept G d d'"
  by (simp add: created_def)

lemma createdD:
  assumes "created G us d h d'" and "h \<noteq> 0"
  shows "h \<notin> lg_live G d" and "lg_live G d' = insert h (lg_live G d)" and "lg_blocks G d' = lg_blocks G d"
    and "lg_uses G d' = (lg_uses G d)(h := us)"
  using assms by (simp_all add: created_def)

section \<open>What a program holds\<close>

text \<open>
  The objects \<open>U\<close> and blocks \<open>bs\<close> a program holds over what was live at \<open>d0\<close>: all new, all
  different, each using what it was created with; a null pointer in the list stands for nothing.
\<close>

definition holding :: "'d ledger \<Rightarrow> 'd \<Rightarrow> (nat \<times> nat set) list \<Rightarrow> u64 list \<Rightarrow> 'd \<Rightarrow> bool" where
  "holding G d0 U bs d \<longleftrightarrow>
     (let hs = filter (\<lambda>h. h \<noteq> 0) (map fst U) in
      distinct hs \<and> set hs \<inter> lg_live G d0 = {} \<and> lg_live G d = lg_live G d0 \<union> set hs)
   \<and> (\<forall>(h, us) \<in> set U. h \<noteq> 0 \<longrightarrow> lg_uses G d h = us) \<and> (\<forall>c \<in> lg_live G d0. lg_uses G d c = lg_uses G d0 c)
   \<and> 0 \<notin> set bs \<and> distinct bs \<and> set bs \<inter> lg_blocks G d0 = {} \<and> lg_blocks G d = lg_blocks G d0 \<union> set bs"

text \<open>At first nothing is live that uses what is not.\<close>

definition closed_ledger :: "'d ledger \<Rightarrow> 'd \<Rightarrow> bool" where
  "closed_ledger G d \<longleftrightarrow> (\<forall>c \<in> lg_live G d. lg_uses G d c \<subseteq> lg_live G d)"

lemma holding_start: "holding G d [] [] d"
  by (simp add: holding_def)

lemma holding_null: "holding G d0 (U1 @ (0, us) # U2) bs d \<longleftrightarrow> holding G d0 (U1 @ U2) bs d"
  by (auto simp: holding_def)

lemma holding_kept: "holding G d0 U bs d \<Longrightarrow> kept G d d' \<Longrightarrow> holding G d0 U bs d'"
  by (simp add: holding_def kept_def)

lemma holding_created:
  assumes "holding G d0 U bs d" and "created G us d h d'"
  shows "holding G d0 (U @ [(h, us)]) bs d'"
proof (cases "h = 0")
  case True
  with assms show ?thesis using holding_null [of G d0 U us "[]" bs] by (simp add: created_null holding_kept)
next
  case False
  note c = createdD [OF assms(2) False]
  have "c \<noteq> h" if "(c, vs) \<in> set U" "c \<noteq> 0" for c vs
  proof -
    have "c \<in> set (filter (\<lambda>h. h \<noteq> 0) (map fst U))" using that by force
    then show ?thesis using assms(1) c(1) by (auto simp: holding_def Let_def)
  qed
  then show ?thesis using assms(1) False c by (auto simp: holding_def Let_def)
qed

lemma holding_allocated:
  assumes "holding G d0 U bs d" and "allocated G d 0 b d'"
  shows "holding G d0 U (bs @ [b]) d'"
  using assms by (auto simp: holding_def allocated_def)

lemma holding_freed:
  assumes "holding G d0 U (bs1 @ b # bs2) d" and "freed G d b d'"
  shows "holding G d0 U (bs1 @ bs2) d'"
  using assms by (auto simp: holding_def freed_def)

text \<open>An object that no other one uses is given back; one that is used stays.\<close>

lemma holding_destroyed:
  assumes "closed_ledger G d0" and "holding G d0 (U1 @ (h, us) # U2) bs d" and "h \<noteq> 0"
    and "\<forall>(c, vs) \<in> set (U1 @ U2). c \<noteq> 0 \<longrightarrow> h \<notin> vs" and "h \<notin> us" and "destroyed G d h rc d'"
  shows "rc = 0 \<and> holding G d0 (U1 @ U2) bs d'"
proof -
  have live: "lg_live G d = lg_live G d0 \<union> {c. c \<noteq> 0 \<and> c \<in> fst ` set (U1 @ (h, us) # U2)}" "h \<notin> lg_live G d0"
    using assms(2,3) by (auto simp: holding_def Let_def)
  have uses: "\<forall>(c, vs) \<in> set (U1 @ (h, us) # U2). c \<noteq> 0 \<longrightarrow> lg_uses G d c = vs"
    "\<forall>c \<in> lg_live G d0. lg_uses G d c = lg_uses G d0 c"
    using assms(2) unfolding holding_def by blast+
  have "h \<notin> lg_uses G d c" if "c \<in> lg_live G d" for c
  proof (cases "c \<in> lg_live G d0")
    case True
    then show ?thesis using uses(2) live(2) assms(1) unfolding closed_ledger_def by blast
  next
    case False
    then have "c \<noteq> 0" "c \<in> fst ` set (U1 @ (h, us) # U2)" using that live(1) by blast+
    then obtain vs where vs: "(c, vs) \<in> set (U1 @ (h, us) # U2)" "c \<noteq> 0" by force
    then have "lg_uses G d c = vs" using uses(1) by blast
    moreover have "h \<notin> vs" using vs assms(4,5) by auto
    ultimately show ?thesis by simp
  qed
  then have "\<not> busy G d h" by (auto simp: busy_def)
  moreover have "h \<in> lg_live G d" using live assms(3) by auto
  ultimately have d': "rc = 0" "lg_live G d' = lg_live G d - {h}" "lg_blocks G d' = lg_blocks G d"
    "lg_uses G d' = lg_uses G d"
    using assms(6) by (simp_all add: destroyed_def)
  then show ?thesis using assms(2,3) live(2) by (auto simp: holding_def Let_def)
qed

lemma holding_destroy_busy:
  assumes "holding G d0 U bs d" and "(h, us) \<in> set U" and "h \<noteq> 0"
    and "(c, vs) \<in> set U" and "c \<noteq> 0" and "h \<in> vs" and "destroyed G d h rc d'"
  shows "rc \<noteq> 0 \<and> kept G d d'"
proof -
  have "set (filter (\<lambda>h. h \<noteq> 0) (map fst U)) \<subseteq> lg_live G d" using assms(1) by (simp add: holding_def Let_def)
  moreover have "c \<in> set (filter (\<lambda>h. h \<noteq> 0) (map fst U))" "h \<in> set (filter (\<lambda>h. h \<noteq> 0) (map fst U))"
    using assms(2-5) by force+
  moreover have "lg_uses G d c = vs" using assms(1,4,5) by (auto simp: holding_def)
  ultimately have "h \<in> lg_live G d" "busy G d h" using assms(6) unfolding busy_def by blast+
  then show ?thesis using assms(7) by (simp add: destroyed_def)
qed

lemma holding_live:
  "holding G d0 U bs d \<Longrightarrow> lg_live G d = lg_live G d0 \<union> (fst ` set U - {0})"
  "holding G d0 U bs d \<Longrightarrow> lg_blocks G d = lg_blocks G d0 \<union> set bs"
  by (auto simp: holding_def Let_def)

lemma holding_distinct: "holding G d0 U bs d \<Longrightarrow> distinct (filter (\<lambda>h. h \<noteq> 0) (map fst U))"
  by (simp add: holding_def Let_def)

lemma distinct_filter_nth:
  assumes "distinct (filter P xs)" and "i < length xs" and "j < length xs" and "i \<noteq> j" and "P (xs ! i)"
  shows "xs ! i \<noteq> xs ! j"
  using assms
proof (induction xs arbitrary: i j)
  case (Cons x xs)
  have "x \<notin> set xs" if "P x" using Cons.prems(1) that by simp
  with Cons show ?case by (cases i; cases j) (auto simp: nth_mem split: if_splits)
qed simp

lemma holding_differ:
  assumes "holding G d0 U bs d" and "fst (U ! i) \<noteq> 0" and "i < length U" and "j < length U" and "i \<noteq> j"
  shows "fst (U ! i) \<noteq> fst (U ! j)"
  using distinct_filter_nth [OF holding_distinct [OF assms(1)], of i j] assms(2-5) by simp

text \<open>Giving back an object or a block unless the pointer is null, whatever the call reports.\<close>

definition drop_handle :: "('d, 'm) verbs_scheme \<Rightarrow> nat \<Rightarrow> 'd \<Rightarrow> 'd" where
  "drop_handle V h d = (if h \<noteq> 0 then snd (ibv_destroy V d h) else d)"

definition drop_block :: "('d, 'm) verbs_scheme \<Rightarrow> u64 \<Rightarrow> 'd \<Rightarrow> 'd" where
  "drop_block V b d = (if b \<noteq> 0 then free_mem V d b else d)"

lemma created_kept:
  "kept G d d1 \<Longrightarrow> created G us d1 h d2 \<Longrightarrow> kept G d2 d3 \<Longrightarrow> created G us d h d3"
  by (auto simp: created_def kept_def split: if_splits)

lemma drop_handle_holding:
  assumes "tracked V G" and "closed_ledger G d0" and "holding G d0 (U1 @ (h, us) # U2) bs d"
    and "h \<noteq> 0 \<longrightarrow> (\<forall>(c, vs) \<in> set (U1 @ U2). c \<noteq> 0 \<longrightarrow> h \<notin> vs) \<and> h \<notin> us"
  shows "holding G d0 (U1 @ U2) bs (drop_handle V h d)"
proof (cases "h = 0")
  case True
  with assms(3) show ?thesis by (simp add: drop_handle_def holding_null)
next
  case False
  obtain r d' where call: "ibv_destroy V d h = (r, d')" by (metis surj_pair)
  from holding_destroyed [OF assms(2,3) False _ _ tracked_calls(12) [OF assms(1) call]] assms(4) False
  have "holding G d0 (U1 @ U2) bs d'" by blast
  with call False show ?thesis by (simp add: drop_handle_def)
qed

lemma drop_block_holding:
  assumes "tracked V G" and "holding G d0 U (bs1 @ b # bs2) d"
  shows "holding G d0 U (bs1 @ bs2) (drop_block V b d)"
proof -
  have "b \<noteq> 0" using assms(2) by (auto simp: holding_def)
  then show ?thesis
    using holding_freed [OF assms(2) tracked_calls(14) [OF assms(1)]] by (simp add: drop_block_def)
qed

section \<open>A device that keeps the ledger\<close>

text \<open>It holds its live objects, what each object uses, and its blocks; a new object is numbered
  above all live ones. Blocks are 4096 bytes apart, and it has room for four of them.\<close>

record ledger_state =
  ls_live :: "nat list"
  ls_uses :: "(nat \<times> nat list) list"
  ls_blocks :: "u64 list"

definition ls_used :: "ledger_state \<Rightarrow> nat \<Rightarrow> nat list" where
  "ls_used d h = (case map_of (ls_uses d) h of None \<Rightarrow> [] | Some us \<Rightarrow> us)"

definition ls_new :: "nat list \<Rightarrow> ledger_state \<Rightarrow> nat \<times> ledger_state" where
  "ls_new us d = (let h = Suc (sum_list (ls_live d)) in
     (h, d\<lparr>ls_live := h # ls_live d, ls_uses := (h, us) # ls_uses d\<rparr>))"

definition ls_block :: "ledger_state \<Rightarrow> int \<times> u64 \<times> ledger_state" where
  "ls_block d = (case filter (\<lambda>b. b \<notin> set (ls_blocks d)) [0x1000, 0x2000, 0x3000, 0x4000] of
     [] \<Rightarrow> (12, 0, d) | b # _ \<Rightarrow> (0, b, d\<lparr>ls_blocks := b # ls_blocks d\<rparr>))"

definition ls_destroy :: "nat \<Rightarrow> ledger_state \<Rightarrow> int \<times> ledger_state" where
  "ls_destroy h d = (if list_ex (\<lambda>c. h \<in> set (ls_used d c)) (ls_live d) then (16, d)
     else (0, d\<lparr>ls_live := removeAll h (ls_live d)\<rparr>))"

definition ledger_device :: "ledger_state verbs" where
  "ledger_device = still_device\<lparr>ibv_open_device := \<lambda>d n. ls_new [] d,
     ibv_create_comp_channel := \<lambda>d c. ls_new [] d, ibv_alloc_pd := \<lambda>d c. ls_new [] d,
     ibv_create_cq := \<lambda>d c n ch. ls_new (if ch = 0 then [] else [ch]) d,
     ibv_reg_mr := \<lambda>d pd b n. (let (h, d') = ls_new [pd] d in (h, word_of_nat h, word_of_nat (h + 1), d')),
     ibv_create_qp := \<lambda>d pd cq s. (let (h, d') = ls_new [pd, cq] d in (h, word_of_nat h, d')),
     ibv_destroy := \<lambda>d h. ls_destroy h d, posix_memalign := \<lambda>d n. ls_block d,
     free_mem := \<lambda>d b. d\<lparr>ls_blocks := removeAll b (ls_blocks d)\<rparr>\<rparr>"

definition ls_empty :: ledger_state where "ls_empty = \<lparr>ls_live = [], ls_uses = [], ls_blocks = []\<rparr>"

definition ls_ledger :: "ledger_state ledger" where
  "ls_ledger = \<lparr>lg_live = \<lambda>d. set (ls_live d), lg_blocks = \<lambda>d. set (ls_blocks d),
     lg_uses = \<lambda>d h. set (ls_used d h)\<rparr>"

lemma ls_new_created: "created ls_ledger (set us) d (fst (ls_new us d)) (snd (ls_new us d))"
proof -
  have "Suc (sum_list (ls_live d)) \<notin> set (ls_live d)"
    using member_le_sum_list [of "Suc (sum_list (ls_live d))" "ls_live d"] by auto
  then show ?thesis
    by (auto simp: created_def ls_new_def ls_ledger_def ls_used_def Let_def fun_eq_iff)
qed

lemma ls_destroy_destroyed: "destroyed ls_ledger d h (fst (ls_destroy h d)) (snd (ls_destroy h d))"
  by (auto simp: destroyed_def busy_def ls_destroy_def ls_ledger_def ls_used_def kept_def list_ex_iff)

lemma ls_block_allocated: "allocated ls_ledger d (fst (ls_block d)) (fst (snd (ls_block d))) (snd (snd (ls_block d)))"
proof (cases "filter (\<lambda>b. b \<notin> set (ls_blocks d)) [0x1000, 0x2000, 0x3000, 0x4000]")
  case Nil
  then show ?thesis by (simp add: allocated_def ls_block_def)
next
  case (Cons b bs)
  then have "b \<in> set (filter (\<lambda>b. b \<notin> set (ls_blocks d)) [0x1000, 0x2000, 0x3000, 0x4000])"
    by (metis list.set_intros(1))
  then have b: "b \<notin> set (ls_blocks d)" "b \<noteq> 0" by (auto split: if_splits)
  with Cons b show ?thesis
    by (simp add: allocated_def ls_block_def ls_ledger_def ls_used_def fun_eq_iff)
qed

theorem ledger_device_tracked: "tracked ledger_device ls_ledger"
proof -
  have null: "set us = {c} - {0}" if "us = (if c = 0 then [] else [c])" for us and c :: nat using that by auto
  have mr: "created ls_ledger {pd} d (fst (ls_new [pd] d)) (snd (ls_new [pd] d))" for d pd
    using ls_new_created [of "[pd]" d] by simp
  have qp: "created ls_ledger {pd, cq} d (fst (ls_new [pd, cq] d)) (snd (ls_new [pd, cq] d))" for d pd cq
    using ls_new_created [of "[pd, cq]" d] by simp
  have cq: "created ls_ledger ({ch} - {0}) d (fst (ls_new (if ch = 0 then [] else [ch]) d))
      (snd (ls_new (if ch = 0 then [] else [ch]) d))" for d ch
    using ls_new_created [of "if ch = 0 then [] else [ch]" d] null [OF refl, of ch] by simp
  have free: "freed ls_ledger d b (d\<lparr>ls_blocks := removeAll b (ls_blocks d)\<rparr>)" for d b
    by (simp add: freed_def ls_ledger_def ls_used_def fun_eq_iff)
  show ?thesis
    using ls_new_created [of "[]"] mr qp cq free ls_destroy_destroyed ls_block_allocated
    by (simp add: tracked_def ledger_device_def still_device_def split_beta Let_def)
qed

end
