(* ===== verification/Adapter.thy ===== *)
theory Adapter
  imports Verbs
begin

text \<open>
  \<open>NPRDMAdapter\<close> (networking\_service/src/rdma\_adapter.cpp): the work requests it posts, how it
  polls for completions, and how it connects a queue pair. \<open>MSG_BLOCK_NUM\<close> is 2 in every
  configuration, as nothing sets it.
\<close>

section \<open>State\<close>

record resources =
  r_port_lid :: u16
  r_remote :: cm_con_data
  r_ctx :: nat
  r_channel :: nat
  r_pd :: nat
  r_cq :: nat
  r_qp :: nat
  r_qp_num :: u32
  r_mr :: nat
  r_lkey :: u32
  r_rkey :: u32
  r_ctrl_mr :: nat
  r_ctrl_lkey :: u32
  r_buf :: u64
  r_ctrl_buf :: u64
  r_current_block :: int
  r_signal_all :: bool

definition con_zero :: cm_con_data where
  "con_zero = \<lparr>cd_addr = 0, cd_rkey = 0, cd_qp_num = 0, cd_lid = 0, cd_gid = replicate 16 0\<rparr>"

definition resources_zero :: resources where
  "resources_zero = \<lparr>r_port_lid = 0, r_remote = con_zero, r_ctx = 0, r_channel = 0, r_pd = 0,
     r_cq = 0, r_qp = 0, r_qp_num = 0, r_mr = 0, r_lkey = 0, r_rkey = 0, r_ctrl_mr = 0,
     r_ctrl_lkey = 0, r_buf = 0, r_ctrl_buf = 0, r_current_block = 0, r_signal_all = False\<rparr>"

record 'd adapter =
  acfg :: config
  res :: resources
  dev :: 'd

section \<open>Work requests\<close>

definition CTRL_SEND :: u64 where "CTRL_SEND = 0x0111000000000000"
definition CTRL_RECV :: u64 where "CTRL_RECV = 0x0333000000000000"
definition DATA_WRITE :: u64 where "DATA_WRITE = 0x0777000000000000"
definition DATA_READ :: u64 where "DATA_READ = 0x0888000000000000"

text \<open>An index past the blocks only prints a warning and is taken modulo their number.\<close>

definition norm_index :: "config \<Rightarrow> int \<Rightarrow> int" where
  "norm_index c index = (if index \<ge> MSG_BLOCK_NUM c then cmod index (MSG_BLOCK_NUM c) else index)"

definition ctrl_sge :: "'d adapter \<Rightarrow> int \<Rightarrow> sge" where
  "ctrl_sge a i = \<lparr>sge_addr = r_ctrl_buf (res a) + word_of_int (i * CTRL_MSG_SIZE (acfg a)),
     sge_length = word_of_int (CTRL_MSG_SIZE (acfg a)), sge_lkey = r_ctrl_lkey (res a)\<rparr>"

definition data_sge :: "'d adapter \<Rightarrow> int \<Rightarrow> int \<Rightarrow> sge" where
  "data_sge a i msg_size = \<lparr>sge_addr = r_buf (res a) + word_of_int (i * DATA_MSG_SIZE (acfg a)),
     sge_length = word_of_int msg_size, sge_lkey = r_lkey (res a)\<rparr>"

definition remote_slot :: "'d adapter \<Rightarrow> int \<Rightarrow> u64" where
  "remote_slot a i = cd_addr (r_remote (res a)) + word_of_int (i * DATA_MSG_SIZE (acfg a))"

definition ctrl_recv_wr :: "'d adapter \<Rightarrow> int \<Rightarrow> recv_wr" where
  "ctrl_recv_wr a index = (let i = norm_index (acfg a) index in
     \<lparr>rw_id = CTRL_RECV + word_of_int i, rw_sge = ctrl_sge a i\<rparr>)"

definition ctrl_send_wr :: "'d adapter \<Rightarrow> int \<Rightarrow> bool \<Rightarrow> send_wr" where
  "ctrl_send_wr a index dumb = (let i = norm_index (acfg a) index in
     \<lparr>sw_id = CTRL_SEND + word_of_int i, sw_sge = ctrl_sge a i, sw_opcode = IBV_WR_SEND,
      sw_signaled = (\<not> dumb), sw_inline = dumb, sw_imm = 0, sw_remote_addr = 0, sw_rkey = 0\<rparr>)"

definition data_read_wr :: "'d adapter \<Rightarrow> int \<Rightarrow> send_wr" where
  "data_read_wr a index = (let i = norm_index (acfg a) index in
     \<lparr>sw_id = DATA_READ + word_of_int i, sw_sge = data_sge a i (DATA_MSG_SIZE (acfg a)),
      sw_opcode = IBV_WR_RDMA_READ, sw_signaled = True, sw_inline = False, sw_imm = 0,
      sw_remote_addr = remote_slot a i, sw_rkey = cd_rkey (r_remote (res a))\<rparr>)"

text \<open>A size that is not positive stands for \<open>DATA_MSG_SIZE\<close>; a plain write is not signaled.\<close>

definition write_size :: "config \<Rightarrow> int \<Rightarrow> int" where
  "write_size c msg_size = (if msg_size \<le> 0 then DATA_MSG_SIZE c else msg_size)"

definition data_write_wr :: "'d adapter \<Rightarrow> int \<Rightarrow> int \<Rightarrow> send_wr" where
  "data_write_wr a index msg_size = (let i = norm_index (acfg a) index in
     \<lparr>sw_id = DATA_WRITE + word_of_int i, sw_sge = data_sge a i (write_size (acfg a) msg_size),
      sw_opcode = IBV_WR_RDMA_WRITE, sw_signaled = False, sw_inline = False, sw_imm = 0,
      sw_remote_addr = remote_slot a i, sw_rkey = cd_rkey (r_remote (res a))\<rparr>)"

definition data_write_imm_wr :: "'d adapter \<Rightarrow> int \<Rightarrow> int \<Rightarrow> int \<Rightarrow> send_wr" where
  "data_write_imm_wr a index imm msg_size = (let i = norm_index (acfg a) index in
     \<lparr>sw_id = DATA_WRITE + word_of_int i, sw_sge = data_sge a i (write_size (acfg a) msg_size),
      sw_opcode = IBV_WR_RDMA_WRITE_WITH_IMM, sw_signaled = True, sw_inline = False,
      sw_imm = word_of_int imm,
      sw_remote_addr = remote_slot a i, sw_rkey = cd_rkey (r_remote (res a))\<rparr>)"

section \<open>Posting\<close>

text \<open>A verbs call that does not return 0 is fatal.\<close>

definition do_post_send :: "'d verbs \<Rightarrow> send_wr \<Rightarrow> 'd adapter \<Rightarrow> (int \<times> 'd adapter) result" where
  "do_post_send V wr a =
     (let (rc, d) = ibv_post_send V (dev a) (r_qp (res a)) wr in
      if rc \<noteq> 0 then Inl LogFatal else Inr (0, a\<lparr>dev := d\<rparr>))"

definition post_ctrl_recv :: "'d verbs \<Rightarrow> int \<Rightarrow> 'd adapter \<Rightarrow> (int \<times> 'd adapter) result" where
  "post_ctrl_recv V index a =
     (let (rc, d) = ibv_post_recv V (dev a) (r_qp (res a)) (ctrl_recv_wr a index) in
      if rc \<noteq> 0 then Inl LogFatal else Inr (0, a\<lparr>dev := d\<rparr>))"

definition post_ctrl_send :: "'d verbs \<Rightarrow> int \<Rightarrow> bool \<Rightarrow> 'd adapter \<Rightarrow> (int \<times> 'd adapter) result" where
  "post_ctrl_send V index dumb a = do_post_send V (ctrl_send_wr a index dumb) a"

definition post_data_read :: "'d verbs \<Rightarrow> int \<Rightarrow> 'd adapter \<Rightarrow> (int \<times> 'd adapter) result" where
  "post_data_read V index a = do_post_send V (data_read_wr a index) a"

definition post_data_write :: "'d verbs \<Rightarrow> int \<Rightarrow> int \<Rightarrow> 'd adapter \<Rightarrow> (int \<times> 'd adapter) result" where
  "post_data_write V index msg_size a = do_post_send V (data_write_wr a index msg_size) a"

definition post_data_write_with_imm ::
  "'d verbs \<Rightarrow> int \<Rightarrow> int \<Rightarrow> int \<Rightarrow> 'd adapter \<Rightarrow> (int \<times> 'd adapter) result" where
  "post_data_write_with_imm V index imm msg_size a =
     do_post_send V (data_write_imm_wr a index imm msg_size) a"

text \<open>The two older calls work on \<open>MSG_SIZE\<close> bytes and only report a failure.\<close>

definition post_receive :: "'d verbs \<Rightarrow> 'd adapter \<Rightarrow> int \<times> 'd adapter" where
  "post_receive V a =
     (let wr = \<lparr>rw_id = word_of_int (r_current_block (res a)),
                rw_sge = \<lparr>sge_addr = r_buf (res a) + word_of_int (r_current_block (res a)),
                          sge_length = 1000, sge_lkey = r_lkey (res a)\<rparr>\<rparr>;
          (rc, d) = ibv_post_recv V (dev a) (r_qp (res a)) wr
      in (rc, a\<lparr>dev := d\<rparr>))"

definition post_send :: "'d verbs \<Rightarrow> wr_opcode \<Rightarrow> 'd adapter \<Rightarrow> int \<times> 'd adapter" where
  "post_send V opcode a =
     (let wr = \<lparr>sw_id = 0,
                sw_sge = \<lparr>sge_addr = r_buf (res a), sge_length = 1000, sge_lkey = r_lkey (res a)\<rparr>,
                sw_opcode = opcode, sw_signaled = True, sw_inline = False, sw_imm = 0,
                sw_remote_addr = (if opcode \<noteq> IBV_WR_SEND then cd_addr (r_remote (res a)) else 0),
                sw_rkey = (if opcode \<noteq> IBV_WR_SEND then cd_rkey (r_remote (res a)) else 0)\<rparr>;
          (rc, d) = ibv_post_send V (dev a) (r_qp (res a)) wr
      in (rc, a\<lparr>dev := d\<rparr>))"

section \<open>Polling\<close>

text \<open>\<open>peek_status\<close> polls once; 1 is "a completion with success".\<close>

definition peek_status :: "'d verbs \<Rightarrow> 'd adapter \<Rightarrow> (int \<times> wc \<times> 'd adapter) result" where
  "peek_status V a =
     (let (poll_result, wc, d) = ibv_poll_cq V (dev a) (r_cq (res a)) in
      if poll_result < 0 then Inl LogFatal
      else Inr (if poll_result = 0 \<or> wc_status wc \<noteq> 0 then 0 else 1, wc, a\<lparr>dev := d\<rparr>))"

text \<open>The loop of the three \<open>poll_completion\<close>: 20 milliseconds of the clock, at least one
  poll; the difference of two \<open>unsigned long\<close> wraps.\<close>

fun poll_loop :: "nat \<Rightarrow> 'd verbs \<Rightarrow> nat \<Rightarrow> u64 \<Rightarrow> 'd \<Rightarrow> (int \<times> wc \<times> 'd) result" where
  "poll_loop 0 V cq start d = Inl OutOfFuel"
| "poll_loop (Suc fuel) V cq start d =
     (let (poll_result, wc, d1) = ibv_poll_cq V d cq; (now, d2) = clock_msec V d1 in
      if poll_result = 0 \<and> now - start < 20 then poll_loop fuel V cq start d2
      else Inr (poll_result, wc, d2))"

definition poll_completion :: "nat \<Rightarrow> 'd verbs \<Rightarrow> 'd adapter \<Rightarrow> (int \<times> wc \<times> 'd adapter) result" where
  "poll_completion fuel V a =
     (let (start, d0) = clock_msec V (dev a) in
      bindR (poll_loop fuel V (r_cq (res a)) start d0) (\<lambda>(poll_result, wc, d).
        Inr (if poll_result \<le> 0 \<or> wc_status wc \<noteq> 0 then 1 else 0, wc, a\<lparr>dev := d\<rparr>)))"

section \<open>Connecting the queue pair\<close>

definition modify_qp_to_init :: "'d verbs \<Rightarrow> 'd adapter \<Rightarrow> int \<times> 'd adapter" where
  "modify_qp_to_init V a =
     (let (rc, d) = ibv_modify_qp V (dev a) (r_qp (res a))
        (qp_attr_zero\<lparr>qa_state := IBV_QPS_INIT, qa_port := ib_port (acfg a)\<rparr>)
      in (rc, a\<lparr>dev := d\<rparr>))"

definition rtr_attr :: "config \<Rightarrow> u32 \<Rightarrow> u16 \<Rightarrow> u8 list \<Rightarrow> qp_attr" where
  "rtr_attr c remote_qpn dlid dgid =
     (let attr = qp_attr_zero\<lparr>qa_state := IBV_QPS_RTR, qa_dest_qp_num := remote_qpn,
                    qa_dlid := dlid, qa_port := ib_port c\<rparr> in
      if gid_idx c \<ge> 0
      then attr\<lparr>qa_is_global := True, qa_port := 1, qa_dgid := dgid, qa_sgid_index := gid_idx c,
                qa_traffic_class := traffic_class c\<rparr>
      else attr)"

definition modify_qp_to_rtr :: "'d verbs \<Rightarrow> u32 \<Rightarrow> u16 \<Rightarrow> u8 list \<Rightarrow> 'd adapter \<Rightarrow> int \<times> 'd adapter" where
  "modify_qp_to_rtr V remote_qpn dlid dgid a =
     (let (rc, d) = ibv_modify_qp V (dev a) (r_qp (res a)) (rtr_attr (acfg a) remote_qpn dlid dgid)
      in (rc, a\<lparr>dev := d\<rparr>))"

definition modify_qp_to_rts :: "'d verbs \<Rightarrow> 'd adapter \<Rightarrow> int \<times> 'd adapter" where
  "modify_qp_to_rts V a =
     (let (rc, d) = ibv_modify_qp V (dev a) (r_qp (res a)) (qp_attr_zero\<lparr>qa_state := IBV_QPS_RTS\<rparr>)
      in (rc, a\<lparr>dev := d\<rparr>))"

definition local_con :: "'d adapter \<Rightarrow> u8 list \<Rightarrow> cm_con_data" where
  "local_con a gid = \<lparr>cd_addr = r_buf (res a), cd_rkey = r_rkey (res a),
     cd_qp_num = r_qp_num (res a), cd_lid = r_port_lid (res a), cd_gid = gid\<rparr>"

text \<open>
  The side channel is a parameter: \<open>sync local\<close> sends the bytes and answers the return code
  of \<open>sock_sync_data\<close> and the peer's bytes. A queue pair transition that fails is fatal; a gid
  that cannot be read is returned.
\<close>

definition connect_qp ::
  "'d verbs \<Rightarrow> (u8 list \<Rightarrow> 's \<Rightarrow> int \<times> u8 list \<times> 's) \<Rightarrow> 'd adapter \<Rightarrow> 's
    \<Rightarrow> (int \<times> 'd adapter \<times> 's) result" where
  "connect_qp V sync a0 s0 =
     (let (rc, my_gid, a) =
            (if gid_idx (acfg a0) \<ge> 0
             then let (rc, gid, d) = ibv_query_gid V (dev a0) (r_ctx (res a0)) (ib_port (acfg a0)) (gid_idx (acfg a0))
                  in (rc, gid, a0\<lparr>dev := d\<rparr>)
             else (0, replicate 16 0, a0)) in
      if rc \<noteq> 0 then Inr (rc, a, s0)
      else let (rc, tmp, s1) = sync (con_bytes (swap_con (local_con a my_gid))) s0 in
        if rc \<noteq> 0 then Inl LogFatal
        else let remote = swap_con (con_of_bytes tmp);
                 a1 = a\<lparr>res := (res a)\<lparr>r_remote := remote\<rparr>\<rparr>;
                 (rc, a2) = modify_qp_to_init V a1 in
          if rc \<noteq> 0 then Inl LogFatal
          else let (rc, a3) = modify_qp_to_rtr V (cd_qp_num remote) (cd_lid remote) (cd_gid remote) a2 in
            if rc \<noteq> 0 then Inl LogFatal
            else let (rc, a4) = modify_qp_to_rts V a3 in
              if rc \<noteq> 0 then Inl LogFatal
              else let (rc, tmp, s2) = sync [of_char CHR ''Q''] s1 in
                if rc \<noteq> 0 then Inl LogFatal else Inr (0, a4, s2))"

section \<open>Every work request stays inside the registered buffers\<close>

definition in_region :: "u64 \<Rightarrow> int \<Rightarrow> u64 \<Rightarrow> u32 \<Rightarrow> bool" where
  "in_region base len addr n \<longleftrightarrow>
     uint base \<le> uint addr \<and> uint addr + uint n \<le> uint base + len"

text \<open>What \<open>resources_create\<close> registers: \<open>MSG_BLOCK_NUM\<close> blocks of each size, which the
  address space holds, and the peer the same.\<close>

definition buffers_ok :: "'d adapter \<Rightarrow> bool" where
  "buffers_ok a \<longleftrightarrow> 0 < MSG_BLOCK_NUM (acfg a) \<and> 0 < DATA_MSG_SIZE (acfg a) \<and> 0 < CTRL_MSG_SIZE (acfg a)
     \<and> MSG_BLOCK_NUM (acfg a) * DATA_MSG_SIZE (acfg a) < 2 ^ 31
     \<and> MSG_BLOCK_NUM (acfg a) * CTRL_MSG_SIZE (acfg a) < 2 ^ 31
     \<and> uint (r_buf (res a)) + MSG_BLOCK_NUM (acfg a) * DATA_MSG_SIZE (acfg a) < 2 ^ 64
     \<and> uint (r_ctrl_buf (res a)) + MSG_BLOCK_NUM (acfg a) * CTRL_MSG_SIZE (acfg a) < 2 ^ 64
     \<and> uint (cd_addr (r_remote (res a))) + MSG_BLOCK_NUM (acfg a) * DATA_MSG_SIZE (acfg a) < 2 ^ 64"

lemma norm_index_range:
  assumes "0 \<le> index" and "0 < MSG_BLOCK_NUM c"
  shows "0 \<le> norm_index c index \<and> norm_index c index < MSG_BLOCK_NUM c"
  using assms by (simp add: norm_index_def)

lemma uint_of_int_small: "0 \<le> x \<Longrightarrow> x < 2 ^ LENGTH('a::len) \<Longrightarrow> uint (word_of_int x :: 'a word) = x"
  by (simp add: unsigned_of_int take_bit_int_eq_self)

lemma slot_in_region:
  assumes "0 \<le> i" and "i < N" and "0 < S" and "N * S < 2 ^ 31" and "uint base + N * S < 2 ^ 64"
    and "0 \<le> n" and "n \<le> S"
  shows "in_region base (N * S) (base + word_of_int (i * S)) (word_of_int n)"
proof -
  have iS: "0 \<le> i * S" "i * S + S \<le> N * S"
    using assms(1-3) mult_right_mono [of "i + 1" N S] by (simp_all add: algebra_simps)
  moreover have "n < 2 ^ 32" using assms(3,4,7) iS by simp
  moreover have "uint (base + word_of_int (i * S)) = uint base + i * S"
  proof -
    have "uint (word_of_int (i * S) :: u64) = i * S"
      using iS assms(3,4) by (intro uint_of_int_small) simp_all
    moreover have "uint base + i * S < 2 ^ 64" using iS assms(3,5) by linarith
    ultimately show ?thesis
      using iS(1) by (simp add: uint_word_ariths)
  qed
  ultimately show ?thesis using assms(6,7) by (simp add: in_region_def uint_of_int_small)
qed

lemma wr_fields:
  "sw_sge (data_write_wr a index n) = data_sge a (norm_index (acfg a) index) (write_size (acfg a) n)"
  "sw_sge (data_write_imm_wr a index imm n) = data_sge a (norm_index (acfg a) index) (write_size (acfg a) n)"
  "sw_sge (data_read_wr a index) = data_sge a (norm_index (acfg a) index) (DATA_MSG_SIZE (acfg a))"
  "sw_remote_addr (data_write_wr a index n) = remote_slot a (norm_index (acfg a) index)"
  "sw_remote_addr (data_write_imm_wr a index imm n) = remote_slot a (norm_index (acfg a) index)"
  "sw_remote_addr (data_read_wr a index) = remote_slot a (norm_index (acfg a) index)"
  "sw_sge (ctrl_send_wr a index dumb) = ctrl_sge a (norm_index (acfg a) index)"
  "rw_sge (ctrl_recv_wr a index) = ctrl_sge a (norm_index (acfg a) index)"
  "sge_addr (data_sge a i n) = r_buf (res a) + word_of_int (i * DATA_MSG_SIZE (acfg a))"
  "sge_length (data_sge a i n) = word_of_int n"
  "remote_slot a i = cd_addr (r_remote (res a)) + word_of_int (i * DATA_MSG_SIZE (acfg a))"
  "sge_addr (ctrl_sge a i) = r_ctrl_buf (res a) + word_of_int (i * CTRL_MSG_SIZE (acfg a))"
  "sge_length (ctrl_sge a i) = word_of_int (CTRL_MSG_SIZE (acfg a))"
  by (simp_all add: data_write_wr_def data_write_imm_wr_def data_read_wr_def ctrl_send_wr_def
      ctrl_recv_wr_def ctrl_sge_def data_sge_def remote_slot_def Let_def)


definition adapter_example :: "unit adapter" where
  "adapter_example = \<lparr>acfg = config_default,
     res = resources_zero\<lparr>r_buf := 0x1000, r_ctrl_buf := 0x9000, r_remote := con_zero\<lparr>cd_addr := 0x7000\<rparr>,
                          r_qp := 5, r_qp_num := 17\<rparr>,
     dev = ()\<rparr>"

lemma adapter_example_ok: "buffers_ok adapter_example"
  by (simp add: buffers_ok_def adapter_example_def config_default_def resources_zero_def)


section \<open>Connecting two queue pairs\<close>

text \<open>The transitions a device makes when asked to, and only in this order.\<close>

fun qp_step :: "qp_state \<Rightarrow> qp_state \<Rightarrow> bool" where
  "qp_step IBV_QPS_RESET IBV_QPS_INIT = True"
| "qp_step IBV_QPS_INIT IBV_QPS_RTR = True"
| "qp_step IBV_QPS_RTR IBV_QPS_RTS = True"
| "qp_step s t = False"

definition device_ok :: "'d verbs \<Rightarrow> ('d \<Rightarrow> nat \<Rightarrow> qp_state \<times> u32) \<Rightarrow> bool" where
  "device_ok V qps \<longleftrightarrow> (\<forall>d q attr.
     (fst (ibv_modify_qp V d q attr) = 0 \<longleftrightarrow> qp_step (fst (qps d q)) (qa_state attr))
     \<and> (fst (ibv_modify_qp V d q attr) = 0 \<longrightarrow>
       qps (snd (ibv_modify_qp V d q attr)) = (qps d)(q := (qa_state attr,
         if qa_state attr = IBV_QPS_RTR then qa_dest_qp_num attr else snd (qps d q)))))"

lemma device_okD:
  assumes "device_ok V qps" and "qp_step (fst (qps d q)) (qa_state attr)"
  obtains d' where "ibv_modify_qp V d q attr = (0, d')"
    "qps d' = (qps d)(q := (qa_state attr,
        if qa_state attr = IBV_QPS_RTR then qa_dest_qp_num attr else snd (qps d q)))"
proof (rule that [of "snd (ibv_modify_qp V d q attr)"])
  have z: "fst (ibv_modify_qp V d q attr) = 0" using assms by (simp add: device_ok_def)
  then show "ibv_modify_qp V d q attr = (0, snd (ibv_modify_qp V d q attr))" by (simp add: prod_eq_iff)
  show "qps (snd (ibv_modify_qp V d q attr)) = (qps d)(q := (qa_state attr,
        if qa_state attr = IBV_QPS_RTR then qa_dest_qp_num attr else snd (qps d q)))"
    using assms(1) z unfolding device_ok_def by simp
qed


text \<open>A device that does nothing but keep the states of its queue pairs.\<close>

definition qp_device :: "(nat \<Rightarrow> qp_state \<times> u32) verbs" where
  "qp_device = still_device\<lparr>ibv_modify_qp := (\<lambda>d q attr. if qp_step (fst (d q)) (qa_state attr)
        then (0, d(q := (qa_state attr, if qa_state attr = IBV_QPS_RTR then qa_dest_qp_num attr else snd (d q))))
        else (22, d))\<rparr>"

lemma qp_device_ok: "device_ok qp_device (\<lambda>d. d)"
  by (simp add: device_ok_def qp_device_def still_device_def)

definition fresh_adapter :: "u32 \<Rightarrow> u64 \<Rightarrow> (nat \<Rightarrow> qp_state \<times> u32) adapter" where
  "fresh_adapter qpn buf = \<lparr>acfg = config_default,
     res = resources_zero\<lparr>r_buf := buf, r_qp := 5, r_qp_num := qpn\<rparr>, dev = (\<lambda>q. (IBV_QPS_RESET, 0))\<rparr>"


end
