(* ===== verification/Resources.thy ===== *)
theory Resources
  imports Ledger Adapter
begin

text \<open>
  The life of the resources of an \<open>NPRDMAdapter\<close> (networking\_service/src/rdma\_adapter.cpp):
  the greeting that \<open>resources_init\<close> exchanges, what \<open>resources_create\<close> takes from the device, and
  what its clean-up and \<open>resources_destroy\<close> give back.
\<close>

section \<open>Operations\<close>

text \<open>The greeting is a buffer of 128 bytes, of which 48 are exchanged; its outcome is ignored.\<close>

definition greeting :: "config \<Rightarrow> u8 list result" where
  "greeting c = bindR (store (replicate 128 0) 0
     (map of_char (''[0] Greetings from '' @ local_ip c @ ''.'') @ [0])) (\<lambda>buf. Inr (take 48 buf))"

definition resources_init ::
  "(u8 list \<Rightarrow> 's \<Rightarrow> int \<times> u8 list \<times> 's) \<Rightarrow> 'd adapter \<Rightarrow> 's \<Rightarrow> ('d adapter \<times> 's) result" where
  "resources_init sync a s =
     bindR (greeting (acfg a)) (\<lambda>local. let (rc, remote, s') = sync local s in
       Inr (a\<lparr>res := resources_zero\<rparr>, s'))"

definition regisger_mem :: "'d verbs \<Rightarrow> nat \<Rightarrow> int \<Rightarrow> 'd \<Rightarrow> (nat \<times> u32 \<times> u32 \<times> u64 \<times> 'd) result" where
  "regisger_mem V pd buf_size d =
     (if buf_size \<le> 0 then Inl LogFatal
      else let (ret, buf, d1) = posix_memalign V d buf_size in
        if ret \<noteq> 0 then Inl LogFatal
        else let (mr, lkey, rkey, d2) = ibv_reg_mr V d1 pd buf buf_size in
          if mr = 0 then Inl LogFatal else Inr (mr, lkey, rkey, buf, d2))"

definition create_event_channel :: "'d verbs \<Rightarrow> 'd adapter \<Rightarrow> 'd adapter result" where
  "create_event_channel V a =
     (if use_event (acfg a)
      then let (ch, d) = ibv_create_comp_channel V (dev a) (r_ctx (res a)) in
        if ch = 0 then Inl LogFatal else Inr (a\<lparr>res := (res a)\<lparr>r_channel := ch\<rparr>, dev := d\<rparr>)
      else Inr (a\<lparr>res := (res a)\<lparr>r_channel := 0\<rparr>\<rparr>))"

text \<open>The device named in the configuration, opened, and its port queried.\<close>

definition open_named :: "'d verbs \<Rightarrow> 'd adapter \<Rightarrow> 'd adapter result" where
  "open_named V a =
     (let (dev_list, d1) = ibv_get_device_list V (dev a) in
      case dev_list of None \<Rightarrow> Inl LogFatal
      | Some names \<Rightarrow>
          if names = [] \<or> dev_name (acfg a) \<notin> set names then Inl LogFatal
          else let (ctx, d2) = ibv_open_device V d1 (dev_name (acfg a)) in
            if ctx = 0 then Inl LogFatal
            else let (rc, lid, d3) = ibv_query_port V d2 ctx (ib_port (acfg a)) in
              if rc \<noteq> 0 then Inl LogFatal
              else Inr (a\<lparr>res := (res a)\<lparr>r_ctx := ctx, r_port_lid := lid\<rparr>, dev := d3\<rparr>))"

definition alloc_queues :: "'d verbs \<Rightarrow> 'd adapter \<Rightarrow> 'd adapter result" where
  "alloc_queues V a =
     (let (pd, d1) = ibv_alloc_pd V (dev a) (r_ctx (res a)) in
      if pd = 0 then Inl LogFatal
      else let (cq, d2) = ibv_create_cq V d1 (r_ctx (res a)) 1024 (r_channel (res a)) in
        if cq = 0 then Inl LogFatal
        else let a2 = a\<lparr>res := (res a)\<lparr>r_pd := pd, r_cq := cq\<rparr>, dev := d2\<rparr> in
          if use_event (acfg a)
          then let (rc, d3) = ibv_req_notify_cq V d2 cq in
            if rc \<noteq> 0 then Inl LogFatal else Inr (a2\<lparr>dev := d3\<rparr>)
          else Inr a2)"

definition register_buffers :: "'d verbs \<Rightarrow> 'd adapter \<Rightarrow> 'd adapter result" where
  "register_buffers V a =
     (let c = acfg a; pd = r_pd (res a) in
      bindR (regisger_mem V pd (to_int32 (DATA_MSG_SIZE c * MSG_BLOCK_NUM c)) (dev a)) (\<lambda>(mr, lkey, rkey, buf, d1).
      bindR (regisger_mem V pd (to_int32 (CTRL_MSG_SIZE c * MSG_BLOCK_NUM c)) d1) (\<lambda>(cmr, clkey, crkey, cbuf, d2).
        Inr (a\<lparr>res := (res a)\<lparr>r_mr := mr, r_lkey := lkey, r_rkey := rkey, r_buf := buf,
                 r_ctrl_mr := cmr, r_ctrl_lkey := clkey, r_ctrl_buf := cbuf\<rparr>, dev := d2\<rparr>))))"

text \<open>What the data buffer holds then: zeros, and on the server the text of \<open>MSG\<close>.\<close>

definition MSG :: string where "MSG = ''SEND operation ''"

definition initial_data :: "config \<Rightarrow> u8 list result" where
  "initial_data c = (let buf = replicate (nat (to_int32 (DATA_MSG_SIZE c * MSG_BLOCK_NUM c))) 0 in
     if serve_as_client c then Inr buf else store buf 0 (map of_char MSG @ [0]))"

text \<open>Without a queue pair, some of what was created is given back; return codes are ignored.\<close>

definition clean_up :: "'d verbs \<Rightarrow> 'd adapter \<Rightarrow> 'd adapter" where
  "clean_up V a = (let r = res a in
     a\<lparr>res := r\<lparr>r_qp := 0, r_mr := 0, r_buf := 0, r_cq := 0, r_pd := 0, r_ctx := 0\<rparr>,
       dev := drop_handle V (r_ctx r) (drop_handle V (r_pd r) (drop_handle V (r_cq r)
         (drop_block V (r_buf r) (drop_handle V (r_mr r) (drop_handle V (r_qp r) (dev a))))))\<rparr>)"

text \<open>0 or 1, the contents of the data buffer, and the adapter.\<close>

definition resources_create :: "'d verbs \<Rightarrow> 'd adapter \<Rightarrow> (int \<times> u8 list \<times> 'd adapter) result" where
  "resources_create V a0 =
     bindR (open_named V a0) (\<lambda>a1. bindR (create_event_channel V a1) (\<lambda>a2.
     bindR (alloc_queues V a2) (\<lambda>a3. bindR (register_buffers V a3) (\<lambda>a4.
     bindR (initial_data (acfg a4)) (\<lambda>contents.
       let (qp, qp_num, d) = ibv_create_qp V (dev a4) (r_pd (res a4)) (r_cq (res a4)) (r_signal_all (res a4));
           a5 = a4\<lparr>res := (res a4)\<lparr>r_qp := qp, r_qp_num := qp_num\<rparr>, dev := d\<rparr>
       in if qp = 0 then Inr (1, contents, clean_up V a5) else Inr (0, contents, a5))))))"

text \<open>\<open>resources_destroy\<close> reports 1 when an object could not be destroyed and goes on.\<close>

definition give_back :: "'d verbs \<Rightarrow> nat \<Rightarrow> int \<times> 'd \<Rightarrow> int \<times> 'd" where
  "give_back V h s = (let (rc, d) = s in
     if h \<noteq> 0 then let (r, d') = ibv_destroy V d h in (if r \<noteq> 0 then 1 else rc, d') else s)"

definition resources_destroy :: "'d verbs \<Rightarrow> 'd adapter \<Rightarrow> int \<times> 'd adapter" where
  "resources_destroy V a =
     (let r = res a;
          (rc1, d1) = give_back V (r_ctrl_mr r) (give_back V (r_mr r) (give_back V (r_qp r) (0, dev a)));
          d2 = drop_block V (r_ctrl_buf r) (drop_block V (r_buf r) d1);
          (rc, d) = give_back V (r_ctx r) (give_back V (r_pd r) (give_back V (r_cq r) (rc1, d2)))
      in (rc, a\<lparr>dev := d\<rparr>))"

section \<open>What is live\<close>

text \<open>The objects and blocks of an adapter, in the order they are created.\<close>

definition objects :: "resources \<Rightarrow> (nat \<times> nat set) list" where
  "objects r = [(r_ctx r, {}), (r_channel r, {}), (r_pd r, {}), (r_cq r, {r_channel r} - {0}),
     (r_mr r, {r_pd r}), (r_ctrl_mr r, {r_pd r}), (r_qp r, {r_pd r, r_cq r})]"

definition blocks :: "resources \<Rightarrow> u64 list" where
  "blocks r = [r_buf r, r_ctrl_buf r]"

definition complete :: "resources \<Rightarrow> bool" where
  "complete r \<longleftrightarrow> r_ctx r \<noteq> 0 \<and> r_pd r \<noteq> 0 \<and> r_cq r \<noteq> 0 \<and> r_mr r \<noteq> 0 \<and> r_ctrl_mr r \<noteq> 0"

lemma open_named_created:
  assumes "tracked V G" and "open_named V a = Inr a'"
  shows "created G {} (dev a) (r_ctx (res a')) (dev a') \<and> r_ctx (res a') \<noteq> 0 \<and> acfg a' = acfg a
    \<and> (\<exists>ctx lid. res a' = (res a)\<lparr>r_ctx := ctx, r_port_lid := lid\<rparr>)"
proof -
  obtain l d1 ctx d2 rc lid d3 where calls: "ibv_get_device_list V (dev a) = (l, d1)"
    "ibv_open_device V d1 (dev_name (acfg a)) = (ctx, d2)" "ibv_query_port V d2 ctx (ib_port (acfg a)) = (rc, lid, d3)"
    by (metis surj_pair)
  with assms(2) have a': "a' = a\<lparr>res := (res a)\<lparr>r_ctx := ctx, r_port_lid := lid\<rparr>, dev := d3\<rparr>" "ctx \<noteq> 0"
    by (auto simp: open_named_def split: option.splits if_splits)
  have "created G {} (dev a) ctx d3"
    by (rule created_kept [OF tracked_calls(1) [OF assms(1) calls(1)] tracked_calls(6) [OF assms(1) calls(2)]
          tracked_calls(2) [OF assms(1) calls(3)]])
  with a' show ?thesis by auto
qed

lemma create_event_channel_created:
  assumes "tracked V G" and "create_event_channel V a = Inr a'"
  shows "created G {} (dev a) (r_channel (res a')) (dev a') \<and> acfg a' = acfg a
    \<and> (r_channel (res a') = 0 \<longleftrightarrow> \<not> use_event (acfg a)) \<and> (\<exists>ch. res a' = (res a)\<lparr>r_channel := ch\<rparr>)"
proof (cases "use_event (acfg a)")
  case True
  obtain ch d where call: "ibv_create_comp_channel V (dev a) (r_ctx (res a)) = (ch, d)" by (metis surj_pair)
  with True assms(2) have "a' = a\<lparr>res := (res a)\<lparr>r_channel := ch\<rparr>, dev := d\<rparr>" "ch \<noteq> 0"
    by (auto simp: create_event_channel_def split: if_splits)
  then show ?thesis using True tracked_calls(7) [OF assms(1) call] by auto
next
  case False
  with assms(2) have "a' = a\<lparr>res := (res a)\<lparr>r_channel := 0\<rparr>\<rparr>" by (auto simp: create_event_channel_def)
  with False show ?thesis by (auto simp: created_null)
qed

lemma alloc_queues_created:
  assumes "tracked V G" and "alloc_queues V a = Inr a'"
  shows "\<exists>d1. created G {} (dev a) (r_pd (res a')) d1
    \<and> created G ({r_channel (res a)} - {0}) d1 (r_cq (res a')) (dev a')
    \<and> r_pd (res a') \<noteq> 0 \<and> r_cq (res a') \<noteq> 0 \<and> acfg a' = acfg a
    \<and> (\<exists>pd cq. res a' = (res a)\<lparr>r_pd := pd, r_cq := cq\<rparr>)"
proof -
  obtain pd d1 cq d2 where calls: "ibv_alloc_pd V (dev a) (r_ctx (res a)) = (pd, d1)"
    "ibv_create_cq V d1 (r_ctx (res a)) 1024 (r_channel (res a)) = (cq, d2)" by (metis surj_pair)
  obtain rc d3 where notify: "ibv_req_notify_cq V d2 cq = (rc, d3)" by (metis surj_pair)
  obtain d where a': "a' = a\<lparr>res := (res a)\<lparr>r_pd := pd, r_cq := cq\<rparr>, dev := d\<rparr>" "d = d2 \<or> d = d3" "pd \<noteq> 0" "cq \<noteq> 0"
    using assms(2) calls notify by (auto simp: alloc_queues_def Let_def split: if_splits)
  have "kept G d2 d" using a'(2) tracked_calls(4) [OF assms(1) notify] by auto
  then have "created G ({r_channel (res a)} - {0}) d1 cq d"
    using created_kept [OF kept_refl tracked_calls(9) [OF assms(1) calls(2)]] by blast
  with a' tracked_calls(8) [OF assms(1) calls(1)] show ?thesis by auto
qed

lemma regisger_mem_created:
  assumes "tracked V G" and "regisger_mem V pd n d = Inr (mr, lkey, rkey, buf, d')"
  shows "\<exists>d1. allocated G d 0 buf d1 \<and> created G {pd} d1 mr d' \<and> mr \<noteq> 0"
proof -
  obtain rc b d1 where mem: "posix_memalign V d n = (rc, b, d1)" by (metis surj_pair)
  obtain m lk rk d2 where reg: "ibv_reg_mr V d1 pd b n = (m, lk, rk, d2)" by (metis surj_pair)
  show ?thesis
    using assms(2) mem reg tracked_calls(13) [OF assms(1) mem] tracked_calls(10) [OF assms(1) reg]
    by (auto simp: regisger_mem_def split: if_splits)
qed

lemma register_buffers_created:
  assumes "tracked V G" and "register_buffers V a = Inr a'"
  shows "\<exists>d1 d2 d3. allocated G (dev a) 0 (r_buf (res a')) d1 \<and> created G {r_pd (res a)} d1 (r_mr (res a')) d2
    \<and> allocated G d2 0 (r_ctrl_buf (res a')) d3 \<and> created G {r_pd (res a)} d3 (r_ctrl_mr (res a')) (dev a')
    \<and> r_mr (res a') \<noteq> 0 \<and> r_ctrl_mr (res a') \<noteq> 0 \<and> acfg a' = acfg a
    \<and> (\<exists>mr lk rk b cmr clk cb. res a' = (res a)\<lparr>r_mr := mr, r_lkey := lk, r_rkey := rk, r_buf := b,
                 r_ctrl_mr := cmr, r_ctrl_lkey := clk, r_ctrl_buf := cb\<rparr>)"
proof -
  let ?c = "acfg a" and ?pd = "r_pd (res a)"
  obtain mr lk rk b d1 cmr clk crk cb d2 where
    regs: "regisger_mem V ?pd (to_int32 (DATA_MSG_SIZE ?c * MSG_BLOCK_NUM ?c)) (dev a) = Inr (mr, lk, rk, b, d1)"
      "regisger_mem V ?pd (to_int32 (CTRL_MSG_SIZE ?c * MSG_BLOCK_NUM ?c)) d1 = Inr (cmr, clk, crk, cb, d2)"
    and a': "a' = a\<lparr>res := (res a)\<lparr>r_mr := mr, r_lkey := lk, r_rkey := rk, r_buf := b,
                 r_ctrl_mr := cmr, r_ctrl_lkey := clk, r_ctrl_buf := cb\<rparr>, dev := d2\<rparr>"
    using assms(2) by (auto simp: register_buffers_def bindR_eq_Inr_iff Let_def)
  obtain d3 d4 where "allocated G (dev a) 0 b d3" "created G {?pd} d3 mr d1" "mr \<noteq> 0"
    "allocated G d1 0 cb d4" "created G {?pd} d4 cmr d2" "cmr \<noteq> 0"
    using regisger_mem_created [OF assms(1) regs(1)] regisger_mem_created [OF assms(1) regs(2)] by blast
  then show ?thesis
    unfolding a' by (intro exI conjI) (simp, simp, simp, simp, simp_all del: neq0_conv bot_nat_0.not_eq_extremum)
qed

text \<open>Everything up to the queue pair, and the queue pair, which may be missing.\<close>

lemma resources_create_holding:
  assumes "tracked V G" and "resources_create V a0 = Inr (rc, contents, a)"
  obtains a5 where "holding G (dev a0) (objects (res a5)) (blocks (res a5)) (dev a5)" and "complete (res a5)"
    and "acfg a5 = acfg a0" and "r_channel (res a5) = 0 \<longleftrightarrow> \<not> use_event (acfg a0)"
    and "(rc, a) = (if r_qp (res a5) = 0 then (1, clean_up V a5) else (0, a5))"
    and "initial_data (acfg a0) = Inr contents"
proof -
  obtain a1 a2 a3 a4 c where steps: "open_named V a0 = Inr a1" "create_event_channel V a1 = Inr a2"
    "alloc_queues V a2 = Inr a3" "register_buffers V a3 = Inr a4" "initial_data (acfg a4) = Inr c"
    using assms(2) by (auto simp: resources_create_def bindR_eq_Inr_iff)
  obtain qp qpn d where qp: "ibv_create_qp V (dev a4) (r_pd (res a4)) (r_cq (res a4)) (r_signal_all (res a4)) = (qp, qpn, d)"
    by (metis surj_pair)
  define a5 where "a5 = a4\<lparr>res := (res a4)\<lparr>r_qp := qp, r_qp_num := qpn\<rparr>, dev := d\<rparr>"
  note s1 = open_named_created [OF assms(1) steps(1)]
  note s2 = create_event_channel_created [OF assms(1) steps(2)]
  obtain e1 where s3: "created G {} (dev a2) (r_pd (res a3)) e1"
    "created G ({r_channel (res a2)} - {0}) e1 (r_cq (res a3)) (dev a3)"
    "r_pd (res a3) \<noteq> 0" "r_cq (res a3) \<noteq> 0" "acfg a3 = acfg a2"
    "\<exists>pd cq. res a3 = (res a2)\<lparr>r_pd := pd, r_cq := cq\<rparr>"
    using alloc_queues_created [OF assms(1) steps(3)] by blast
  obtain e2 e3 e4 where s4: "allocated G (dev a3) 0 (r_buf (res a4)) e2" "created G {r_pd (res a3)} e2 (r_mr (res a4)) e3"
    "allocated G e3 0 (r_ctrl_buf (res a4)) e4" "created G {r_pd (res a3)} e4 (r_ctrl_mr (res a4)) (dev a4)"
    "r_mr (res a4) \<noteq> 0" "r_ctrl_mr (res a4) \<noteq> 0" "acfg a4 = acfg a3"
    "\<exists>mr lk rk b cmr clk cb. res a4 = (res a3)\<lparr>r_mr := mr, r_lkey := lk, r_rkey := rk, r_buf := b,
                 r_ctrl_mr := cmr, r_ctrl_lkey := clk, r_ctrl_buf := cb\<rparr>"
    using register_buffers_created [OF assms(1) steps(4)] by blast
  have fields: "r_ctx (res a5) = r_ctx (res a1)" "r_channel (res a5) = r_channel (res a2)"
    "r_pd (res a5) = r_pd (res a3)" "r_cq (res a5) = r_cq (res a3)" "r_mr (res a5) = r_mr (res a4)"
    "r_ctrl_mr (res a5) = r_ctrl_mr (res a4)" "r_buf (res a5) = r_buf (res a4)"
    "r_ctrl_buf (res a5) = r_ctrl_buf (res a4)" "r_qp (res a5) = qp" "dev a5 = d" "acfg a5 = acfg a4"
    using s2 s3(6) s4(8) by (auto simp: a5_def)
  have qpc: "created G {r_pd (res a3), r_cq (res a3)} (dev a4) qp d"
    using tracked_calls(11) [OF assms(1) qp] s4(8) by auto
  have "holding G (dev a0) (objects (res a5)) (blocks (res a5)) (dev a5)"
  proof -
    have h1: "holding G (dev a0) [(r_ctx (res a1), {})] [] (dev a1)"
      using holding_created [OF holding_start] s1 by fastforce
    have h2: "holding G (dev a0) [(r_ctx (res a1), {}), (r_channel (res a2), {})] [] (dev a2)"
      using holding_created [OF h1] s2 by fastforce
    note h3 = holding_created [OF h2 s3(1)]
    note h4 = holding_created [OF h3 s3(2)]
    note h5 = holding_created [OF holding_allocated [OF h4 s4(1)] s4(2)]
    note h6 = holding_created [OF holding_allocated [OF h5 s4(3)] s4(4)]
    note h7 = holding_created [OF h6 qpc]
    from h7 show ?thesis by (simp add: objects_def blocks_def fields)
  qed
  moreover have "(rc, a) = (if r_qp (res a5) = 0 then (1, clean_up V a5) else (0, a5))" "contents = c"
    using assms(2) steps qp by (auto simp: resources_create_def a5_def Let_def split: if_splits)
  ultimately show thesis
    using s1 s2 s3(3-5) s4(5-7) steps(5) fields by (intro that [of a5]) (auto simp: complete_def)
qed

section \<open>What is given back\<close>

lemma give_back_holding:
  assumes "tracked V G" and "closed_ledger G d0" and "holding G d0 (U1 @ (h, us) # U2) bs d"
    and "h \<noteq> 0 \<longrightarrow> (\<forall>(c, vs) \<in> set (U1 @ U2). c \<noteq> 0 \<longrightarrow> h \<notin> vs) \<and> h \<notin> us"
  obtains d' where "give_back V h (rc, d) = (rc, d')" and "holding G d0 (U1 @ U2) bs d'"
proof (cases "h = 0")
  case True
  with assms(3) that [of d] show thesis by (simp add: give_back_def holding_null)
next
  case False
  obtain r d' where call: "ibv_destroy V d h = (r, d')" by (metis surj_pair)
  from holding_destroyed [OF assms(2,3) False _ _ tracked_calls(12) [OF assms(1) call]] assms(4) False
  have "r = 0 \<and> holding G d0 (U1 @ U2) bs d'" by blast
  with call False that [of d'] show thesis by (simp add: give_back_def)
qed

text \<open>The objects of a complete adapter are different from each other.\<close>

lemma objects_differ:
  assumes "holding G d0 (objects r) bs d" and "complete r"
  shows "(r_qp r \<noteq> 0 \<longrightarrow> r_qp r \<notin> {r_pd r, r_cq r, r_channel r}) \<and> r_mr r \<notin> {r_pd r, r_cq r, r_channel r}
    \<and> r_ctrl_mr r \<notin> {r_pd r, r_cq r, r_channel r, r_mr r} \<and> r_cq r \<notin> {r_pd r, r_channel r}
    \<and> r_pd r \<noteq> r_channel r \<and> r_ctx r \<notin> {r_pd r, r_channel r, r_cq r}"
proof -
  note d = holding_differ [OF assms(1)]
  show ?thesis
    using assms(2) d [of 6 2] d [of 6 3] d [of 6 1] d [of 4 2] d [of 4 3] d [of 4 1] d [of 5 2] d [of 5 3]
      d [of 5 1] d [of 5 4] d [of 3 2] d [of 3 1] d [of 2 1] d [of 0 2] d [of 0 1] d [of 0 3]
    by (simp add: objects_def complete_def)
qed

text \<open>
  C35. When \<open>resources_create\<close> reports success, the adapter holds a context, a protection domain, a
  completion queue, two memory regions and a queue pair, all new and all different, each attached
  to the objects it was created on, a completion channel exactly when events are used, and two
  new buffers; nothing else has changed on the device.
\<close>

theorem resources_create_well_formed:
  assumes "tracked V G" and "resources_create V a0 = Inr (0, contents, a)"
  shows "holding G (dev a0) (objects (res a)) (blocks (res a)) (dev a) \<and> complete (res a) \<and> r_qp (res a) \<noteq> 0
    \<and> (r_channel (res a) = 0 \<longleftrightarrow> \<not> use_event (acfg a0))"
proof (rule resources_create_holding [OF assms])
  fix a5 assume a5: "holding G (dev a0) (objects (res a5)) (blocks (res a5)) (dev a5)" "complete (res a5)"
    "r_channel (res a5) = 0 \<longleftrightarrow> \<not> use_event (acfg a0)"
    "(0 :: int, a) = (if r_qp (res a5) = 0 then (1, clean_up V a5) else (0, a5))"
  from a5(4) have "r_qp (res a5) \<noteq> 0" "a = a5" by (auto split: if_splits)
  with a5(1-3) show ?thesis by simp
qed

lemma resources_destroy_holding:
  assumes "tracked V G" and "closed_ledger G d0" and "complete (res a)"
    and "holding G d0 (objects (res a)) (blocks (res a)) (dev a)"
  shows "\<exists>d. resources_destroy V a = (0, a\<lparr>dev := d\<rparr>) \<and> holding G d0 [(r_channel (res a), {})] [] d"
proof -
  let ?r = "res a"
  note differ = objects_differ [OF assms(4,3)]
  note nonzero = assms(3)[unfolded complete_def]
  let ?U = "[(r_ctx ?r, {}), (r_channel ?r, {}), (r_pd ?r, {}), (r_cq ?r, {r_channel ?r} - {0}),
     (r_mr ?r, {r_pd ?r}), (r_ctrl_mr ?r, {r_pd ?r})]"
  have h0: "holding G d0 (?U @ (r_qp ?r, {r_pd ?r, r_cq ?r}) # []) (blocks ?r) (dev a)"
    using assms(4) by (simp add: objects_def)
  obtain d1 where d1: "give_back V (r_qp ?r) (0, dev a) = (0, d1)" "holding G d0 (?U @ []) (blocks ?r) d1"
    by (rule give_back_holding [OF assms(1,2) h0]) (use differ nonzero in auto)
  let ?U = "[(r_ctx ?r, {}), (r_channel ?r, {}), (r_pd ?r, {}), (r_cq ?r, {r_channel ?r} - {0})]"
  have h1: "holding G d0 (?U @ (r_mr ?r, {r_pd ?r}) # [(r_ctrl_mr ?r, {r_pd ?r})]) (blocks ?r) d1"
    using d1(2) by simp
  obtain d2 where d2: "give_back V (r_mr ?r) (0, d1) = (0, d2)" "holding G d0 (?U @ [(r_ctrl_mr ?r, {r_pd ?r})]) (blocks ?r) d2"
    by (rule give_back_holding [OF assms(1,2) h1]) (use differ nonzero in auto)
  obtain d3 where d3: "give_back V (r_ctrl_mr ?r) (0, d2) = (0, d3)" "holding G d0 (?U @ []) (blocks ?r) d3"
    by (rule give_back_holding [OF assms(1,2) d2(2)]) (use differ nonzero in auto)
  define d4 where "d4 = drop_block V (r_ctrl_buf ?r) (drop_block V (r_buf ?r) d3)"
  have d4: "holding G d0 ([(r_ctx ?r, {}), (r_channel ?r, {}), (r_pd ?r, {})] @ (r_cq ?r, {r_channel ?r} - {0}) # []) [] d4"
    using drop_block_holding [OF assms(1), of _ _ "[]" _ "[]"]
      drop_block_holding [OF assms(1), of d0 ?U "[]" "r_buf ?r" "[r_ctrl_buf ?r]" d3] d3(2)
    by (simp add: d4_def blocks_def)
  obtain d5 where d5: "give_back V (r_cq ?r) (0, d4) = (0, d5)"
    "holding G d0 ([(r_ctx ?r, {}), (r_channel ?r, {}), (r_pd ?r, {})] @ []) [] d5"
    by (rule give_back_holding [OF assms(1,2) d4]) (use differ nonzero in auto)
  have h5: "holding G d0 ([(r_ctx ?r, {}), (r_channel ?r, {})] @ (r_pd ?r, {}) # []) [] d5" using d5(2) by simp
  obtain d6 where d6: "give_back V (r_pd ?r) (0, d5) = (0, d6)" "holding G d0 ([(r_ctx ?r, {}), (r_channel ?r, {})] @ []) [] d6"
    by (rule give_back_holding [OF assms(1,2) h5]) (use differ nonzero in auto)
  have h6: "holding G d0 ([] @ (r_ctx ?r, {}) # [(r_channel ?r, {})]) [] d6" using d6(2) by simp
  obtain d7 where d7: "give_back V (r_ctx ?r) (0, d6) = (0, d7)" "holding G d0 ([] @ [(r_channel ?r, {})]) [] d7"
    by (rule give_back_holding [OF assms(1,2) h6]) (use differ nonzero in auto)
  have "resources_destroy V a = (0, a\<lparr>dev := d7\<rparr>)"
    using d1(1) d2(1) d3(1) d5(1) d6(1) d7(1) by (simp add: resources_destroy_def d4_def)
  with d7(2) show ?thesis by auto
qed

text \<open>
  C25. What \<open>resources_create\<close> took, \<open>resources_destroy\<close> gives back without an error: afterwards
  the same objects and buffers are live as before, except that with events the completion channel
  is never destroyed and stays.
\<close>

theorem resources_destroy_gives_back:
  assumes "tracked V G" and "closed_ledger G (dev a0)" and "resources_create V a0 = Inr (0, contents, a)"
  shows "fst (resources_destroy V a) = 0
    \<and> lg_blocks G (dev (snd (resources_destroy V a))) = lg_blocks G (dev a0)
    \<and> lg_live G (dev (snd (resources_destroy V a)))
      = (if use_event (acfg a0) then insert (r_channel (res a)) (lg_live G (dev a0)) else lg_live G (dev a0))"
proof (rule resources_create_holding [OF assms(1,3)])
  fix a5 assume a5: "holding G (dev a0) (objects (res a5)) (blocks (res a5)) (dev a5)" "complete (res a5)"
    "r_channel (res a5) = 0 \<longleftrightarrow> \<not> use_event (acfg a0)"
    "(0 :: int, a) = (if r_qp (res a5) = 0 then (1, clean_up V a5) else (0, a5))"
  from a5(4) have a: "a = a5" by (auto split: if_splits)
  obtain d where d: "resources_destroy V a = (0, a\<lparr>dev := d\<rparr>)" "holding G (dev a0) [(r_channel (res a), {})] [] d"
    using resources_destroy_holding [OF assms(1,2)] a5(1,2) a by blast
  then show ?thesis using holding_live [OF d(2)] a5(3) a by auto
qed

text \<open>
  When the queue pair cannot be created, \<open>resources_create\<close> reports 1 but does not give back
  what it took: the control buffer and its memory region stay, and with it the protection domain,
  whose destruction fails while the region is attached to it but whose pointer is cleared; with
  events the completion channel stays as well.
\<close>

theorem failed_create_leaks:
  assumes "tracked V G" and "closed_ledger G (dev a0)" and "resources_create V a0 = Inr (1, contents, a)"
  shows "\<exists>pd. pd \<noteq> r_ctrl_mr (res a) \<and> {pd, r_ctrl_mr (res a)} \<inter> lg_live G (dev a0) = {} \<and> r_pd (res a) = 0
    \<and> lg_live G (dev a) = lg_live G (dev a0) \<union> {pd, r_ctrl_mr (res a)} \<union> ({r_channel (res a)} - {0})
    \<and> (r_channel (res a) = 0 \<longleftrightarrow> \<not> use_event (acfg a0))
    \<and> lg_blocks G (dev a) = insert (r_ctrl_buf (res a)) (lg_blocks G (dev a0))
    \<and> r_ctrl_buf (res a) \<notin> lg_blocks G (dev a0)"
proof (rule resources_create_holding [OF assms(1,3)])
  fix a5 assume a5: "holding G (dev a0) (objects (res a5)) (blocks (res a5)) (dev a5)" "complete (res a5)"
    "r_channel (res a5) = 0 \<longleftrightarrow> \<not> use_event (acfg a0)"
    "(1 :: int, a) = (if r_qp (res a5) = 0 then (1, clean_up V a5) else (0, a5))"
  from a5(4) have qp: "r_qp (res a5) = 0" and a: "a = clean_up V a5" by (auto split: if_splits)
  let ?r = "res a5"
  note differ = objects_differ [OF a5(1,2)]
  note nonzero = a5(2)[unfolded complete_def]
  let ?U = "[(r_ctx ?r, {}), (r_channel ?r, {}), (r_pd ?r, {}), (r_cq ?r, {r_channel ?r} - {0})]"
  have h1: "holding G (dev a0) (?U @ (r_mr ?r, {r_pd ?r}) # [(r_ctrl_mr ?r, {r_pd ?r})]) (blocks ?r) (dev a5)"
    using a5(1) qp holding_null [of G "dev a0" "?U @ [(r_mr ?r, {r_pd ?r}), (r_ctrl_mr ?r, {r_pd ?r})]" _ "[]"]
    by (simp add: objects_def)
  define d1 where "d1 = drop_block V (r_buf ?r) (drop_handle V (r_mr ?r) (dev a5))"
  have h2: "holding G (dev a0) (?U @ [(r_ctrl_mr ?r, {r_pd ?r})]) [r_ctrl_buf ?r] d1"
    using drop_block_holding [OF assms(1), of "dev a0" _ "[]"] drop_handle_holding [OF assms(1,2) h1] differ nonzero
    by (simp add: d1_def blocks_def)
  define d2 where "d2 = drop_handle V (r_cq ?r) d1"
  have h3: "holding G (dev a0) [(r_ctx ?r, {}), (r_channel ?r, {}), (r_pd ?r, {}), (r_ctrl_mr ?r, {r_pd ?r})] [r_ctrl_buf ?r] d2"
    using drop_handle_holding [OF assms(1,2), of "[(r_ctx ?r, {}), (r_channel ?r, {}), (r_pd ?r, {})]" "r_cq ?r"
        "{r_channel ?r} - {0}" "[(r_ctrl_mr ?r, {r_pd ?r})]" "[r_ctrl_buf ?r]" d1] h2 differ nonzero
    by (simp add: d2_def)
  define d3 where "d3 = drop_handle V (r_pd ?r) d2"
  have h4: "holding G (dev a0) ([] @ (r_ctx ?r, {}) # [(r_channel ?r, {}), (r_pd ?r, {}), (r_ctrl_mr ?r, {r_pd ?r})]) [r_ctrl_buf ?r] d3"
  proof -
    obtain rc d where call: "ibv_destroy V d2 (r_pd ?r) = (rc, d)" by (metis surj_pair)
    have "kept G d2 d"
      using holding_destroy_busy [OF h3, of "r_pd ?r" "{}" "r_ctrl_mr ?r" "{r_pd ?r}"] nonzero
        tracked_calls(12) [OF assms(1) call] by auto
    then show ?thesis using h3 call nonzero by (simp add: d3_def drop_handle_def holding_kept)
  qed
  have a_dev: "dev a = drop_handle V (r_ctx ?r) d3"
    using qp by (simp add: a clean_up_def Let_def d1_def d2_def d3_def drop_handle_def)
  have h5: "holding G (dev a0) [(r_channel ?r, {}), (r_pd ?r, {}), (r_ctrl_mr ?r, {r_pd ?r})] [r_ctrl_buf ?r] (dev a)"
    using drop_handle_holding [OF assms(1,2) h4] differ nonzero a_dev by simp
  have fields: "r_ctrl_mr (res a) = r_ctrl_mr ?r" "r_channel (res a) = r_channel ?r" "r_pd (res a) = 0"
    "r_ctrl_buf (res a) = r_ctrl_buf ?r"
    by (simp_all add: a clean_up_def Let_def)
  show ?thesis
    unfolding fields
  proof (intro exI [of _ "r_pd ?r"] conjI)
    show "lg_live G (dev a) = lg_live G (dev a0) \<union> {r_pd ?r, r_ctrl_mr ?r} \<union> ({r_channel ?r} - {0})"
    proof -
      have "fst ` set [(r_channel ?r, {}), (r_pd ?r, {}), (r_ctrl_mr ?r, {r_pd ?r})] - {0}
          = {r_pd ?r, r_ctrl_mr ?r} \<union> ({r_channel ?r} - {0})"
        using nonzero by auto
      then show ?thesis using holding_live(1) [OF h5] by (simp only: Un_assoc)
    qed
    show "{r_pd ?r, r_ctrl_mr ?r} \<inter> lg_live G (dev a0) = {}" "r_ctrl_buf ?r \<notin> lg_blocks G (dev a0)"
      using h5 nonzero by (auto simp: holding_def Let_def)
  qed (use differ a5(3) holding_live(2) [OF h5] in auto)
qed

section \<open>An adapter on the device that keeps the ledger\<close>

definition ledger_adapter :: "ledger_state adapter" where
  "ledger_adapter = \<lparr>acfg = config_default, res = resources_zero, dev = ls_empty\<rparr>"

definition no_qp_device :: "ledger_state verbs" where
  "no_qp_device = ledger_device\<lparr>ibv_create_qp := \<lambda>d pd cq s. (0, 0, d)\<rparr>"

lemma no_qp_device_tracked: "tracked no_qp_device ls_ledger"
  using ledger_device_tracked by (simp add: tracked_def no_qp_device_def created_null)

lemma ledger_adapter_closed: "closed_ledger ls_ledger (dev ledger_adapter)"
  by (simp add: closed_ledger_def ledger_adapter_def ls_empty_def ls_ledger_def)

lemmas create_defs = resources_create_def open_named_def create_event_channel_def alloc_queues_def
  register_buffers_def regisger_mem_def initial_data_def MSG_def store_def ledger_adapter_def config_default_def
  ledger_device_def still_device_def no_qp_device_def ls_new_def ls_block_def ls_empty_def resources_zero_def

lemma ledger_create:
  "\<exists>c a. resources_create ledger_device ledger_adapter = Inr (0, c, a)"
  "\<exists>c a. resources_create no_qp_device ledger_adapter = Inr (1, c, a)"
  by (simp_all add: create_defs to_int32_small Let_def)

theorem resources_create_well_formed_witness:
  "\<exists>contents a. resources_create ledger_device ledger_adapter = Inr (0, contents, a) \<and> r_qp (res a) \<noteq> 0
    \<and> holding ls_ledger ls_empty (objects (res a)) (blocks (res a)) (dev a)"
proof -
  obtain c a where create: "resources_create ledger_device ledger_adapter = Inr (0, c, a)" using ledger_create(1) by blast
  from resources_create_well_formed [OF ledger_device_tracked this] create show ?thesis
    by (auto simp: ledger_adapter_def)
qed

theorem resources_destroy_gives_back_witness:
  "\<exists>contents a. resources_create ledger_device ledger_adapter = Inr (0, contents, a)
    \<and> set (ls_live (dev (snd (resources_destroy ledger_device a)))) = {}"
proof -
  obtain c a where create: "resources_create ledger_device ledger_adapter = Inr (0, c, a)" using ledger_create(1) by blast
  from resources_destroy_gives_back [OF ledger_device_tracked ledger_adapter_closed this] create show ?thesis
    by (auto simp: ledger_adapter_def ls_ledger_def ls_empty_def config_default_def)
qed

theorem failed_create_leaks_witness:
  "\<exists>contents a. resources_create no_qp_device ledger_adapter = Inr (1, contents, a) \<and> set (ls_live (dev a)) \<noteq> {}"
proof -
  obtain c a where create: "resources_create no_qp_device ledger_adapter = Inr (1, c, a)" using ledger_create(2) by blast
  from failed_create_leaks [OF no_qp_device_tracked ledger_adapter_closed this] create show ?thesis
    by (auto simp: ls_ledger_def)
qed

end
