(* ===== verification/Session.thy ===== *)
theory Session
  imports Adapter
begin

text \<open>
  \<open>RDMASession\<close> (networking\_service/include/rdma\_session.h and src/rdma\_session.cpp): the
  control and data messages of a connection and the two benchmark loops that answer
  completions. The session's configuration is its adapter's.
\<close>

section \<open>Messages\<close>

definition pull_ctrl :: "'d verbs \<Rightarrow> int \<Rightarrow> 'd adapter \<Rightarrow> (int \<times> 'd adapter) result" where
  "pull_ctrl V index a = post_ctrl_recv V index a"

definition push_ctrl :: "'d verbs \<Rightarrow> int \<Rightarrow> 'd adapter \<Rightarrow> (int \<times> 'd adapter) result" where
  "push_ctrl V index a = post_ctrl_send V index False a"

definition pull_data :: "'d verbs \<Rightarrow> int \<Rightarrow> 'd adapter \<Rightarrow> (int \<times> 'd adapter) result" where
  "pull_data V index a = post_ctrl_send V index False a"

definition push_data :: "'d verbs \<Rightarrow> int \<Rightarrow> 'd adapter \<Rightarrow> (int \<times> 'd adapter) result" where
  "push_data V index a = post_data_write_with_imm V index (0xff00 + index) 0 a"

text \<open>The sliced \<open>push_data\<close>: all slices but the last as plain writes. A slice size of 0
  traps in the modulo.\<close>

fun push_slices :: "'d verbs \<Rightarrow> nat \<Rightarrow> int \<Rightarrow> int \<Rightarrow> 'd adapter \<Rightarrow> 'd adapter result" where
  "push_slices V 0 index sliced a = Inr a"
| "push_slices V (Suc n) index sliced a =
     bindR (post_data_write V index sliced a) (\<lambda>(rc, a'). push_slices V n index sliced a')"

definition push_data_sliced :: "'d verbs \<Rightarrow> int \<Rightarrow> int \<Rightarrow> 'd adapter \<Rightarrow> (int \<times> 'd adapter) result" where
  "push_data_sliced V index sliced a =
     (if sliced = 0 then Inl (Throw ''SIGFPE'')
      else if cmod (DATA_MSG_SIZE (acfg a)) sliced \<noteq> 0 then Inl LogFatal
      else bindR (push_slices V (nat (cdiv (DATA_MSG_SIZE (acfg a)) sliced - 1)) index sliced a)
        (\<lambda>a'. post_data_write_with_imm V index (0x7700 + index) sliced a'))"

text \<open>With the event channel, every status query first waits for a completion event of this
  session's queue and asks for the next.\<close>

definition wait_event :: "'d verbs \<Rightarrow> 'd adapter \<Rightarrow> 'd adapter result" where
  "wait_event V a =
     (if use_event (acfg a)
      then let (rc, ev_cq, d) = ibv_get_cq_event V (dev a) (r_channel (res a)) in
        if rc \<noteq> 0 then Inl LogFatal
        else if ev_cq \<noteq> r_cq (res a) then Inl LogFatal
        else let (rc, d') = ibv_req_notify_cq V d (r_cq (res a)) in
          if rc \<noteq> 0 then Inl LogFatal else Inr (a\<lparr>dev := d'\<rparr>)
      else Inr a)"

definition query_status :: "nat \<Rightarrow> 'd verbs \<Rightarrow> 'd adapter \<Rightarrow> (int \<times> wc \<times> 'd adapter) result" where
  "query_status fuel V a = bindR (wait_event V a) (poll_completion fuel V)"

definition sess_peek_status :: "'d verbs \<Rightarrow> 'd adapter \<Rightarrow> (int \<times> wc \<times> 'd adapter) result" where
  "sess_peek_status V a = bindR (wait_event V a) (peek_status V)"

section \<open>The completion handlers\<close>

text \<open>What each handler does, in order.\<close>

datatype action = PullCtrl int | PushCtrl int | PushData int

fun do_action :: "'d verbs \<Rightarrow> action \<Rightarrow> 'd adapter \<Rightarrow> (int \<times> 'd adapter) result" where
  "do_action V (PullCtrl i) a = pull_ctrl V i a"
| "do_action V (PushCtrl i) a = push_ctrl V i a"
| "do_action V (PushData i) a = push_data V i a"

fun do_actions :: "'d verbs \<Rightarrow> action list \<Rightarrow> 'd adapter \<Rightarrow> 'd adapter result" where
  "do_actions V [] a = Inr a"
| "do_actions V (x # xs) a = bindR (do_action V x a) (\<lambda>(rc, a'). do_actions V xs a')"

fun recv_side_actions :: "wc_opcode \<Rightarrow> action list" where
  "recv_side_actions IBV_WC_RECV_RDMA_WITH_IMM = [PullCtrl 1, PushCtrl 0]"
| "recv_side_actions op = []"

fun send_side_actions :: "wc_opcode \<Rightarrow> action list" where
  "send_side_actions IBV_WC_RECV = [PullCtrl 0, PushData 0]"
| "send_side_actions IBV_WC_RECV_RDMA_WITH_IMM = [PullCtrl 0, PushData 0]"
| "send_side_actions op = []"

text \<open>One pass of the loops; a failed query is only reported.\<close>

definition side_step ::
  "(wc_opcode \<Rightarrow> action list) \<Rightarrow> nat \<Rightarrow> 'd verbs \<Rightarrow> 'd adapter \<Rightarrow> 'd adapter result" where
  "side_step acts fuel V a =
     bindR (query_status fuel V a) (\<lambda>(rc, wc, a').
       if rc \<noteq> 0 then Inr a' else do_actions V (acts (wc_opcode_of wc)) a')"

text \<open>What both sides do before their loops: a receive is posted between two barriers, and the
  sender then pushes the first block. \<open>sync\<close> answers the return code of
  \<open>sock_sync_data\<close> for one byte.\<close>

definition sync_data :: "('s \<Rightarrow> int \<times> 's) \<Rightarrow> 's \<Rightarrow> 's result" where
  "sync_data sync s = (let (rc, s') = sync s in if rc \<noteq> 0 then Inl LogFatal else Inr s')"

definition tests_setup ::
  "'d verbs \<Rightarrow> ('s \<Rightarrow> int \<times> 's) \<Rightarrow> 'd adapter \<Rightarrow> 's \<Rightarrow> ('d adapter \<times> 's) result" where
  "tests_setup V sync a s =
     bindR (sync_data sync s) (\<lambda>s1.
     bindR (pull_ctrl V 0 a) (\<lambda>(rc, a1).
     bindR (sync_data sync s1) (\<lambda>s2. Inr (a1, s2))))"

definition run_tests_recv_side ::
  "nat \<Rightarrow> 'd verbs \<Rightarrow> ('s \<Rightarrow> int \<times> 's) \<Rightarrow> nat \<Rightarrow> 'd adapter \<Rightarrow> 's \<Rightarrow> ('d adapter \<times> 's) result" where
  "run_tests_recv_side fuel V sync passes a s =
     bindR (tests_setup V sync a s) (\<lambda>(a1, s1).
     bindR (((\<lambda>m. bindR m (side_step recv_side_actions fuel V)) ^^ passes) (Inr a1)) (\<lambda>a2. Inr (a2, s1)))"

definition run_tests_send_side ::
  "nat \<Rightarrow> 'd verbs \<Rightarrow> ('s \<Rightarrow> int \<times> 's) \<Rightarrow> nat \<Rightarrow> 'd adapter \<Rightarrow> 's \<Rightarrow> ('d adapter \<times> 's) result" where
  "run_tests_send_side fuel V sync passes a s =
     bindR (tests_setup V sync a s) (\<lambda>(a1, s1).
     bindR (push_data V 0 a1) (\<lambda>(rc, a2).
     bindR (((\<lambda>m. bindR m (side_step send_side_actions fuel V)) ^^ passes) (Inr a2)) (\<lambda>a3. Inr (a3, s1))))"

section \<open>The slices of a block\<close>

text \<open>A device that accepts every send and keeps the posted requests.\<close>

definition sends_logged :: "'d verbs \<Rightarrow> ('d \<Rightarrow> send_wr list) \<Rightarrow> bool" where
  "sends_logged V log \<longleftrightarrow> (\<forall>d q wr. fst (ibv_post_send V d q wr) = 0
     \<and> log (snd (ibv_post_send V d q wr)) = log d @ [wr])"

lemma do_post_send_logged:
  assumes "sends_logged V log"
  obtains d where "do_post_send V wr a = Inr (0, a\<lparr>dev := d\<rparr>)" "log d = log (dev a) @ [wr]"
  using assms that [of "snd (ibv_post_send V (dev a) (r_qp (res a)) wr)"]
  by (simp add: sends_logged_def do_post_send_def split_beta)

lemma data_write_wr_dev [simp]:
  "data_write_wr (a\<lparr>dev := d\<rparr>) = data_write_wr a"
  "data_write_imm_wr (a\<lparr>dev := d\<rparr>) = data_write_imm_wr a"
  by (simp_all add: fun_eq_iff data_write_wr_def data_write_imm_wr_def data_sge_def remote_slot_def)

lemma push_slices_logged:
  assumes "sends_logged V log"
  shows "\<exists>d. push_slices V n index sliced a = Inr (a\<lparr>dev := d\<rparr>)
    \<and> log d = log (dev a) @ replicate n (data_write_wr a index sliced)"
proof (induction n arbitrary: a)
  case 0
  then show ?case by (intro exI [of _ "dev a"]) simp
next
  case (Suc n)
  obtain d where d: "do_post_send V (data_write_wr a index sliced) a = Inr (0, a\<lparr>dev := d\<rparr>)"
    "log d = log (dev a) @ [data_write_wr a index sliced]"
    using do_post_send_logged [OF assms] .
  with Suc [of "a\<lparr>dev := d\<rparr>"] show ?case by (auto simp: post_data_write_def)
qed

text \<open>
  The sliced push of a block posts the right number of writes but every one of them at the
  start of the block's slot: only the first slice of the peer's block is ever written.
\<close>

theorem sliced_push_writes_one_slice:
  assumes "sends_logged V log" and "0 < sliced" and "sliced * int n = DATA_MSG_SIZE (acfg a)" and "0 < n"
  shows "\<exists>d wrs. push_data_sliced V index sliced a = Inr (0, a\<lparr>dev := d\<rparr>)
    \<and> log d = log (dev a) @ wrs \<and> length wrs = n
    \<and> (\<forall>wr \<in> set wrs. sw_remote_addr wr = remote_slot a (norm_index (acfg a) index)
         \<and> sge_length (sw_sge wr) = word_of_int sliced)
    \<and> sw_opcode (last wrs) = IBV_WR_RDMA_WRITE_WITH_IMM"
proof -
  let ?S = "DATA_MSG_SIZE (acfg a)"
  have "0 < ?S" using assms(2-4) by (metis of_nat_0_less_iff zero_less_mult_iff)
  moreover have "?S div sliced = int n" "?S mod sliced = 0"
    unfolding assms(3) [symmetric] using assms(2) by simp_all
  ultimately have q: "nat (cdiv ?S sliced - 1) = n - 1" "cmod ?S sliced = 0"
    using assms(2) by (simp_all add: nat_diff_distrib')
  obtain d1 where d1: "push_slices V (n - 1) index sliced a = Inr (a\<lparr>dev := d1\<rparr>)"
    "log d1 = log (dev a) @ replicate (n - 1) (data_write_wr a index sliced)"
    using push_slices_logged [OF assms(1)] by blast
  let ?w = "data_write_imm_wr a index (0x7700 + index) sliced"
  obtain d where d: "do_post_send V ?w (a\<lparr>dev := d1\<rparr>) = Inr (0, a\<lparr>dev := d\<rparr>)" "log d = log d1 @ [?w]"
    by (rule do_post_send_logged [OF assms(1), of ?w "a\<lparr>dev := d1\<rparr>"]) simp
  have "push_data_sliced V index sliced a = Inr (0, a\<lparr>dev := d\<rparr>)"
    using assms(2) q d1(1) d(1) by (simp add: push_data_sliced_def post_data_write_with_imm_def)
  moreover have "write_size (acfg a) sliced = sliced" using assms(2) by (simp add: write_size_def)
  ultimately show ?thesis using assms(4) d(2) d1(2)
    by (intro exI [of _ d] exI [of _ "replicate (n - 1) (data_write_wr a index sliced) @ [?w]"])
      (auto simp: data_write_wr_def data_write_imm_wr_def data_sge_def Let_def)
qed

definition logging_device :: "send_wr list verbs" where
  "logging_device = still_device\<lparr>ibv_post_send := (\<lambda>d q w. (0, d @ [w]))\<rparr>"

definition logging_adapter :: "send_wr list adapter" where
  "logging_adapter = \<lparr>acfg = config_default, res = resources_zero, dev = []\<rparr>"

theorem sliced_push_writes_one_slice_witness:
  "\<exists>d. push_data_sliced logging_device 0 50 logging_adapter = Inr (0, logging_adapter\<lparr>dev := d\<rparr>)
    \<and> length d = 20 \<and> (\<forall>wr \<in> set d. sw_remote_addr wr = remote_slot logging_adapter 0)"
proof -
  have "sends_logged logging_device (\<lambda>d. d)" by (simp add: sends_logged_def logging_device_def still_device_def)
  from sliced_push_writes_one_slice [OF this, of 50 20 logging_adapter 0]
  show ?thesis by (auto simp: logging_adapter_def config_default_def norm_index_def)
qed

end
