(* ===== verification/Ring.thy ===== *)
theory Ring
  imports CString
begin

text \<open>
  The ring topology: \<open>NetworkingService::get_neighboring_node\<close>
  (networking\_service/include/network\_service.h). Every node knows the sorted addresses of the
  other nodes (\<open>Config::cluster\<close>) and its own.
\<close>

text \<open>The loop that stops at the first address after this node's; the empty string when there is
  none, as \<open>next_hop\<close> keeps its initial value.\<close>

fun first_after :: "string \<Rightarrow> string list \<Rightarrow> string" where
  "first_after this_ip [] = ''''"
| "first_after this_ip (each_node # rest) =
     (if this_ip < each_node then each_node else first_after this_ip rest)"

definition get_neighboring_node :: "string \<Rightarrow> string list \<Rightarrow> string result" where
  "get_neighboring_node this_ip cluster =
     (let next_hop = first_after this_ip cluster in
      if length next_hop = 0 \<and> length cluster \<noteq> 0 then at cluster 0
      else if length cluster = 0 then Inl LogFatal
      else Inr next_hop)"

text \<open>What the cluster of node \<open>a\<close> is, when \<open>ns\<close> are all the nodes.\<close>

definition peers :: "string list \<Rightarrow> string \<Rightarrow> string list" where
  "peers ns a = filter (\<lambda>b. b \<noteq> a) ns"

lemma first_after_append:
  "\<forall>b \<in> set xs. \<not> this_ip < b \<Longrightarrow> first_after this_ip (xs @ ys) = first_after this_ip ys"
  by (induction xs) auto

lemma sorted_distinct_less:
  "sorted xs \<Longrightarrow> distinct xs \<Longrightarrow> i < j \<Longrightarrow> j < length xs \<Longrightarrow> xs ! i < (xs ! j :: 'a :: linorder)"
  by (metis less_trans nat_neq_iff nth_eq_iff_index_eq order_le_less sorted_iff_nth_mono_less)

lemma peers_mid: "a \<notin> set xs \<Longrightarrow> a \<notin> set ys \<Longrightarrow> peers (xs @ a # ys) a = xs @ ys"
  unfolding peers_def
  by (subst filter_append) (simp, intro arg_cong2 [of _ _ _ _ append] filter_True, auto)

lemma peers_split:
  assumes "distinct ns" and "i < length ns"
  shows "peers ns (ns ! i) = take i ns @ drop (Suc i) ns"
proof -
  have ns: "ns = take i ns @ ns ! i # drop (Suc i) ns" using assms(2) by (rule id_take_nth_drop)
  then have "distinct (take i ns @ ns ! i # drop (Suc i) ns)" using assms(1) by simp
  then have "peers (take i ns @ ns ! i # drop (Suc i) ns) (ns ! i) = take i ns @ drop (Suc i) ns"
    by (intro peers_mid) auto
  then show ?thesis by (simp add: ns [symmetric])
qed

lemma length_peers: "distinct ns \<Longrightarrow> i < length ns \<Longrightarrow> length (peers ns (ns ! i)) = length ns - 1"
  by (simp add: peers_split)

lemma peers_simps [simp]:
  "set (peers ns a) = set ns - {a}"
  "distinct ns \<Longrightarrow> distinct (peers ns a)"
  "sorted ns \<Longrightarrow> sorted (peers ns a)"
  by (auto simp: peers_def sorted_filter [of id, simplified])

lemma sort_snoc_peers:
  assumes "sorted ns" and "distinct ns" and "a \<in> set ns"
  shows "sort (peers ns a @ [a]) = ns"
proof -
  obtain i where i: "i < length ns" "a = ns ! i" using assms(3) by (auto simp: in_set_conv_nth)
  have "mset ns = mset (take i ns @ ns ! i # drop (Suc i) ns)" using id_take_nth_drop [OF i(1)] by simp
  then have "mset (peers ns a @ [a]) = mset ns" using i by (simp add: peers_split [OF assms(2)])
  then show ?thesis using assms(1) by (metis properties_for_sort)
qed

lemma next_hop_eq:
  assumes "sorted ns" and "distinct ns" and "i < length ns" and "2 \<le> length ns"
  shows "get_neighboring_node (ns ! i) (peers ns (ns ! i)) = Inr (ns ! (Suc i mod length ns))"
proof -
  have below: "\<forall>b \<in> set (take i ns). \<not> ns ! i < b"
    using assms(1,3) by (auto simp: in_set_conv_nth not_less sorted_iff_nth_mono)
  note split = peers_split [OF assms(2,3)]
  show ?thesis
  proof (cases "Suc i < length ns")
    case True
    have d: "drop (Suc i) ns = ns ! Suc i # drop (Suc (Suc i)) ns"
      using True by (simp add: Cons_nth_drop_Suc)
    have less: "ns ! i < ns ! Suc i" using assms True by (intro sorted_distinct_less) auto
    then have "ns ! Suc i \<noteq> ''''" by auto
    with less True show ?thesis
      by (simp add: get_neighboring_node_def Let_def split first_after_append [OF below] d)
  next
    case False
    with assms(3) have i: "Suc i = length ns" by simp
    with assms(4) have pos: "0 < i" by simp
    have "first_after (ns ! i) (take i ns) = ''''"
      using first_after_append [OF below, of "[]"] by simp
    moreover have "Suc i mod length ns = 0" using i by simp
    ultimately show ?thesis using i pos assms(3)
      by (simp add: get_neighboring_node_def Let_def split)
  qed
qed

text \<open>Following the next hops from node \<open>a\<close>: the addresses visited in \<open>k\<close> hops.\<close>

fun hops :: "string list \<Rightarrow> nat \<Rightarrow> string \<Rightarrow> string list result" where
  "hops ns 0 a = Inr []"
| "hops ns (Suc k) a =
     bindR (get_neighboring_node a (peers ns a)) (\<lambda>b. bindR (hops ns k b) (\<lambda>rest. Inr (b # rest)))"

lemma hops_eq:
  assumes "sorted ns" and "distinct ns" and "2 \<le> length ns"
  shows "i < length ns \<Longrightarrow> hops ns k (ns ! i) = Inr (map (\<lambda>j. ns ! ((i + Suc j) mod length ns)) [0..<k])"
proof (induction k arbitrary: i)
  case (Suc k)
  have "Suc i mod length ns < length ns" using Suc.prems by (intro mod_less_divisor) linarith
  moreover have "(Suc i mod length ns + Suc x) mod length ns = (i + Suc (Suc x)) mod length ns" for x
    using mod_add_left_eq [of "Suc i" "length ns" "Suc x"] by simp
  moreover have "Suc i mod length ns = (i + Suc 0) mod length ns" by simp
  ultimately show ?case
    using Suc.IH [of "Suc i mod length ns"] next_hop_eq [OF assms(1,2) Suc.prems assms(3)]
    by (simp add: map_upt_Suc_hd del: upt_Suc add_Suc_right)
qed simp

text \<open>
  C15. The ring is one cycle: with the same set of at least two nodes configured everywhere,
  following the next hops from any node comes back to it after as many hops as there are nodes,
  having visited every node exactly once; so every node is the next hop of exactly one other.
\<close>

theorem ring_is_hamiltonian:
  assumes "sorted ns" and "distinct ns" and "2 \<le> length ns" and "a \<in> set ns"
  shows "\<exists>visited. hops ns (length ns) a = Inr visited \<and> last visited = a
    \<and> distinct visited \<and> set visited = set ns"
proof -
  obtain i where i: "i < length ns" "a = ns ! i" using assms(4) by (auto simp: in_set_conv_nth)
  let ?n = "length ns"
  let ?v = "map (\<lambda>j. ns ! ((i + Suc j) mod ?n)) [0..<?n]"
  have inj: "inj_on (\<lambda>j. (i + Suc j) mod ?n) {0..<?n}"
    using add_mod_inj [of _ ?n _ "Suc i"] by (auto intro!: inj_onI)
  moreover have "inj_on ((!) ns) {0..<?n}"
    using assms(2) by (auto intro!: inj_onI simp: nth_eq_iff_index_eq)
  moreover have img: "(\<lambda>j. (i + Suc j) mod ?n) ` {0..<?n} = {0..<?n}"
    using inj i(1) by (intro endo_inj_surj) (auto intro!: mod_less_divisor)
  ultimately have d: "distinct ?v"
    by (auto simp: distinct_map intro: comp_inj_on [unfolded comp_def])
  moreover have "set ?v = set ns"
  proof -
    have "set ?v = (!) ns ` (\<lambda>j. (i + Suc j) mod ?n) ` {0..<?n}" by (simp add: image_image)
    also have "\<dots> = set ns" unfolding img by (auto simp: in_set_conv_nth)
    finally show ?thesis .
  qed
  moreover have "last ?v = a"
  proof -
    obtain m where m: "?n = Suc m" using i(1) by (cases ?n) auto
    then have "(i + Suc m) mod ?n = i" using i(1) by (simp only: mod_add_self2 mod_less)
    with m i(2) show ?thesis by (simp add: last_map)
  qed
  ultimately show ?thesis using hops_eq [OF assms(1-3) i(1), of ?n] i(2) by (intro exI [of _ ?v]) simp
qed

theorem ring_is_hamiltonian_witness:
  "\<exists>visited. hops [''12.12.12.1'', ''12.12.12.10'', ''12.12.12.9''] 3 ''12.12.12.10'' = Inr visited
    \<and> last visited = ''12.12.12.10'' \<and> distinct visited
    \<and> set visited = {''12.12.12.1'', ''12.12.12.10'', ''12.12.12.9''}"
  using ring_is_hamiltonian [of "[''12.12.12.1'', ''12.12.12.10'', ''12.12.12.9'']" "''12.12.12.10''"]
  by (simp add: eval_nat_numeral less_char_def)

end
