(* ===== verification/DoubleTree.thy ===== *)
theory DoubleTree
  imports Ring
begin

text \<open>
  The double binary tree (networking\_service/include/double\_binary\_tree.h): every node finds
  its parent and its children in the heap order of the sorted and of the reversed addresses.
  \<open>out\<close> is where a node connects to, \<open>in\<close> whom it expects.
\<close>

section \<open>The code\<close>

text \<open>\<open>get_index\<close> returns an \<open>int\<close>; its caller stores it in a \<open>size_t\<close>, so that
  -1 becomes the largest index.\<close>

definition get_index :: "string \<Rightarrow> string list \<Rightarrow> int" where
  "get_index node cluster =
     (case find_index (\<lambda>index. cluster ! index = node) 0 (length cluster) of
        Some index \<Rightarrow> to_int32 (int index)
      | None \<Rightarrow> -1)"

definition get_connection ::
  "string \<Rightarrow> string list \<Rightarrow> string list \<Rightarrow> string list \<Rightarrow> (string list \<times> string list) result" where
  "get_connection node cluster out inn =
     (let offset = unat (word_of_int (get_index node cluster) :: u64) in
      if offset = 0 then bindR (at cluster 1) (\<lambda>c. Inr (out, inn @ [c]))
      else bindR
        (if offset < length cluster div 2
         then bindR (at cluster (2 * offset)) (\<lambda>l. bindR (at cluster (2 * offset + 1)) (\<lambda>r.
              Inr (inn @ [l, r])))
         else Inr inn)
        (\<lambda>inn'. bindR (at cluster (offset div 2)) (\<lambda>p. Inr (out @ [p], inn'))))"

text \<open>\<open>trees[t]\<close> is the pair \<open>{upper, downstream}\<close> of tree \<open>t\<close>.\<close>

definition get_tree_neighbors ::
  "string \<Rightarrow> string list \<Rightarrow> (string list \<times> string list) list result" where
  "get_tree_neighbors local nodes =
     (let cluster = sort (nodes @ [local]); cluster_reverse = rev (sort (nodes @ [local])) in
      bindR (get_connection local cluster [] []) (\<lambda>t0.
      bindR (get_connection local cluster_reverse [] []) (\<lambda>t1.
      Inr [t0, t1])))"

section \<open>Parents and children by position\<close>

definition parent_of :: "nat \<Rightarrow> nat" where
  "parent_of i = i div 2"

definition children_of :: "nat \<Rightarrow> nat \<Rightarrow> nat list" where
  "children_of n i = (if i = 0 then [1] else if i < n div 2 then [2 * i, 2 * i + 1] else [])"

lemma get_index_nth:
  assumes "distinct ns" and "i < length ns" and "length ns < 2 ^ 31"
  shows "unat (word_of_int (get_index (ns ! i) ns) :: u64) = i"
proof -
  have "get_index (ns ! i) ns = int i"
    using assms by (simp add: get_index_def find_index_nth to_int32_small)
  moreover have "i < 2 ^ 64" using assms(2,3) by simp
  ultimately show ?thesis by (simp only: unat_of_int_nat)
qed

lemma get_connection_nth:
  assumes "distinct ns" and "i < length ns" and "2 \<le> length ns" and "length ns < 2 ^ 31"
  shows "get_connection (ns ! i) ns [] [] =
    Inr (if i = 0 then [] else [ns ! parent_of i], map ((!) ns) (children_of (length ns) i))"
proof -
  have "2 * i < length ns" "Suc (2 * i) < length ns" if "i < length ns div 2" using that by linarith+
  moreover have "i div 2 < length ns" using assms(2) by linarith
  ultimately show ?thesis
    using assms(3) get_index_nth [OF assms(1,2,4)]
    by (simp add: get_connection_def children_of_def parent_of_def Let_def)
qed

text \<open>For a node of an even number of nodes, being a child and having a parent agree.\<close>

lemma child_iff_parent:
  assumes "even n" and "i < n" and "j < n" and "2 \<le> n"
  shows "i \<in> set (children_of n j) \<longleftrightarrow> i \<noteq> 0 \<and> parent_of i = j"
proof -
  have "i div 2 = j \<longleftrightarrow> i = 2 * j \<or> i = 2 * j + 1" by presburger
  moreover have "2 * j < n \<longleftrightarrow> j < n div 2" using assms(1) by presburger
  ultimately show ?thesis using assms(2-4) by (auto simp: children_of_def parent_of_def)
qed

lemma children_bound: "2 \<le> n \<Longrightarrow> j \<in> set (children_of n i) \<Longrightarrow> j < n"
  by (auto simp: children_of_def split: if_splits)

lemma parent_decreases: "i \<noteq> 0 \<Longrightarrow> parent_of i < i"
  by (simp add: parent_of_def)

lemma parent_power: "(parent_of ^^ k) i = i div 2 ^ k"
  by (induction k) (simp_all add: parent_of_def div_mult2_eq power_Suc2 del: power_Suc)

section \<open>Both trees over a cluster\<close>

text \<open>Everything below is about nodes configured with the same set of addresses \<open>ns\<close>.\<close>

definition cluster_ok :: "string list \<Rightarrow> bool" where
  "cluster_ok ns \<longleftrightarrow> sorted ns \<and> distinct ns \<and> 2 \<le> length ns \<and> length ns < 2 ^ 31"

definition trees_of :: "string list \<Rightarrow> string \<Rightarrow> (string list \<times> string list) list" where
  "trees_of ns a = (case get_tree_neighbors a (peers ns a) of Inl e \<Rightarrow> [] | Inr ts \<Rightarrow> ts)"

text \<open>The order of tree \<open>t\<close>, and a node's position in it.\<close>

definition order_of :: "string list \<Rightarrow> nat \<Rightarrow> string list" where
  "order_of ns t = (if t = 0 then ns else rev ns)"

lemma order_of_simps [simp]:
  "length (order_of ns t) = length ns" "set (order_of ns t) = set ns"
  "distinct (order_of ns t) = distinct ns"
  by (simp_all add: order_of_def)

lemma get_tree_neighbors_ok:
  assumes "cluster_ok ns" and "a \<in> set ns"
  shows "get_tree_neighbors a (peers ns a) = Inr (trees_of ns a) \<and> length (trees_of ns a) = 2"
proof -
  have s: "sort (peers ns a @ [a]) = ns"
    using assms by (simp add: cluster_ok_def sort_snoc_peers)
  have conn: "\<exists>t. get_connection a xs [] [] = Inr t" if "distinct xs" "set xs = set ns" "length xs = length ns" for xs
    using that assms get_connection_nth [of xs] by (metis cluster_ok_def in_set_conv_nth)
  obtain t0 t1 where "get_connection a ns [] [] = Inr t0" "get_connection a (rev ns) [] [] = Inr t1"
    using conn [of ns] conn [of "rev ns"] assms(1) by (auto simp: cluster_ok_def)
  then show ?thesis by (simp add: get_tree_neighbors_def s trees_of_def)
qed

lemma trees_of_nth:
  assumes "cluster_ok ns" and "i < length ns" and "t < 2" and "a = order_of ns t ! i"
  shows "trees_of ns a ! t =
    (if i = 0 then [] else [order_of ns t ! parent_of i],
     map ((!) (order_of ns t)) (children_of (length ns) i))"
proof -
  have a: "a \<in> set ns" using assms(2,4) by (metis nth_mem order_of_simps(1,2))
  obtain t0 t1 where t: "trees_of ns a = [t0, t1]"
    using get_tree_neighbors_ok [OF assms(1) a] by (auto simp: length_Suc_conv numeral_2_eq_2)
  have s: "sort (peers ns a @ [a]) = ns"
    using assms(1) a by (simp add: cluster_ok_def sort_snoc_peers)
  have "get_connection a (order_of ns t) [] [] = Inr (trees_of ns a ! t)"
    using get_tree_neighbors_ok [OF assms(1) a] assms(3) t
    by (auto simp: get_tree_neighbors_def s order_of_def bindR_eq_Inr_iff less_2_cases_iff)
  then show ?thesis
    using get_connection_nth [of "order_of ns t" i] assms by (simp add: cluster_ok_def)
qed

lemma order_of_position:
  assumes "a \<in> set ns"
  obtains i where "i < length ns" and "a = order_of ns t ! i"
  using assms by (metis in_set_conv_nth order_of_simps(1,2))

lemma edges_match:
  assumes "cluster_ok ns" and "even (length ns)" and "b \<in> set ns" and "t < 2"
  shows "distinct (snd (trees_of ns b ! t))
    \<and> set (snd (trees_of ns b ! t)) = {a \<in> set ns. b \<in> set (fst (trees_of ns a ! t))}"
proof -
  let ?o = "order_of ns t" and ?n = "length ns"
  have n: "2 \<le> ?n" and d: "distinct ?o" using assms(1) by (simp_all add: cluster_ok_def)
  obtain j where j: "j < ?n" "b = ?o ! j" using order_of_position [OF assms(3)] .
  have inn: "snd (trees_of ns b ! t) = map ((!) ?o) (children_of ?n j)"
    using trees_of_nth [OF assms(1) j(1) assms(4) j(2)] by simp
  have "inj_on ((!) ?o) {..<?n}" using d by (auto intro!: inj_onI simp: nth_eq_iff_index_eq)
  then have dist: "distinct (map ((!) ?o) (children_of ?n j))"
    using children_bound [OF n] by (auto simp: distinct_map children_of_def intro: inj_on_subset)
  have edge: "?o ! i \<in> (!) ?o ` set (children_of ?n j) \<longleftrightarrow> b \<in> set (fst (trees_of ns (?o ! i) ! t))"
    if i: "i < ?n" for i
  proof -
    have "?o ! i \<in> (!) ?o ` set (children_of ?n j) \<longleftrightarrow> i \<in> set (children_of ?n j)"
      using d i children_bound [OF n] by (auto simp: nth_eq_iff_index_eq)
    also have "\<dots> \<longleftrightarrow> i \<noteq> 0 \<and> parent_of i = j" by (rule child_iff_parent [OF assms(2) i j(1) n])
    also have "\<dots> \<longleftrightarrow> b \<in> set (fst (trees_of ns (?o ! i) ! t))"
      using trees_of_nth [OF assms(1) i assms(4) refl] i j d parent_decreases [of i]
      by (auto simp: nth_eq_iff_index_eq)
    finally show ?thesis .
  qed
  have "(!) ?o ` set (children_of ?n j) = {a \<in> set ns. b \<in> set (fst (trees_of ns a ! t))}"
  proof (intro set_eqI)
    fix a
    show "a \<in> (!) ?o ` set (children_of ?n j) \<longleftrightarrow> a \<in> {a \<in> set ns. b \<in> set (fst (trees_of ns a ! t))}"
    proof (cases "a \<in> set ns")
      case True
      then obtain i where "i < ?n" "a = ?o ! i" by (rule order_of_position)
      with edge [of i] True show ?thesis by simp
    next
      case False
      then show ?thesis using children_bound [OF n] by (metis (no_types, lifting) CollectD image_iff
          nth_mem order_of_simps(1,2))
    qed
  qed
  then show ?thesis using dist by (simp add: inn)
qed

text \<open>
  C16. With an even number of nodes every connection is expected: in each of the two trees, the
  nodes that node \<open>b\<close> waits for are exactly the nodes that connect to it, each once.
\<close>

theorem dbt_connections_match:
  assumes "cluster_ok ns" and "even (length ns)" and "b \<in> set ns" and "t < 2"
  shows "distinct (snd (trees_of ns b ! t))
    \<and> set (snd (trees_of ns b ! t)) = {a \<in> set ns. b \<in> set (fst (trees_of ns a ! t))}"
  using edges_match [OF assms] .

definition four :: "string list" where
  "four = [''n1'', ''n2'', ''n3'', ''n4'']"

lemma cluster_ok_four: "cluster_ok four"
  by (simp add: cluster_ok_def four_def less_char_def)

theorem dbt_connections_match_witness:
  "set (snd (trees_of four ''n2'' ! 0)) = {a \<in> set four. ''n2'' \<in> set (fst (trees_of four a ! 0))}"
  using dbt_connections_match [OF cluster_ok_four, of "''n2''" 0] by (simp add: four_def)

text \<open>Following the connections of tree \<open>t\<close> upwards.\<close>

fun climb :: "string list \<Rightarrow> nat \<Rightarrow> nat \<Rightarrow> string \<Rightarrow> string" where
  "climb ns t 0 a = a"
| "climb ns t (Suc k) a =
     (case fst (trees_of ns a ! t) of [] \<Rightarrow> a | p # ps \<Rightarrow> climb ns t k p)"

lemma climb_nth:
  assumes "cluster_ok ns" and "t < 2"
  shows "i < length ns \<Longrightarrow> climb ns t k (order_of ns t ! i) = order_of ns t ! ((parent_of ^^ k) i)"
proof (induction k arbitrary: i)
  case (Suc k)
  show ?case
  proof (cases "i = 0")
    case True
    have "(parent_of ^^ Suc k) 0 = 0" by (simp only: parent_power div_0)
    with True show ?thesis
      using trees_of_nth [OF assms(1) Suc.prems assms(2) refl] by (simp del: funpow.simps)
  next
    case False
    then have "parent_of i < length ns" using Suc.prems parent_decreases by (meson less_trans)
    with False Suc.IH show ?thesis
      using trees_of_nth [OF assms(1) Suc.prems assms(2) refl] by (simp add: funpow_swap1)
  qed
qed simp

text \<open>
  C32. In each tree every node reaches the root (the least address in the first tree, the
  greatest in the second) over its connections, in at most \<open>k\<close> hops when there are at most
  \<open>2 ^ k\<close> nodes.
\<close>

theorem dbt_reaches_root:
  assumes "cluster_ok ns" and "a \<in> set ns" and "t < 2" and "length ns \<le> 2 ^ k"
  shows "climb ns t k a = (if t = 0 then hd ns else last ns)"
proof -
  obtain i where i: "i < length ns" "a = order_of ns t ! i" using order_of_position [OF assms(2)] .
  have "(parent_of ^^ k) i = 0" using i(1) assms(4) by (simp add: parent_power)
  moreover have "ns \<noteq> []" using assms(2) by auto
  ultimately show ?thesis
    using climb_nth [OF assms(1,3) i(1), of k] i(2)
    by (simp add: order_of_def hd_conv_nth rev_nth last_conv_nth)
qed

theorem dbt_reaches_root_witness: "climb four 1 2 ''n2'' = ''n4''"
  using dbt_reaches_root [OF cluster_ok_four, of "''n2''" 1 2] by (simp add: four_def)

text \<open>
  The two trees complement each other: with an even number of nodes, each node has children
  in exactly one of them, so no node forwards for both halves of the data.
\<close>

theorem dbt_interior_in_one_tree:
  assumes "cluster_ok ns" and "even (length ns)" and "a \<in> set ns"
  shows "snd (trees_of ns a ! 0) \<noteq> [] \<longleftrightarrow> snd (trees_of ns a ! 1) = []"
proof -
  obtain i where i: "i < length ns" "a = order_of ns 0 ! i" using order_of_position [OF assms(3)] .
  let ?j = "length ns - 1 - i"
  have j: "?j < length ns" "a = order_of ns 1 ! ?j" using i by (auto simp: order_of_def rev_nth)
  have "children_of (length ns) m = [] \<longleftrightarrow> \<not> m < length ns div 2" for m
    using assms(1) by (auto simp: children_of_def cluster_ok_def)
  moreover have "i < length ns div 2 \<longleftrightarrow> \<not> ?j < length ns div 2"
    using assms(2) i(1) by (auto elim!: evenE)
  ultimately show ?thesis
    using trees_of_nth [OF assms(1) i(1) _ i(2)] trees_of_nth [OF assms(1) j(1) _ j(2)] by simp
qed

theorem dbt_interior_in_one_tree_witness:
  "snd (trees_of four ''n2'' ! 0) \<noteq> [] \<longleftrightarrow> snd (trees_of four ''n2'' ! 1) = []"
  by (rule dbt_interior_in_one_tree [OF cluster_ok_four]) (simp_all add: four_def)

text \<open>
  With an odd number of nodes it fails: the last node connects to the node in the middle,
  which has no children and so expects nobody; and a node on its own reads past its cluster.
\<close>

theorem dbt_odd_last_node_unexpected:
  assumes "cluster_ok ns" and "odd (length ns)"
  shows "fst (trees_of ns (last ns) ! 0) = [ns ! (length ns div 2)]
    \<and> snd (trees_of ns (ns ! (length ns div 2)) ! 0) = []
    \<and> get_tree_neighbors (hd ns) [] = Inl OutOfBounds"
proof -
  let ?n = "length ns"
  have n: "3 \<le> ?n" using assms by (auto simp: cluster_ok_def elim!: oddE)
  have "last ns = order_of ns 0 ! (?n - 1)" using n by (cases ns) (auto simp: order_of_def last_conv_nth)
  then have "fst (trees_of ns (last ns) ! 0) = [ns ! parent_of (?n - 1)]"
    using trees_of_nth [OF assms(1), of "?n - 1" 0] n by (simp add: order_of_def)
  moreover have "parent_of (?n - 1) = ?n div 2" using assms(2) by (auto simp: parent_of_def elim!: oddE)
  moreover have "snd (trees_of ns (ns ! (?n div 2)) ! 0) = []"
    using trees_of_nth [OF assms(1), of "?n div 2" 0] n by (simp add: order_of_def children_of_def)
  moreover have "get_connection a [a] [] [] = Inl OutOfBounds" for a
    using get_index_nth [of "[a]" 0] by (simp add: get_connection_def Let_def at_def)
  ultimately show ?thesis by (simp add: get_tree_neighbors_def Let_def)
qed

theorem dbt_odd_last_node_unexpected_witness:
  "fst (trees_of (butlast four) ''n3'' ! 0) = [''n2''] \<and> snd (trees_of (butlast four) ''n2'' ! 0) = []"
  using dbt_odd_last_node_unexpected [of "butlast four"]
  by (simp add: cluster_ok_def four_def less_char_def)

end
