(* ===== verification/SubGroups.thy ===== *)
theory SubGroups
  imports Ring
begin

text \<open>
  The groups of the tree all-reduce: \<open>extract_sub_groups\<close>
  (networking\_service/src/network\_service.cpp). With \<open>w ^ k\<close> nodes of width \<open>w\<close>, stage
  \<open>l\<close> groups the nodes whose positions, written in base \<open>w\<close>, differ in digit \<open>l\<close>
  only.
\<close>

section \<open>The code\<close>

text \<open>\<open>int\<close> to \<open>size_t\<close>; a division by zero traps, here the exception \<open>SIGFPE\<close>.\<close>

definition size_of_width :: "int \<Rightarrow> nat" where
  "size_of_width tree_width = unat (word_of_int tree_width :: u64)"

fun security_check :: "nat \<Rightarrow> nat \<Rightarrow> nat \<Rightarrow> unit result" where
  "security_check 0 w tmp_val = Inl OutOfFuel"
| "security_check (Suc fuel) w tmp_val =
     (if tmp_val = 0 then Inr ()
      else if tmp_val = w then Inr ()
      else if w = 0 then Inl (Throw ''SIGFPE'')
      else if tmp_val mod w \<noteq> 0 then Inl LogFatal
      else security_check fuel w (tmp_val div w))"

text \<open>One group: at most \<open>room\<close> more members, the first at \<open>left_margin\<close>.\<close>

fun group_loop :: "string list \<Rightarrow> nat \<Rightarrow> nat \<Rightarrow> nat \<Rightarrow> nat \<Rightarrow> string list result" where
  "group_loop cluster step wind_offset 0 left_margin = Inr []"
| "group_loop cluster step wind_offset (Suc room) left_margin =
     (if left_margin < length cluster
      then bindR (at cluster (left_margin + wind_offset)) (\<lambda>a.
           bindR (group_loop cluster step wind_offset room (left_margin + step)) (\<lambda>as. Inr (a # as)))
      else Inr [])"

fun steps_loop :: "nat \<Rightarrow> string list \<Rightarrow> nat \<Rightarrow> nat \<Rightarrow> nat \<Rightarrow> string list list result" where
  "steps_loop 0 cluster w location_index step = Inl OutOfFuel"
| "steps_loop (Suc fuel) cluster w location_index step =
     (if step < length cluster
      then let wind_offset = location_index mod step;
               base = location_index - location_index mod (step * w) in
           bindR (group_loop cluster step wind_offset w base) (\<lambda>tmp_group.
           bindR (steps_loop fuel cluster w location_index (step * w)) (\<lambda>gs.
           Inr (tmp_group # gs)))
      else Inr [])"

definition extract_sub_groups ::
  "nat \<Rightarrow> string \<Rightarrow> int \<Rightarrow> string list \<Rightarrow> bool \<Rightarrow> string list list result" where
  "extract_sub_groups fuel local tree_width nodes filter_local =
     (let tmp_cluster = sort (nodes @ [local]); cluster_size = length tmp_cluster;
          w = size_of_width tree_width in
      bindR (security_check fuel w cluster_size) (\<lambda>_.
      let location_index =
            (case find_index (\<lambda>i. tmp_cluster ! i = local) 0 cluster_size of
               Some i \<Rightarrow> i | None \<Rightarrow> cluster_size) in
      bindR (steps_loop fuel tmp_cluster w location_index 1) (\<lambda>sub_groups.
        Inr (if filter_local then map (filter (\<lambda>each_ip. each_ip \<noteq> local)) sub_groups
             else sub_groups))))"

section \<open>The security check accepts the powers of the width\<close>

lemma security_check_enough:
  "2 \<le> w \<Longrightarrow> n < fuel \<Longrightarrow> 0 < n \<Longrightarrow>
   security_check fuel w n = (if \<exists>k. n = w ^ Suc k then Inr () else Inl LogFatal)"
proof (induction fuel arbitrary: n)
  case (Suc fuel)
  consider "n = w" | "n \<noteq> w" "n mod w \<noteq> 0" | "n \<noteq> w" "n mod w = 0" by blast
  then show ?case
  proof cases
    case 1
    then have "\<exists>k. n = w ^ Suc k" by (intro exI [of _ 0]) simp
    with 1 Suc.prems show ?thesis by simp
  next
    case 2
    then have "\<nexists>k. n = w ^ Suc k" by auto
    with 2 Suc.prems show ?thesis by simp
  next
    case 3
    from 3(2) obtain m where m: "n = w * m" by auto
    have "n div w = m" using m Suc.prems(1) by simp
    moreover have "(\<exists>k. n = w ^ Suc k) \<longleftrightarrow> (\<exists>k. m = w ^ Suc k)"
    proof -
      have "n = w ^ Suc k \<longleftrightarrow> m = w ^ k" for k using m Suc.prems(1) by simp
      moreover have "m \<noteq> w ^ 0" using 3(1) m by auto
      ultimately show ?thesis by (metis not0_implies_Suc)
    qed
    moreover have "m < fuel" "0 < m" using m Suc.prems by (auto simp: less_Suc_eq_le)
      (metis Suc_1 Suc_le_lessD le_trans less_le_trans mult_le_mono1 n_less_m_mult_n not_less_eq_eq mult_is_0 nat_mult_1 not_less)
    ultimately show ?thesis using 3 Suc by simp
  qed
qed simp

lemma security_check_width_1: "1 < n \<Longrightarrow> security_check fuel 1 n = Inl OutOfFuel"
  by (induction fuel) simp_all

section \<open>Positions by their digits\<close>

definition set_digit :: "nat \<Rightarrow> nat \<Rightarrow> nat \<Rightarrow> nat \<Rightarrow> nat" where
  "set_digit w l m i = i div w ^ Suc l * w ^ Suc l + m * w ^ l + i mod w ^ l"

definition same_group :: "nat \<Rightarrow> nat \<Rightarrow> nat \<Rightarrow> nat \<Rightarrow> bool" where
  "same_group w l i j \<longleftrightarrow> i div w ^ Suc l = j div w ^ Suc l \<and> i mod w ^ l = j mod w ^ l"

lemma set_digit_low:
  assumes "0 < (w :: nat)" and "m < w"
  shows "m * w ^ l + i mod w ^ l < w ^ Suc l"
proof -
  have "i mod w ^ l < w ^ l" using assms(1) by (intro mod_less_divisor) simp
  moreover have "Suc m * w ^ l \<le> w * w ^ l" using assms(2) by (intro mult_le_mono1) simp
  ultimately show ?thesis by simp
qed

lemma set_digit_same_group:
  assumes "0 < w" and "m < w"
  shows "same_group w l i (set_digit w l m i)"
  using set_digit_low [OF assms, of l i] assms(1)
  by (simp add: same_group_def set_digit_def add.assoc div_mult_self3 del: power_Suc)
     (simp add: mod_add_left_eq [symmetric] mult.assoc)

lemma same_group_set_digit:
  assumes "0 < w" and "same_group w l i j"
  shows "j = set_digit w l (j div w ^ l mod w) i"
proof -
  have "j = j div w ^ Suc l * w ^ Suc l + j mod w ^ Suc l" by (rule div_mult_mod_eq [symmetric])
  also have "j mod w ^ Suc l = (j div w ^ l mod w) * w ^ l + j mod w ^ l"
    unfolding power_Suc2 mod_mult2_eq by simp
  finally show ?thesis using assms(2) by (simp add: set_digit_def same_group_def)
qed

lemma set_digit_less:
  assumes "0 < w" and "m < w" and "l < k" and "i < w ^ k"
  shows "set_digit w l m i < w ^ k"
proof -
  obtain d where k: "k = d + Suc l" using assms(3) by (metis add.commute less_imp_add_positive add_Suc_right less_iff_Suc_add)
  have "i div w ^ Suc l < w ^ d" using assms(1,4) 
    by (simp add: k power_add div_less_iff_less_mult algebra_simps)
  then have "Suc (i div w ^ Suc l) * w ^ Suc l \<le> w ^ d * w ^ Suc l" by (intro mult_le_mono1) simp
  with set_digit_low [OF assms(1,2), of l i] show ?thesis
    by (simp add: set_digit_def k power_add [symmetric] del: power_Suc)
qed

lemma same_group_refl [simp]: "same_group w l i i"
  by (simp add: same_group_def)

lemma same_group_sym: "same_group w l i j \<longleftrightarrow> same_group w l j i"
  by (auto simp: same_group_def)

section \<open>What the loops compute\<close>

lemma group_loop_ok:
  "\<forall>m < room. left + m * step + off < length xs \<Longrightarrow>
   group_loop xs step off room left = Inr (map (\<lambda>m. xs ! (left + m * step + off)) [0..<room])"
proof (induction room arbitrary: left)
  case (Suc room)
  have "left + off < length xs" using Suc.prems by (metis add.right_neutral mult_0 zero_less_Suc)
  moreover have "\<forall>m < room. left + step + m * step + off < length xs"
    using Suc.prems by (auto simp: less_Suc_eq_0_disj algebra_simps dest: spec [of _ "Suc _"])
  then have "group_loop xs step off room (left + step)
      = Inr (map (\<lambda>m. xs ! (left + step + m * step + off)) [0..<room])"
    by (rule Suc.IH)
  ultimately show ?case by (simp add: map_upt_Suc_hd add.assoc del: upt_Suc)
qed simp

definition group_at :: "string list \<Rightarrow> nat \<Rightarrow> nat \<Rightarrow> nat \<Rightarrow> string list" where
  "group_at ns w i l = map (\<lambda>m. ns ! set_digit w l m i) [0..<w]"

lemma steps_loop_ok:
  assumes "2 \<le> w" and "length ns = w ^ k" and "i < length ns"
  shows "l \<le> k \<Longrightarrow> k - l < fuel \<Longrightarrow>
    steps_loop fuel ns w i (w ^ l) = Inr (map (group_at ns w i) [l..<k])"
proof (induction fuel arbitrary: l)
  case (Suc fuel)
  show ?case
  proof (cases "l = k")
    case True
    then show ?thesis using assms(2) by simp
  next
    case False
    with Suc.prems have l: "l < k" by simp
    with assms(1) have "w ^ l < length ns" by (simp add: assms(2))
    moreover have "i - i mod (w ^ l * w) = i div w ^ Suc l * w ^ Suc l"
      by (simp add: minus_mod_eq_div_mult power_Suc2 del: power_Suc)
    moreover have "group_loop ns (w ^ l) (i mod w ^ l) w (i div w ^ Suc l * w ^ Suc l) = Inr (group_at ns w i l)"
      unfolding group_at_def set_digit_def
      by (rule group_loop_ok) (use set_digit_less [of w _ l k i] l assms in \<open>auto simp: set_digit_def\<close>)
    moreover have "steps_loop fuel ns w i (w ^ Suc l) = Inr (map (group_at ns w i) [Suc l..<k])"
      using l Suc.prems by (intro Suc.IH) auto
    moreover have "[l..<k] = l # [Suc l..<k]" using l by (rule upt_conv_Cons)
    ultimately show ?thesis by (simp add: power_Suc2 del: power_Suc)
  qed
qed simp

lemma size_of_width_nat: "w < 2 ^ 64 \<Longrightarrow> size_of_width (int w) = w"
  by (simp only: size_of_width_def unat_of_int_nat)

lemma extract_sub_groups_eq:
  assumes "sorted ns" and "distinct ns" and "i < length ns" and "2 \<le> w" and "w < 2 ^ 64"
    and "length ns < fuel"
  shows "extract_sub_groups fuel (ns ! i) (int w) (peers ns (ns ! i)) fl =
    (if \<exists>k. length ns = w ^ Suc k
     then Inr (map (if fl then filter (\<lambda>b. b \<noteq> ns ! i) else id)
       (map (group_at ns w i) [0..<(LEAST k. length ns = w ^ k)]))
     else Inl LogFatal)"
proof -
  have a: "ns ! i \<in> set ns" using assms(3) by simp
  note c = security_check_enough [OF assms(4,6)] 
  have s: "sort (peers ns (ns ! i) @ [ns ! i]) = ns" by (rule sort_snoc_peers [OF assms(1,2) a])
  have f: "find_index (\<lambda>j. ns ! j = ns ! i) 0 (length ns) = Some i"
    by (rule find_index_nth [OF assms(2,3)])
  have st: "steps_loop fuel ns w i 1 = Inr (map (group_at ns w i) [0..<k])" if k: "length ns = w ^ k" for k
  proof -
    have "k < w ^ k" using assms(4) less_exp less_le_trans power_mono by (metis zero_le)
    then show ?thesis using steps_loop_ok [OF assms(4) k assms(3), of 0 fuel] k assms(6) by simp
  qed
  have least: "(LEAST k. length ns = w ^ k) = j" if "length ns = w ^ j" for j
    using that assms(4) by (intro Least_equality) auto
  have pos: "0 < length ns" using assms(3) by linarith
  show ?thesis
  proof (cases "\<exists>k. length ns = w ^ Suc k")
    case True
    then obtain k where k: "length ns = w ^ Suc k" ..
    show ?thesis
      using c [OF pos] st [OF k] True least [OF k]
      by (simp add: extract_sub_groups_def s f size_of_width_nat [OF assms(5)] Let_def
          del: power_Suc upt_Suc)
  next
    case False
    then show ?thesis
      using c [OF pos]
      by (simp add: extract_sub_groups_def s size_of_width_nat [OF assms(5)] Let_def)
  qed
qed

section \<open>Properties\<close>

text \<open>
  Which clusters the tree all-reduce accepts: for a width of at least 2, \<open>extract_sub_groups\<close>
  always returns, with groups when the number of nodes is a power (at least the first) of the
  width and with a fatal error otherwise.
\<close>

theorem extract_sub_groups_accepts_powers:
  assumes "sorted ns" and "distinct ns" and "a \<in> set ns" and "2 \<le> w" and "w < 2 ^ 64"
    and "length ns < fuel"
  shows "if \<exists>k. length ns = w ^ Suc k
    then \<exists>gs. extract_sub_groups fuel a (int w) (peers ns a) fl = Inr gs
    else extract_sub_groups fuel a (int w) (peers ns a) fl = Inl LogFatal"
proof -
  obtain i where i: "i < length ns" "a = ns ! i" using assms(3) by (auto simp: in_set_conv_nth)
  note e = extract_sub_groups_eq [OF assms(1,2) i(1) assms(4-6), of fl]
  show ?thesis unfolding i(2) e by simp
qed

text \<open>The configuration of a tree all-reduce, and the groups a node finds.\<close>

definition tree_ok :: "string list \<Rightarrow> nat \<Rightarrow> nat \<Rightarrow> bool" where
  "tree_ok ns w k \<longleftrightarrow> sorted ns \<and> distinct ns \<and> 2 \<le> w \<and> w < 2 ^ 64 \<and> 0 < k \<and> length ns = w ^ k"

definition groups_of :: "string list \<Rightarrow> nat \<Rightarrow> bool \<Rightarrow> string \<Rightarrow> string list list" where
  "groups_of ns w fl a =
     (case extract_sub_groups (Suc (length ns)) a (int w) (peers ns a) fl of Inl e \<Rightarrow> [] | Inr gs \<Rightarrow> gs)"

lemma groups_of_nth:
  assumes "tree_ok ns w k" and "i < length ns"
  shows "extract_sub_groups (Suc (length ns)) (ns ! i) (int w) (peers ns (ns ! i)) fl
      = Inr (groups_of ns w fl (ns ! i))"
    and "groups_of ns w fl (ns ! i)
      = map (\<lambda>l. (if fl then filter (\<lambda>b. b \<noteq> ns ! i) else id) (group_at ns w i l)) [0..<k]"
proof -
  obtain k' where k: "k = Suc k'" using assms(1) by (cases k) (auto simp: tree_ok_def)
  have "(LEAST j. length ns = w ^ j) = k"
    using assms(1) by (intro Least_equality) (auto simp: tree_ok_def)
  then have "extract_sub_groups (Suc (length ns)) (ns ! i) (int w) (peers ns (ns ! i)) fl
      = Inr (map (\<lambda>l. (if fl then filter (\<lambda>b. b \<noteq> ns ! i) else id) (group_at ns w i l)) [0..<k])"
    using extract_sub_groups_eq [of ns i w "Suc (length ns)" fl] assms
    by (auto simp: tree_ok_def k comp_def simp del: power_Suc upt_Suc)
  then show "extract_sub_groups (Suc (length ns)) (ns ! i) (int w) (peers ns (ns ! i)) fl
      = Inr (groups_of ns w fl (ns ! i))"
    and "groups_of ns w fl (ns ! i)
      = map (\<lambda>l. (if fl then filter (\<lambda>b. b \<noteq> ns ! i) else id) (group_at ns w i l)) [0..<k]"
    by (simp_all add: groups_of_def)
qed

lemma group_at_distinct:
  assumes "tree_ok ns w k" and "i < length ns" and "l < k"
  shows "distinct (group_at ns w i l)" and "set (group_at ns w i l) = {ns ! j |j. j < length ns \<and> same_group w l i j}"
proof -
  have w: "0 < w" and n: "length ns = w ^ k" and d: "distinct ns" using assms(1) by (auto simp: tree_ok_def)
  have less: "m < w \<Longrightarrow> set_digit w l m i < length ns" for m
    using set_digit_less [OF w _ assms(3)] assms(2) n by simp
  have "inj_on (\<lambda>m. ns ! set_digit w l m i) {0..<w}"
    using less d w by (auto intro!: inj_onI simp: nth_eq_iff_index_eq set_digit_def)
  then show "distinct (group_at ns w i l)" by (simp add: group_at_def distinct_map)
  show "set (group_at ns w i l) = {ns ! j |j. j < length ns \<and> same_group w l i j}"
    using less set_digit_same_group [OF w, of _ l i] same_group_set_digit [OF w, of l i] w
    by (auto simp: group_at_def image_iff) (metis mod_less_divisor atLeastLessThan_iff zero_le)
qed

lemma groups_shape:
  assumes "tree_ok ns w k" and "a \<in> set ns"
  shows "\<exists>gs. extract_sub_groups (Suc (length ns)) a (int w) (peers ns a) True = Inr gs
    \<and> length gs = k \<and> sum_list (map length gs) = k * (w - 1)
    \<and> (\<forall>g \<in> set gs. distinct g \<and> length g = w - 1 \<and> a \<notin> set g \<and> set g \<subseteq> set ns)"
proof -
  obtain i where i: "i < length ns" "a = ns ! i" using assms(2) by (auto simp: in_set_conv_nth)
  have g: "distinct g \<and> length g = w - 1 \<and> a \<notin> set g \<and> set g \<subseteq> set ns"
    if mem: "g \<in> set (groups_of ns w True a)" for g
  proof -
    obtain l where l: "l < k" "g = filter (\<lambda>b. b \<noteq> a) (group_at ns w i l)"
      using mem groups_of_nth(2) [OF assms(1) i(1), of True] i(2) by auto
    note gr = group_at_distinct [OF assms(1) i(1) l(1)]
    then have "set g = set (group_at ns w i l) - {a}" "a \<in> set (group_at ns w i l)"
      using l(2) i by auto
    moreover have "card (set (group_at ns w i l)) = w"
      using gr(1) by (simp add: distinct_card) (simp add: group_at_def)
    moreover have "distinct g" using gr(1) l(2) by simp
    ultimately show ?thesis using gr(2) i by (auto simp: distinct_card [symmetric])
  qed
  have "length (groups_of ns w True a) = k" using groups_of_nth(2) [OF assms(1) i(1)] i(2) by simp
  moreover have "map length (groups_of ns w True a) = replicate (length (groups_of ns w True a)) (w - 1)"
    using g by (intro replicate_eqI) auto
  ultimately show ?thesis
    using groups_of_nth(1) [OF assms(1) i(1), of True] i(2) g by (auto simp: sum_list_replicate)
qed

text \<open>
  The groups of a node, itself left out: one group per stage, each of \<open>w - 1\<close> different
  nodes, so that it launches and expects \<open>k * (w - 1)\<close> connections.
\<close>

theorem tree_groups_shape:
  assumes "tree_ok ns w k" and "a \<in> set ns"
  shows "\<exists>gs. extract_sub_groups (Suc (length ns)) a (int w) (peers ns a) True = Inr gs
    \<and> length gs = k \<and> sum_list (map length gs) = k * (w - 1)
    \<and> (\<forall>g \<in> set gs. distinct g \<and> length g = w - 1 \<and> a \<notin> set g \<and> set g \<subseteq> set ns)"
  using groups_shape [OF assms] .

lemma groups_symmetric:
  assumes "tree_ok ns w k" and "a \<in> set ns" and "b \<in> set ns" and "l < k"
  shows "a \<in> set (groups_of ns w True b ! l) \<longleftrightarrow> b \<in> set (groups_of ns w True a ! l)"
proof -
  obtain i j where i: "i < length ns" "a = ns ! i" and j: "j < length ns" "b = ns ! j"
    using assms(2,3) by (auto simp: in_set_conv_nth)
  have d: "distinct ns" using assms(1) by (simp add: tree_ok_def)
  have mem: "ns ! j' \<in> set (groups_of ns w True (ns ! i') ! l) \<longleftrightarrow> i' \<noteq> j' \<and> same_group w l i' j'"
    if "i' < length ns" "j' < length ns" for i' j'
    using that groups_of_nth(2) [OF assms(1) that(1), of True] group_at_distinct(2) [OF assms(1) that(1) assms(4)] assms(4) d
    by (auto simp: nth_eq_iff_index_eq)
  show ?thesis using mem i j same_group_sym by metis
qed

text \<open>
  The groups agree between nodes: at every stage, \<open>a\<close> connects to \<open>b\<close> exactly when
  \<open>b\<close> connects to \<open>a\<close>, so every connection is one that the other side expects.
\<close>

theorem tree_groups_symmetric:
  assumes "tree_ok ns w k" and "a \<in> set ns" and "b \<in> set ns" and "l < k"
  shows "a \<in> set (groups_of ns w True b ! l) \<longleftrightarrow> b \<in> set (groups_of ns w True a ! l)"
  using groups_symmetric [OF assms] .

text \<open>One round of summation over the groups of stage \<open>l\<close>, and all rounds in turn.\<close>

definition stage :: "string list \<Rightarrow> nat \<Rightarrow> nat \<Rightarrow> (string \<Rightarrow> 'a :: comm_monoid_add) \<Rightarrow> string \<Rightarrow> 'a" where
  "stage ns w l v a = sum_list (map v (groups_of ns w False a ! l))"

definition stages :: "string list \<Rightarrow> nat \<Rightarrow> nat \<Rightarrow> (string \<Rightarrow> 'a :: comm_monoid_add) \<Rightarrow> string \<Rightarrow> 'a" where
  "stages ns w k v = fold (stage ns w) [0..<k] v"

lemma sum_blocks:
  fixes f :: "nat \<Rightarrow> 'a :: comm_monoid_add"
  shows "(\<Sum>m < w. \<Sum>x < q. f (m * q + x)) = (\<Sum>x < w * q. f x)"
proof -
  have "(\<Sum>x < q. f (m * q + x)) = sum f {m * q..<m * q + q}" for m
    using sum.shift_bounds_nat_ivl [of f 0 "m * q" q] by (simp add: lessThan_atLeast0 add.commute)
  then show ?thesis by (simp add: sum.nat_group)
qed

lemma stages_block:
  assumes "tree_ok ns w k"
  shows "l \<le> k \<Longrightarrow> i < length ns \<Longrightarrow>
    stages ns w l v (ns ! i) = (\<Sum>x < w ^ l. v (ns ! (i div w ^ l * w ^ l + x)))"
proof (induction l arbitrary: i)
  case 0
  then show ?case by (simp add: stages_def)
next
  case (Suc l)
  have w: "0 < w" and n: "length ns = w ^ k" using assms by (auto simp: tree_ok_def)
  let ?q = "w ^ l"
  have pos: "stages ns w l v (ns ! set_digit w l m i)
      = (\<Sum>x < ?q. v (ns ! (i div w ^ Suc l * w ^ Suc l + (m * ?q + x))))" if "m < w" for m
  proof -
    have "set_digit w l m i < length ns" using set_digit_less [OF w that] Suc.prems n by simp
    moreover have "set_digit w l m i div ?q * ?q = i div w ^ Suc l * w ^ Suc l + m * ?q"
    proof -
      have "set_digit w l m i = (i div w ^ Suc l * w + m) * ?q + i mod ?q"
        by (simp add: set_digit_def algebra_simps)
      moreover have "i mod ?q < ?q" using w by (intro mod_less_divisor) simp
      ultimately have "set_digit w l m i div ?q = i div w ^ Suc l * w + m" using w by (simp del: power_Suc)
      then show ?thesis by (simp add: algebra_simps)
    qed
    ultimately show ?thesis using Suc.IH [of "set_digit w l m i"] Suc.prems by (simp add: add.assoc del: power_Suc)
  qed
  have "stages ns w (Suc l) v (ns ! i) = stage ns w l (stages ns w l v) (ns ! i)"
    by (simp add: stages_def)
  also have "\<dots> = (\<Sum>m \<leftarrow> [0..<w]. stages ns w l v (ns ! set_digit w l m i))"
    using groups_of_nth(2) [OF assms Suc.prems(2), of False] Suc.prems(1)
    by (simp add: stage_def group_at_def comp_def)
  also have "\<dots> = (\<Sum>m < w. \<Sum>x < ?q. v (ns ! (i div w ^ Suc l * w ^ Suc l + (m * ?q + x))))"
    using pos by (simp add: sum_list_distinct_conv_sum_set lessThan_atLeast0 del: power_Suc)
  also have "\<dots> = (\<Sum>x < w ^ Suc l. v (ns ! (i div w ^ Suc l * w ^ Suc l + x)))"
    using sum_blocks [where f = "\<lambda>y. v (ns ! (i div w ^ Suc l * w ^ Suc l + y))"] by simp
  finally show ?case .
qed

text \<open>
  C6. The groups do what a tree all-reduce needs: when at each stage in turn every node adds up
  the values of its group, after the last stage every node holds the sum over all nodes, each
  value counted once.
\<close>

theorem tree_stages_sum_all:
  assumes "tree_ok ns w k" and "a \<in> set ns"
  shows "stages ns w k v a = (\<Sum>b \<in> set ns. v b)"
proof -
  obtain i where i: "i < length ns" "a = ns ! i" using assms(2) by (auto simp: in_set_conv_nth)
  have n: "length ns = w ^ k" "distinct ns" using assms(1) by (auto simp: tree_ok_def)
  have "stages ns w k v a = (\<Sum>x < length ns. v (ns ! x))"
    using stages_block [OF assms(1) order_refl i(1), of v] i n(1) by simp
  also have "\<dots> = sum_list (map v ns)" by (simp add: sum_list_sum_nth lessThan_atLeast0)
  also have "\<dots> = (\<Sum>b \<in> set ns. v b)" using n(2) by (simp add: sum_list_distinct_conv_sum_set)
  finally show ?thesis .
qed

text \<open>
  A width of 1 is let through by \<open>conflict_check\<close> and makes the security check of any
  cluster of two or more nodes loop forever.
\<close>

theorem width_1_never_returns:
  assumes "1 < length ns" and "a \<in> set ns" and "distinct ns"
  shows "extract_sub_groups fuel a 1 (peers ns a) fl = Inl OutOfFuel"
proof -
  obtain i where "i < length ns" "a = ns ! i" using assms(2) by (auto simp: in_set_conv_nth)
  then have "length (sort (peers ns a @ [a])) = length ns"
    using length_peers [OF assms(3)] assms(1) by simp
  moreover have "size_of_width 1 = 1" by (simp add: size_of_width_def)
  ultimately show ?thesis
    using security_check_width_1 [OF assms(1), of fuel] by (simp add: extract_sub_groups_def Let_def)
qed

definition four_nodes :: "string list" where
  "four_nodes = [''n1'', ''n2'', ''n3'', ''n4'']"

lemma tree_ok_four: "tree_ok four_nodes 2 2"
  by (simp add: tree_ok_def four_nodes_def less_char_def)

theorem extract_sub_groups_accepts_powers_witness:
  "\<exists>gs. extract_sub_groups 5 ''n2'' 2 (peers four_nodes ''n2'') True = Inr gs"
proof -
  have "\<exists>k. length four_nodes = 2 ^ Suc k" by (rule exI [of _ 1]) (simp add: four_nodes_def)
  then show ?thesis
    using extract_sub_groups_accepts_powers [of four_nodes "''n2''" 2 5 True] tree_ok_four
    by (simp add: tree_ok_def) (simp add: four_nodes_def)
qed

theorem tree_groups_shape_witness:
  "\<exists>gs. extract_sub_groups (Suc (length four_nodes)) ''n2'' 2 (peers four_nodes ''n2'') True = Inr gs
    \<and> length gs = 2"
  using tree_groups_shape [OF tree_ok_four, of "''n2''"] by (auto simp: four_nodes_def)

theorem tree_groups_symmetric_witness:
  "''n1'' \<in> set (groups_of four_nodes 2 True ''n3'' ! 1)
    \<longleftrightarrow> ''n3'' \<in> set (groups_of four_nodes 2 True ''n1'' ! 1)"
  by (rule tree_groups_symmetric [OF tree_ok_four]) (simp_all add: four_nodes_def)

theorem tree_stages_sum_all_witness:
  "stages four_nodes 2 2 (\<lambda>a. length (filter (\<lambda>c. c = CHR ''n'') a)) ''n3'' = 4"
  using tree_stages_sum_all [OF tree_ok_four, of "''n3''" "\<lambda>a. length (filter (\<lambda>c. c = CHR ''n'') a)"]
  by (simp add: four_nodes_def)

theorem width_1_never_returns_witness:
  "extract_sub_groups 1000 ''n2'' 1 (peers four_nodes ''n2'') True = Inl OutOfFuel"
  by (rule width_1_never_returns) (simp_all add: four_nodes_def)

end
