(* ===== verification/Services.thy ===== *)
theory Services
  imports Config DoubleTree SubGroups
begin

text \<open>
  \<open>NetworkingService\<close> (networking\_service/include/network\_service.h and
  src/network\_service.cpp). Each topology's service launches threads, each running one
  \<open>RDMAServer\<close> or \<open>RDMAClient\<close> on its own copy of the configuration; the model of a
  service is the list of endpoints it launches, in order. What an endpoint then does is
  modelled apart; \<open>join\<close> waits for ever, as \<open>run\<close> does not return.
\<close>

section \<open>The code\<close>

datatype endpoint = RDMAServer config | RDMAClient config

record networking =
  conf :: config
  is_initialized :: bool
  is_launched :: bool

definition networking_new :: networking where
  "networking_new = \<lparr>conf = config_default, is_initialized = False, is_launched = False\<rparr>"

definition init_service ::
  "nat \<Rightarrow> 'g getopt_api \<Rightarrow> string \<Rightarrow> 'g \<Rightarrow> networking \<Rightarrow> networking result" where
  "init_service fuel api ip argv s =
     bindR (parse_args fuel api ip argv (conf s)) (\<lambda>c. Inr (s\<lparr>conf := c, is_initialized := True\<rparr>))"

text \<open>The client loop: a node listed in its own cluster is a fatal error.\<close>

fun launch_clients :: "string \<Rightarrow> config \<Rightarrow> string list \<Rightarrow> endpoint list result" where
  "launch_clients ip c [] = Inr []"
| "launch_clients ip c (each_server # rest) =
     bindR (guardR (each_server \<noteq> local_ip c) LogFatal) (\<lambda>_.
     bindR (launch_clients ip c rest) (\<lambda>es.
     Inr (RDMAClient (set_server_name ip each_server c) # es)))"

definition launch_server :: "int \<Rightarrow> config \<Rightarrow> endpoint" where
  "launch_server senders c =
     RDMAServer (c\<lparr>serve_as_client := False, server_name := '''', num_senders := senders\<rparr>)"

definition full_mesh_service :: "string \<Rightarrow> networking \<Rightarrow> (endpoint list \<times> networking) result" where
  "full_mesh_service ip s =
     bindR (guardR (is_initialized s) LogFatal) (\<lambda>_.
     bindR (launch_clients ip (conf s) (cluster (conf s))) (\<lambda>clients.
     Inr (launch_server (num_senders (conf s)) (conf s) # clients, s)))"

definition server_client_service :: "string \<Rightarrow> networking \<Rightarrow> (endpoint list \<times> networking) result" where
  "server_client_service ip s =
     bindR (guardR (is_initialized s) LogFatal) (\<lambda>_.
     Inr ([if serve_as_client (conf s) then RDMAClient (conf s) else RDMAServer (conf s)], s))"

definition ring_service :: "string \<Rightarrow> networking \<Rightarrow> (endpoint list \<times> networking) result" where
  "ring_service ip s0 =
     bindR (guardR (is_initialized s0) LogFatal) (\<lambda>_.
     bindR (get_neighboring_node (local_ip (conf s0)) (cluster (conf s0))) (\<lambda>next_hop.
     let s = s0\<lparr>conf := (conf s0)\<lparr>num_senders := 1\<rparr>\<rparr> in
     bindR (launch_clients ip (conf s) [next_hop]) (\<lambda>clients.
     Inr (launch_server 1 (conf s) # clients, s))))"

text \<open>\<open>num_size += each_group.size()\<close> is an \<open>int\<close> sum.\<close>

definition tree_service :: "nat \<Rightarrow> string \<Rightarrow> networking \<Rightarrow> (endpoint list \<times> networking) result" where
  "tree_service fuel ip s0 =
     bindR (guardR (is_initialized s0) LogFatal) (\<lambda>_.
     let c0 = snd (get_local_ip ip (conf s0)) in
     bindR (extract_sub_groups fuel (local_ip c0) (tree_width c0) (cluster c0) True) (\<lambda>groups.
     let s = s0\<lparr>conf := c0\<lparr>sub_groups := groups\<rparr>\<rparr>;
         num_size = to_int32 (int (sum_list (map length groups))) in
     bindR (launch_clients ip (conf s) (concat groups)) (\<lambda>clients.
     Inr (launch_server num_size (conf s) # clients, s))))"

definition double_binary_tree_service :: "string \<Rightarrow> networking \<Rightarrow> (endpoint list \<times> networking) result" where
  "double_binary_tree_service ip s =
     bindR (guardR (is_initialized s) LogFatal) (\<lambda>_.
     bindR (get_tree_neighbors (local_ip (conf s)) (cluster (conf s))) (\<lambda>trees.
     let num_size = to_int32 (int (length (snd (trees ! 0)) + length (snd (trees ! 1)))) in
     bindR (launch_clients ip (conf s) (concat (map fst trees))) (\<lambda>clients.
     Inr (launch_server num_size (conf s) # clients, s))))"

definition net_start_service_async ::
  "nat \<Rightarrow> string \<Rightarrow> networking \<Rightarrow> (endpoint list \<times> networking) result" where
  "net_start_service_async fuel ip s0 =
     bindR (guardR (is_initialized s0) LogFatal) (\<lambda>_.
     if is_launched s0 then Inr ([], s0)
     else let s = s0\<lparr>is_launched := True\<rparr> in
       case all_reduce (conf s) of
         SERVER_CLIENT \<Rightarrow> server_client_service ip s
       | FULL_MESH_ALLREDUCE \<Rightarrow> full_mesh_service ip s
       | RING_ALLREDUCE \<Rightarrow> ring_service ip s
       | DOUBLE_BINARY_TREE_ALLREDUCE \<Rightarrow> double_binary_tree_service ip s
       | TREE_ALLREDUCE \<Rightarrow> tree_service fuel ip s
       | UNKNOWN_ALLREDUCE \<Rightarrow> Inl LogFatal)"

section \<open>Every launched connection is an expected one\<close>

text \<open>Whom a plan connects to, and how many senders its server waits for.\<close>

definition targets :: "endpoint list \<Rightarrow> string list" where
  "targets es = concat (map (\<lambda>e. case e of RDMAClient c \<Rightarrow> [server_name c] | RDMAServer c \<Rightarrow> []) es)"

definition expected :: "endpoint list \<Rightarrow> int list" where
  "expected es = concat (map (\<lambda>e. case e of RDMAServer c \<Rightarrow> [num_senders c] | RDMAClient c \<Rightarrow> []) es)"

text \<open>Node \<open>a\<close> of the cluster \<open>ns\<close>, configured as \<open>parse_args\<close> leaves it.\<close>

definition node_of :: "config \<Rightarrow> string list \<Rightarrow> string \<Rightarrow> networking" where
  "node_of c ns a = \<lparr>conf = c\<lparr>local_ip := a, cluster := peers ns a, num_senders := int (length ns) - 1\<rparr>,
     is_initialized = True, is_launched = False\<rparr>"

lemma launch_clients_ok:
  "local_ip c = ip \<Longrightarrow> ip \<noteq> '''' \<Longrightarrow> ip \<notin> set xs \<Longrightarrow>
   \<exists>es. launch_clients ip c xs = Inr es \<and> targets es = xs \<and> expected es = []"
  by (induction xs) (auto simp: targets_def expected_def set_server_name_def get_local_ip_def)

lemma launch_server_simps [simp]:
  "targets (launch_server k c # es) = targets es"
  "expected (launch_server k c # es) = k # expected es"
  by (simp_all add: targets_def expected_def launch_server_def)

lemma count_list_distinct: "distinct xs \<Longrightarrow> count_list xs b = (if b \<in> set xs then 1 else 0)"
  by (induction xs) auto

lemma sum_count_distinct:
  assumes "finite A" and "\<And>a. a \<in> A \<Longrightarrow> distinct (f a)"
  shows "(\<Sum>a \<in> A. count_list (f a) b) = card {a \<in> A. b \<in> set (f a)}"
proof -
  have "count_list (f a) b = (if b \<in> set (f a) then 1 else 0)" if "a \<in> A" for a
    using assms(2) [OF that] by (simp add: count_list_distinct)
  then have "(\<Sum>a \<in> A. count_list (f a) b) = (\<Sum>a \<in> A. if b \<in> set (f a) then 1 else 0)"
    by (rule sum.cong [OF refl])
  also have "\<dots> = card {a \<in> A. b \<in> set (f a)}" using assms(1) by (simp add: sum.If_cases Int_def)
  finally show ?thesis .
qed

definition topology_fits :: "config \<Rightarrow> string list \<Rightarrow> bool" where
  "topology_fits c ns \<longleftrightarrow> (case all_reduce c of
       FULL_MESH_ALLREDUCE \<Rightarrow> True
     | RING_ALLREDUCE \<Rightarrow> True
     | DOUBLE_BINARY_TREE_ALLREDUCE \<Rightarrow> even (length ns)
     | TREE_ALLREDUCE \<Rightarrow> \<exists>w k. tree_width c = int w \<and> tree_ok ns w k
     | _ \<Rightarrow> False)"

text \<open>A plan for the whole cluster: its targets and expected senders at each node.\<close>

definition launches :: "config \<Rightarrow> string list \<Rightarrow> (string \<Rightarrow> string list) \<Rightarrow> (string \<Rightarrow> nat) \<Rightarrow> bool" where
  "launches c ns X K \<longleftrightarrow> (\<forall>a \<in> set ns. \<exists>es s'.
     net_start_service_async (Suc (length ns)) a (node_of c ns a) = Inr (es, s')
     \<and> targets es = X a \<and> expected es = [int (K a)])"

lemma full_mesh_launches:
  assumes "all_reduce c = FULL_MESH_ALLREDUCE" and "distinct ns" and "'''' \<notin> set ns"
  shows "launches c ns (peers ns) (\<lambda>a. length (peers ns a))"
  unfolding launches_def
proof
  fix a assume a: "a \<in> set ns"
  let ?c = "conf (node_of c ns a)"
  obtain es where es: "launch_clients a ?c (peers ns a) = Inr es" "targets es = peers ns a" "expected es = []"
    using launch_clients_ok [of ?c a "peers ns a"] a assms(3) by (auto simp: node_of_def)
  obtain i where i: "i < length ns" "a = ns ! i" using a by (auto simp: in_set_conv_nth)
  then have "int (length ns) - 1 = int (length (peers ns a))"
    using length_peers [OF assms(2) i(1)] by simp
  with es assms(1) show "\<exists>es s'. net_start_service_async (Suc (length ns)) a (node_of c ns a) = Inr (es, s')
      \<and> targets es = peers ns a \<and> expected es = [int (length (peers ns a))]"
    by (simp add: net_start_service_async_def full_mesh_service_def node_of_def)
qed

definition next_of :: "string list \<Rightarrow> string \<Rightarrow> string" where
  "next_of ns a = projr (get_neighboring_node a (peers ns a))"

lemma next_of_nth:
  "cluster_ok ns \<Longrightarrow> i < length ns \<Longrightarrow>
   get_neighboring_node (ns ! i) (peers ns (ns ! i)) = Inr (next_of ns (ns ! i))
   \<and> next_of ns (ns ! i) = ns ! (Suc i mod length ns)"
  using next_hop_eq [of ns i] by (simp add: next_of_def cluster_ok_def)

lemma mod_Suc_neq: "2 \<le> n \<Longrightarrow> i < n \<Longrightarrow> Suc i mod n \<noteq> i"
  by (cases "Suc i = n") auto

lemma next_of_props:
  assumes "cluster_ok ns" and "a \<in> set ns"
  shows "next_of ns a \<noteq> a" and "next_of ns a \<in> set ns"
proof -
  obtain i where i: "i < length ns" "a = ns ! i" using assms(2) by (auto simp: in_set_conv_nth)
  moreover have "Suc i mod length ns < length ns" using i(1) by (intro mod_less_divisor) linarith
  moreover have "Suc i mod length ns \<noteq> i" using assms(1) i(1) by (intro mod_Suc_neq) (simp add: cluster_ok_def)
  ultimately show "next_of ns a \<noteq> a" "next_of ns a \<in> set ns"
    using next_of_nth [OF assms(1) i(1)] assms(1) by (simp_all add: nth_eq_iff_index_eq cluster_ok_def)
qed

lemma ring_launches:
  assumes "all_reduce c = RING_ALLREDUCE" and "cluster_ok ns" and "'''' \<notin> set ns"
  shows "launches c ns (\<lambda>a. [next_of ns a]) (\<lambda>a. 1)"
  unfolding launches_def
proof
  fix a assume a: "a \<in> set ns"
  let ?c = "(conf (node_of c ns a))\<lparr>num_senders := 1\<rparr>"
  obtain es where es: "launch_clients a ?c [next_of ns a] = Inr es" "targets es = [next_of ns a]" "expected es = []"
    using launch_clients_ok [of ?c a "[next_of ns a]"] a assms(3) next_of_props(1) [OF assms(2) a]
    by (auto simp: node_of_def)
  moreover have "get_neighboring_node a (peers ns a) = Inr (next_of ns a)"
    using next_of_nth [OF assms(2)] a by (auto simp: in_set_conv_nth)
  ultimately show "\<exists>es s'. net_start_service_async (Suc (length ns)) a (node_of c ns a) = Inr (es, s')
      \<and> targets es = [next_of ns a] \<and> expected es = [int 1]"
    using assms(1) by (simp add: net_start_service_async_def ring_service_def node_of_def
        del: launch_clients.simps)
qed

lemma dbt_targets:
  assumes "cluster_ok ns" and "a \<in> set ns" and "t < 2"
  shows "a \<notin> set (fst (trees_of ns a ! t))" and "set (fst (trees_of ns a ! t)) \<subseteq> set ns"
    and "distinct (fst (trees_of ns a ! t))" and "length (snd (trees_of ns a ! t)) \<le> 2"
proof -
  obtain i where i: "i < length ns" "a = order_of ns t ! i" using order_of_position [OF assms(2)] .
  note tr = trees_of_nth [OF assms(1) i(1) assms(3) i(2)]
  have "i \<noteq> 0 \<Longrightarrow> parent_of i < length ns \<and> parent_of i \<noteq> i"
    using parent_decreases [of i] i(1) by linarith
  moreover have "distinct (order_of ns t)" using assms(1) by (simp add: cluster_ok_def)
  ultimately show "a \<notin> set (fst (trees_of ns a ! t))" "set (fst (trees_of ns a ! t)) \<subseteq> set ns"
    "distinct (fst (trees_of ns a ! t))"
    using i tr by (auto simp: nth_eq_iff_index_eq) (metis nth_mem order_of_simps(1,2))
  show "length (snd (trees_of ns a ! t)) \<le> 2" using tr by (simp add: children_of_def)
qed

lemma dbt_launches:
  assumes "all_reduce c = DOUBLE_BINARY_TREE_ALLREDUCE" and "cluster_ok ns" and "'''' \<notin> set ns"
  shows "launches c ns (\<lambda>a. fst (trees_of ns a ! 0) @ fst (trees_of ns a ! 1))
    (\<lambda>a. length (snd (trees_of ns a ! 0)) + length (snd (trees_of ns a ! 1)))"
  unfolding launches_def
proof
  fix a assume a: "a \<in> set ns"
  let ?c = "conf (node_of c ns a)" and ?x = "fst (trees_of ns a ! 0) @ fst (trees_of ns a ! 1)"
  obtain es where es: "launch_clients a ?c ?x = Inr es" "targets es = ?x" "expected es = []"
    using launch_clients_ok [of ?c a ?x] a assms(3) dbt_targets(1) [OF assms(2) a]
    by (auto simp: node_of_def)
  obtain t0 t1 where t: "trees_of ns a = [t0, t1]"
    using get_tree_neighbors_ok [OF assms(2) a] by (auto simp: length_Suc_conv numeral_2_eq_2)
  have small: "to_int32 (int (length (snd t0)) + int (length (snd t1))) = int (length (snd t0)) + int (length (snd t1))"
    using dbt_targets(4) [OF assms(2) a, of 0] dbt_targets(4) [OF assms(2) a, of 1] t
    by (intro to_int32_small) auto
  show "\<exists>es s'. net_start_service_async (Suc (length ns)) a (node_of c ns a) = Inr (es, s')
      \<and> targets es = ?x
      \<and> expected es = [int (length (snd (trees_of ns a ! 0)) + length (snd (trees_of ns a ! 1)))]"
    using es t small get_tree_neighbors_ok [OF assms(2) a] assms(1)
    by (simp add: net_start_service_async_def double_binary_tree_service_def node_of_def)
qed

lemma power_ge_linear: "(w :: nat) \<noteq> 0 \<Longrightarrow> k * (w - 1) + 1 \<le> w ^ k"
proof (induction k)
  case (Suc k)
  obtain v where w: "w = Suc v" using Suc.prems by (cases w) auto
  have "Suc k * v + 1 \<le> (k * v + 1) * w" by (simp add: w algebra_simps)
  also have "\<dots> \<le> w ^ k * w" using Suc w by (intro mult_le_mono1) simp
  finally show ?case by (simp add: w mult.commute)
qed simp

lemma tree_launches:
  assumes "all_reduce c = TREE_ALLREDUCE" and "cluster_ok ns" and "'''' \<notin> set ns"
    and "tree_width c = int w" and "tree_ok ns w k"
  shows "launches c ns (\<lambda>a. concat (groups_of ns w True a)) (\<lambda>a. sum_list (map length (groups_of ns w True a)))"
  unfolding launches_def
proof
  fix a assume a: "a \<in> set ns"
  obtain gs where gs: "extract_sub_groups (Suc (length ns)) a (int w) (peers ns a) True = Inr gs"
    "sum_list (map length gs) = k * (w - 1)" "\<forall>g \<in> set gs. a \<notin> set g"
    using groups_shape [OF assms(5) a] by blast
  then have g: "groups_of ns w True a = gs" by (simp add: groups_of_def)
  let ?c = "(conf (node_of c ns a))\<lparr>sub_groups := gs\<rparr>" and ?x = "concat gs"
  obtain es where es: "launch_clients a ?c ?x = Inr es" "targets es = ?x" "expected es = []"
    using launch_clients_ok [of ?c a ?x] a assms(3) gs(3) by (auto simp: node_of_def)
  have "k * (w - 1) + 1 \<le> length ns" using power_ge_linear [of w k] assms(5) by (auto simp: tree_ok_def)
  then have "sum_list (map length gs) < 2 ^ 31" using assms(2) gs(2) by (simp add: cluster_ok_def)
  then have small: "to_int32 (int (sum_list (map length gs))) = int (sum_list (map length gs))"
    by (intro to_int32_small) simp_all
  have "a \<noteq> ''''" using a assms(3) by auto
  then show "\<exists>es s'. net_start_service_async (Suc (length ns)) a (node_of c ns a) = Inr (es, s')
      \<and> targets es = concat (groups_of ns w True a)
      \<and> expected es = [int (sum_list (map length (groups_of ns w True a)))]"
    using es small gs(1) assms(1,4)
    by (simp add: net_start_service_async_def tree_service_def node_of_def get_local_ip_def g Let_def)
qed

text \<open>In each topology, the senders expected at a node are the connections made to it.\<close>

lemma ring_balanced:
  assumes "cluster_ok ns" and "b \<in> set ns"
  shows "(\<Sum>a \<in> set ns. count_list [next_of ns a] b) = 1"
proof -
  let ?n = "length ns"
  obtain j where j: "j < ?n" "b = ns ! j" using assms(2) by (auto simp: in_set_conv_nth)
  have n: "2 \<le> ?n" and d: "distinct ns" using assms(1) by (simp_all add: cluster_ok_def)
  obtain i where i: "i < ?n" "Suc i mod ?n = j"
    using j n that [of "?n - 1"] that [of "j - 1"] by (cases "j = 0") simp_all
  have "next_of ns (ns ! i') = b \<longleftrightarrow> i' = i" if "i' < ?n" for i'
  proof -
    have "next_of ns (ns ! i') = b \<longleftrightarrow> Suc i' mod ?n = j"
    proof -
      have "Suc i' mod ?n < ?n" using n by (intro mod_less_divisor) linarith
      then show ?thesis
        using next_of_nth [OF assms(1) that] j nth_eq_iff_index_eq [OF d] by simp
    qed
    also have "\<dots> \<longleftrightarrow> (1 + i') mod ?n = (1 + i) mod ?n" using i(2) by simp
    also have "\<dots> \<longleftrightarrow> i' = i" using add_mod_inj [OF that i(1), of 1] by blast
    finally show ?thesis .
  qed
  then have "{a \<in> set ns. next_of ns a = b} = {ns ! i}"
    using i(1) by (auto simp: in_set_conv_nth)
  moreover have "(\<Sum>a \<in> set ns. count_list [next_of ns a] b) = card {a \<in> set ns. b \<in> set [next_of ns a]}"
    by (rule sum_count_distinct) simp_all
  moreover have "{a \<in> set ns. b \<in> set [next_of ns a]} = {a \<in> set ns. next_of ns a = b}" by auto
  ultimately show ?thesis by (simp only: card_1_singleton_iff) auto
qed

lemma full_mesh_balanced:
  assumes "distinct ns" and "b \<in> set ns"
  shows "(\<Sum>a \<in> set ns. count_list (peers ns a) b) = length (peers ns b)"
proof -
  have "(\<Sum>a \<in> set ns. count_list (peers ns a) b) = card {a \<in> set ns. b \<in> set (peers ns a)}"
    by (rule sum_count_distinct) (simp_all add: assms(1))
  also have "{a \<in> set ns. b \<in> set (peers ns a)} = set (peers ns b)" using assms(2) by auto
  also have "card (set (peers ns b)) = length (peers ns b)" using assms(1) by (intro distinct_card peers_simps)
  finally show ?thesis .
qed

lemma dbt_balanced:
  assumes "cluster_ok ns" and "even (length ns)" and "b \<in> set ns"
  shows "(\<Sum>a \<in> set ns. count_list (fst (trees_of ns a ! 0) @ fst (trees_of ns a ! 1)) b)
    = length (snd (trees_of ns b ! 0)) + length (snd (trees_of ns b ! 1))"
proof -
  have "(\<Sum>a \<in> set ns. count_list (fst (trees_of ns a ! t)) b) = length (snd (trees_of ns b ! t))"
    if t: "t < 2" for t
  proof -
    have m: "distinct (snd (trees_of ns b ! t))"
      "set (snd (trees_of ns b ! t)) = {a \<in> set ns. b \<in> set (fst (trees_of ns a ! t))}"
      using edges_match [OF assms t] by auto
    show ?thesis
      using sum_count_distinct [of "set ns" "\<lambda>a. fst (trees_of ns a ! t)" b] dbt_targets(3) [OF assms(1) _ t]
        distinct_card [OF m(1)] by (simp add: m(2))
  qed
  from this [of 0] this [of 1] show ?thesis by (simp add: sum.distrib)
qed

lemma tree_balanced:
  assumes "tree_ok ns w k" and "b \<in> set ns"
  shows "(\<Sum>a \<in> set ns. count_list (concat (groups_of ns w True a)) b)
    = sum_list (map length (groups_of ns w True b))"
proof -
  have shape: "length (groups_of ns w True a) = k \<and> (\<forall>g \<in> set (groups_of ns w True a). distinct g \<and> set g \<subseteq> set ns)"
    if "a \<in> set ns" for a
    using groups_shape [OF assms(1) that] by (auto simp: groups_of_def)
  have split: "count_list (concat gs) b = (\<Sum>l < length gs. count_list (gs ! l) b)" for gs
    by (induction gs rule: rev_induct) (simp_all add: nth_append)
  have "(\<Sum>a \<in> set ns. count_list (concat (groups_of ns w True a)) b)
      = (\<Sum>a \<in> set ns. \<Sum>l < k. count_list (groups_of ns w True a ! l) b)"
    using shape by (intro sum.cong) (simp_all add: split)
  also have "\<dots> = (\<Sum>l < k. \<Sum>a \<in> set ns. count_list (groups_of ns w True a ! l) b)" by (rule sum.swap)
  also have "\<dots> = (\<Sum>l < k. length (groups_of ns w True b ! l))"
  proof (rule sum.cong [OF refl])
    fix l assume l: "l \<in> {..<k}"
    have "(\<Sum>a \<in> set ns. count_list (groups_of ns w True a ! l) b)
        = card {a \<in> set ns. b \<in> set (groups_of ns w True a ! l)}"
      using shape l by (intro sum_count_distinct) (auto intro: nth_mem)
    also have "{a \<in> set ns. b \<in> set (groups_of ns w True a ! l)} = set (groups_of ns w True b ! l)"
    proof -
      have "set (groups_of ns w True b ! l) \<subseteq> set ns" using shape [OF assms(2)] l by (simp add: nth_mem)
      then show ?thesis using groups_symmetric [OF assms(1,2)] l by blast
    qed
    also have "card \<dots> = length (groups_of ns w True b ! l)"
      using shape [OF assms(2)] l by (intro distinct_card) (auto intro: nth_mem)
    finally show "(\<Sum>a \<in> set ns. count_list (groups_of ns w True a ! l) b) = length (groups_of ns w True b ! l)" .
  qed
  also have "\<dots> = sum_list (map length (groups_of ns w True b))"
    using shape [OF assms(2)] by (simp add: sum_list_sum_nth lessThan_atLeast0)
  finally show ?thesis .
qed

lemma plans_fit:
  assumes "cluster_ok ns" and "'''' \<notin> set ns" and "topology_fits c ns"
  shows "\<exists>plan. (\<forall>a \<in> set ns. \<exists>s'.
        net_start_service_async (Suc (length ns)) a (node_of c ns a) = Inr (plan a, s'))
    \<and> (\<forall>b \<in> set ns. expected (plan b) = [int (\<Sum>a \<in> set ns. count_list (targets (plan a)) b)])"
proof -
  have d: "distinct ns" using assms(1) by (simp add: cluster_ok_def)
  have "\<exists>X K. launches c ns X K \<and> (\<forall>b \<in> set ns. K b = (\<Sum>a \<in> set ns. count_list (X a) b))"
  proof (cases "all_reduce c")
    case FULL_MESH_ALLREDUCE
    with full_mesh_launches [OF _ d assms(2)] full_mesh_balanced [OF d] show ?thesis
      by (intro exI [of _ "peers ns"] exI [of _ "\<lambda>a. length (peers ns a)"]) simp
  next
    case RING_ALLREDUCE
    with ring_launches [OF _ assms(1,2)] ring_balanced [OF assms(1)] show ?thesis
      by (intro exI [of _ "\<lambda>a. [next_of ns a]"] exI [of _ "\<lambda>a. 1"]) simp
  next
    case DOUBLE_BINARY_TREE_ALLREDUCE
    with assms(3) have "even (length ns)" by (simp add: topology_fits_def)
    with dbt_launches [OF DOUBLE_BINARY_TREE_ALLREDUCE assms(1,2)] dbt_balanced [OF assms(1)]
    show ?thesis
      by (intro exI [of _ "\<lambda>a. fst (trees_of ns a ! 0) @ fst (trees_of ns a ! 1)"]
          exI [of _ "\<lambda>a. length (snd (trees_of ns a ! 0)) + length (snd (trees_of ns a ! 1))"]) simp
  next
    case TREE_ALLREDUCE
    with assms(3) obtain w k where "tree_width c = int w" "tree_ok ns w k" by (auto simp: topology_fits_def)
    with tree_launches [OF TREE_ALLREDUCE assms(1,2)] tree_balanced [of ns w k] show ?thesis
      by (intro exI [of _ "\<lambda>a. concat (groups_of ns w True a)"]
          exI [of _ "\<lambda>a. sum_list (map length (groups_of ns w True a))"]) simp
  qed (use assms(3) in \<open>simp_all add: topology_fits_def\<close>)
  then obtain X K where L: "launches c ns X K" and K: "\<forall>b \<in> set ns. K b = (\<Sum>a \<in> set ns. count_list (X a) b)"
    by blast
  let ?plan = "\<lambda>a. fst (projr (net_start_service_async (Suc (length ns)) a (node_of c ns a)))"
  have P: "\<exists>s'. net_start_service_async (Suc (length ns)) a (node_of c ns a) = Inr (?plan a, s')"
    "targets (?plan a) = X a" "expected (?plan a) = [int (K a)]" if mem: "a \<in> set ns" for a
  proof -
    obtain es s' where "net_start_service_async (Suc (length ns)) a (node_of c ns a) = Inr (es, s')"
      "targets es = X a" "expected es = [int (K a)]"
      using L [unfolded launches_def, rule_format, OF mem] by blast
    then show "\<exists>s'. net_start_service_async (Suc (length ns)) a (node_of c ns a) = Inr (?plan a, s')"
      "targets (?plan a) = X a" "expected (?plan a) = [int (K a)]" by simp_all
  qed
  have "(\<Sum>a \<in> set ns. count_list (targets (?plan a)) b) = (\<Sum>a \<in> set ns. count_list (X a) b)" for b
    using P(2) by (intro sum.cong) (simp_all only:)
  then have "\<forall>b \<in> set ns. expected (?plan b) = [int (\<Sum>a \<in> set ns. count_list (targets (?plan a)) b)]"
    using P(3) K by (auto simp only:)
  with P(1) show ?thesis by (intro exI [of _ ?plan] conjI ballI) simp_all
qed

text \<open>
  C1. In every topology the plans of the nodes fit together: with the same cluster configured
  everywhere, each node's server waits for exactly as many senders as there are clients that
  connect to it, and no node connects to itself or outside the cluster. (The double binary tree
  needs an even number of nodes, the tree a power of its width.)
\<close>

theorem every_connection_expected:
  assumes "cluster_ok ns" and "'''' \<notin> set ns" and "topology_fits c ns"
  shows "\<exists>plan. (\<forall>a \<in> set ns. \<exists>s'.
        net_start_service_async (Suc (length ns)) a (node_of c ns a) = Inr (plan a, s'))
    \<and> (\<forall>b \<in> set ns. expected (plan b) = [int (\<Sum>a \<in> set ns. count_list (targets (plan a)) b)])"
  by (rule plans_fit [OF assms])

theorem every_connection_expected_witness:
  "\<exists>plan. (\<forall>a \<in> set four_nodes. \<exists>s'. net_start_service_async (Suc (length four_nodes)) a
        (node_of (config_default\<lparr>all_reduce := TREE_ALLREDUCE, tree_width := 2\<rparr>) four_nodes a)
        = Inr (plan a, s'))
    \<and> (\<forall>b \<in> set four_nodes. expected (plan b)
        = [int (\<Sum>a \<in> set four_nodes. count_list (targets (plan a)) b)])"
proof (rule every_connection_expected)
  show "cluster_ok four_nodes" using tree_ok_four by (simp add: tree_ok_def cluster_ok_def)
  show "'''' \<notin> set four_nodes" by (simp add: four_nodes_def)
  show "topology_fits (config_default\<lparr>all_reduce := TREE_ALLREDUCE, tree_width := 2\<rparr>) four_nodes"
    using tree_ok_four by (auto simp: topology_fits_def intro: exI [of _ 2])
qed

text \<open>A server's plan keeps the option that says how it takes its connections.\<close>

lemma launch_clients_no_server: "launch_clients ip c xs = Inr es \<Longrightarrow> RDMAServer d \<notin> set es"
  by (induction xs arbitrary: es) (auto simp: bindR_eq_Inr_iff)

lemma plan_single_recv:
  assumes "net_start_service_async fuel ip s = Inr (es, s')" and "RDMAServer d \<in> set es"
  shows "single_recv d = single_recv (conf s)"
  using assms launch_clients_no_server
  by (auto simp: net_start_service_async_def server_client_service_def full_mesh_service_def ring_service_def
      double_binary_tree_service_def tree_service_def launch_server_def bindR_eq_Inr_iff Let_def get_local_ip_def
      split: if_splits all_reduce_type.splits)

lemma expected_server: "expected es = [k] \<Longrightarrow> \<exists>d. RDMAServer d \<in> set es \<and> num_senders d = k"
  by (induction es) (auto simp: expected_def split: endpoint.splits)

end
