(* ===== verification/Server.thy ===== *)
theory Server
  imports Session Services
begin

text \<open>
  The single-threaded receiver of \<open>RDMAServer\<close> (networking\_service/src/rdma\_server.cpp):
  \<open>do_reduce\<close> polls the sessions of a group in turn until each has received its block,
  \<open>broadcast\<close> answers them, and the four all-reduce drivers repeat the two over their
  groups. Sessions are numbered in \<open>sess_group\<close>; \<open>S\<close> maps a session to its adapter and
  queues hold session numbers. The drivers' endless loops are given a number of rounds.
\<close>

section \<open>One round over a group\<close>

type_synonym 'd sessions = "nat \<Rightarrow> 'd adapter"

text \<open>The first queue of a group is the one in flight, the second the one that is ready.\<close>

type_synonym session_group = "nat list \<times> nat list"

fun do_reduce :: "nat \<Rightarrow> 'd verbs \<Rightarrow> 'd sessions \<Rightarrow> session_group \<Rightarrow> ('d sessions \<times> session_group) result" where
  "do_reduce fuel V S ([], ready) = Inr (S, ([], ready))"
| "do_reduce 0 V S (s # inflight, ready) = Inl OutOfFuel"
| "do_reduce (Suc fuel) V S (s # inflight, ready) =
     bindR (sess_peek_status V (S s)) (\<lambda>(rc, wc, a1).
       if rc \<noteq> 0 \<and> wc_opcode_of wc = IBV_WC_RECV_RDMA_WITH_IMM
       then bindR (pull_ctrl V 1 a1) (\<lambda>(rc, a2). do_reduce fuel V (S(s := a2)) (inflight, ready @ [s]))
       else do_reduce fuel V (S(s := a1)) (inflight @ [s], ready))"

fun broadcast_loop :: "'d verbs \<Rightarrow> bool \<Rightarrow> 'd sessions \<Rightarrow> nat list \<Rightarrow> nat list \<Rightarrow> ('d sessions \<times> session_group) result" where
  "broadcast_loop V data_channel S inflight [] = Inr (S, (inflight, []))"
| "broadcast_loop V data_channel S inflight (s # ready) =
     bindR (if data_channel then push_data_sliced V 0 (cdiv (DATA_MSG_SIZE (acfg (S s))) 20) (S s)
            else push_ctrl V 0 (S s))
       (\<lambda>(rc, a). broadcast_loop V data_channel (S(s := a)) (inflight @ [s]) ready)"

definition broadcast :: "'d verbs \<Rightarrow> bool \<Rightarrow> 'd sessions \<Rightarrow> session_group \<Rightarrow> ('d sessions \<times> session_group) result" where
  "broadcast V data_channel S g = broadcast_loop V data_channel S (fst g) (snd g)"

section \<open>The drivers\<close>

text \<open>\<open>prepare\<close> is the setup of one session: \<open>session_init\<close>, a receive between two
  barriers. The ring, full mesh and double binary tree drivers share one group.\<close>

fun prepare_all :: "('d adapter \<Rightarrow> 'd adapter result) \<Rightarrow> 'd sessions \<Rightarrow> nat list \<Rightarrow> 'd sessions result" where
  "prepare_all prepare S [] = Inr S"
| "prepare_all prepare S (s # ss) = bindR (prepare (S s)) (\<lambda>a. prepare_all prepare (S(s := a)) ss)"

fun rounds :: "nat \<Rightarrow> nat \<Rightarrow> 'd verbs \<Rightarrow> 'd sessions \<Rightarrow> session_group \<Rightarrow> ('d sessions \<times> session_group) result" where
  "rounds 0 fuel V S g = Inr (S, g)"
| "rounds (Suc n) fuel V S g =
     bindR (do_reduce fuel V S g) (\<lambda>(S1, g1).
     bindR (broadcast V False S1 g1) (\<lambda>(S2, g2). rounds n fuel V S2 g2))"

definition full_mesh_allreduce ::
  "nat \<Rightarrow> nat \<Rightarrow> 'd verbs \<Rightarrow> ('d adapter \<Rightarrow> 'd adapter result) \<Rightarrow> nat \<Rightarrow> 'd sessions \<Rightarrow> ('d sessions \<times> session_group) result" where
  "full_mesh_allreduce n fuel V prepare count_sess S =
     bindR (prepare_all prepare S [0..<count_sess]) (\<lambda>S1. rounds n fuel V S1 ([0..<count_sess], []))"

definition ring_allreduce ::
  "nat \<Rightarrow> nat \<Rightarrow> 'd verbs \<Rightarrow> ('d adapter \<Rightarrow> 'd adapter result) \<Rightarrow> nat \<Rightarrow> 'd sessions \<Rightarrow> ('d sessions \<times> session_group) result" where
  "ring_allreduce n fuel V prepare count_sess S =
     bindR (prepare_all prepare S [0..<count_sess]) (\<lambda>S1. rounds n fuel V S1 ([0..<count_sess], []))"

definition double_binary_tree_allreduce ::
  "nat \<Rightarrow> nat \<Rightarrow> 'd verbs \<Rightarrow> ('d adapter \<Rightarrow> 'd adapter result) \<Rightarrow> nat \<Rightarrow> 'd sessions \<Rightarrow> ('d sessions \<times> session_group) result" where
  "double_binary_tree_allreduce n fuel V prepare count_sess S =
     bindR (prepare_all prepare S [0..<count_sess]) (\<lambda>S1. rounds n fuel V S1 ([0..<count_sess], []))"

text \<open>The tree driver puts every session into the group that holds its peer's address; a peer
  in no group is a fatal error, found while the sessions are prepared.\<close>

definition find_group :: "string list list \<Rightarrow> string \<Rightarrow> nat option" where
  "find_group groups peer = find_index (\<lambda>g. peer \<in> set (groups ! g)) 0 (length groups)"

fun assign_groups ::
  "('d adapter \<Rightarrow> 'd adapter result) \<Rightarrow> string list list \<Rightarrow> 'd sessions \<Rightarrow> (nat \<times> string) list
    \<Rightarrow> session_group list \<Rightarrow> ('d sessions \<times> session_group list) result" where
  "assign_groups prepare groups S [] gs = Inr (S, gs)"
| "assign_groups prepare groups S ((s, peer) # rest) gs =
     bindR (prepare (S s)) (\<lambda>a.
       case find_group groups peer of
         None \<Rightarrow> Inl LogFatal
       | Some g \<Rightarrow> assign_groups prepare groups (S(s := a)) rest
           (gs[g := (fst (gs ! g) @ [s], snd (gs ! g))]))"

fun reduce_groups :: "nat \<Rightarrow> 'd verbs \<Rightarrow> 'd sessions \<Rightarrow> session_group list \<Rightarrow> ('d sessions \<times> session_group list) result" where
  "reduce_groups fuel V S [] = Inr (S, [])"
| "reduce_groups fuel V S (g # gs) =
     bindR (do_reduce fuel V S g) (\<lambda>(S1, g1).
     bindR (reduce_groups fuel V S1 gs) (\<lambda>(S2, gs2). Inr (S2, g1 # gs2)))"

text \<open>The broadcasts run from the last group to the first.\<close>

fun broadcast_groups :: "'d verbs \<Rightarrow> 'd sessions \<Rightarrow> session_group list \<Rightarrow> ('d sessions \<times> session_group list) result" where
  "broadcast_groups V S [] = Inr (S, [])"
| "broadcast_groups V S (g # gs) =
     bindR (broadcast_groups V S gs) (\<lambda>(S1, gs1).
     bindR (broadcast V False S1 g) (\<lambda>(S2, g2). Inr (S2, g2 # gs1)))"

fun tree_rounds :: "nat \<Rightarrow> nat \<Rightarrow> 'd verbs \<Rightarrow> 'd sessions \<Rightarrow> session_group list \<Rightarrow> ('d sessions \<times> session_group list) result" where
  "tree_rounds 0 fuel V S gs = Inr (S, gs)"
| "tree_rounds (Suc n) fuel V S gs =
     bindR (reduce_groups fuel V S gs) (\<lambda>(S1, gs1).
     bindR (broadcast_groups V S1 gs1) (\<lambda>(S2, gs2). tree_rounds n fuel V S2 gs2))"

definition tree_allreduce ::
  "nat \<Rightarrow> nat \<Rightarrow> 'd verbs \<Rightarrow> ('d adapter \<Rightarrow> 'd adapter result) \<Rightarrow> config \<Rightarrow> string list \<Rightarrow> 'd sessions
    \<Rightarrow> ('d sessions \<times> session_group list) result" where
  "tree_allreduce n fuel V prepare c peers_ip S =
     bindR (assign_groups prepare (sub_groups c) S (zip [0..<length peers_ip] peers_ip)
        (replicate (length (sub_groups c)) ([], [])))
       (\<lambda>(S1, gs). tree_rounds n fuel V S1 gs)"

section \<open>A round completes and restores the group\<close>

text \<open>A session that answers its block at the poll after \<open>n\<close> others, and the adapter it is
  then left with.\<close>

fun ready_after :: "'d verbs \<Rightarrow> nat \<Rightarrow> 'd adapter \<Rightarrow> 'd adapter option" where
  "ready_after V 0 a =
     (case sess_peek_status V a of
        Inr (rc, wc, a1) \<Rightarrow>
          if rc \<noteq> 0 \<and> wc_opcode_of wc = IBV_WC_RECV_RDMA_WITH_IMM
          then (case pull_ctrl V 1 a1 of Inr (rc, a2) \<Rightarrow> Some a2 | Inl e \<Rightarrow> None) else None
      | Inl e \<Rightarrow> None)"
| "ready_after V (Suc n) a =
     (case sess_peek_status V a of
        Inr (rc, wc, a1) \<Rightarrow>
          if rc \<noteq> 0 \<and> wc_opcode_of wc = IBV_WC_RECV_RDMA_WITH_IMM then None else ready_after V n a1
      | Inl e \<Rightarrow> None)"

lemma do_reduce_completes:
  "distinct q \<Longrightarrow> \<forall>s \<in> set q. ready_after V (N s) (S s) = Some (F s) \<Longrightarrow>
   (\<Sum>s \<leftarrow> q. Suc (N s)) \<le> fuel \<Longrightarrow>
   \<exists>r'. do_reduce fuel V S (q, r) = Inr (\<lambda>s. if s \<in> set q then F s else S s, ([], r @ r'))
     \<and> mset r' = mset q"
proof (induction fuel arbitrary: q r S N)
  case 0
  then have "q = []" by (cases q) auto
  then show ?case by simp
next
  case (Suc fuel)
  show ?case
  proof (cases q)
    case (Cons s p)
    then have s: "s \<notin> set p" "ready_after V (N s) (S s) = Some (F s)" using Suc.prems by auto
    show ?thesis
    proof (cases "N s")
      case 0
      then obtain rc wc a1 rc' where pk: "sess_peek_status V (S s) = Inr (rc, wc, a1)"
        "rc \<noteq> 0" "wc_opcode_of wc = IBV_WC_RECV_RDMA_WITH_IMM" "pull_ctrl V 1 a1 = Inr (rc', F s)"
        using s(2) by (auto split: sum.splits prod.splits if_splits)
      have "\<exists>r'. do_reduce fuel V (S(s := F s)) (p, r @ [s])
          = Inr (\<lambda>t. if t \<in> set p then F t else (S(s := F s)) t, ([], (r @ [s]) @ r')) \<and> mset r' = mset p"
        using Suc.prems Cons 0 s(1) by (intro Suc.IH [where N = N]) auto
      then obtain r' where r': "do_reduce fuel V (S(s := F s)) (p, r @ [s])
          = Inr (\<lambda>t. if t \<in> set p then F t else (S(s := F s)) t, ([], (r @ [s]) @ r'))" "mset r' = mset p"
        by blast
      have "(\<lambda>t. if t \<in> set p then F t else (S(s := F s)) t) = (\<lambda>t. if t \<in> set q then F t else S t)"
        using Cons by auto
      with r' pk Cons show ?thesis by (intro exI [of _ "s # r'"]) simp
    next
      case (Suc n)
      then obtain rc wc a1 where pk: "sess_peek_status V (S s) = Inr (rc, wc, a1)"
        "\<not> (rc \<noteq> 0 \<and> wc_opcode_of wc = IBV_WC_RECV_RDMA_WITH_IMM)" "ready_after V n a1 = Some (F s)"
        using s(2) by (auto split: sum.splits prod.splits if_splits)
      have "\<exists>r'. do_reduce fuel V (S(s := a1)) (p @ [s], r)
          = Inr (\<lambda>t. if t \<in> set (p @ [s]) then F t else (S(s := a1)) t, ([], r @ r')) \<and> mset r' = mset (p @ [s])"
      proof (rule Suc.IH [where N = "N(s := n)"])
        have "(\<Sum>t \<leftarrow> p. Suc ((N(s := n)) t)) = (\<Sum>t \<leftarrow> p. Suc (N t))"
          using s(1) by (intro arg_cong [of _ _ sum_list] map_cong) auto
        then show "(\<Sum>t \<leftarrow> p @ [s]. Suc ((N(s := n)) t)) \<le> fuel"
          using Suc.prems(3) Cons Suc by simp
      qed (use Suc.prems Cons pk(3) s(1) in auto)
      moreover have "(\<lambda>t. if t \<in> set (p @ [s]) then F t else (S(s := a1)) t)
          = (\<lambda>t. if t \<in> set q then F t else S t)"
        using Cons by auto
      ultimately show ?thesis using pk Cons by auto
    qed
  qed simp
qed

lemma broadcast_completes:
  "distinct r \<Longrightarrow> \<forall>s \<in> set r. \<exists>rc. push_ctrl V 0 (S s) = Inr (rc, G s) \<Longrightarrow>
   broadcast_loop V False S q r = Inr (\<lambda>s. if s \<in> set r then G s else S s, (q @ r, []))"
proof (induction r arbitrary: S q)
  case (Cons s r)
  then obtain rc where "push_ctrl V 0 (S s) = Inr (rc, G s)" by auto
  moreover have "broadcast_loop V False (S(s := G s)) (q @ [s]) r
      = Inr (\<lambda>t. if t \<in> set r then G t else (S(s := G s)) t, ((q @ [s]) @ r, []))"
    using Cons.prems by (intro Cons.IH) auto
  moreover have "(\<lambda>t. if t \<in> set r then G t else (S(s := G s)) t) = (\<lambda>t. if t \<in> set (s # r) then G t else S t)"
    by auto
  ultimately show ?case by simp
qed simp

text \<open>
  C19. A round over a group completes and restores it: when every session delivers its block after
  some number of polls, \<open>do_reduce\<close> followed by \<open>broadcast\<close> returns with every session back
  in flight exactly once; each has reposted one receive and answered with one control message,
  and no other session was touched.
\<close>

theorem round_restores_group:
  assumes "distinct q" and "\<forall>s \<in> set q. ready_after V (N s) (S s) = Some (F s)"
    and "\<forall>s \<in> set q. \<exists>rc. push_ctrl V 0 (F s) = Inr (rc, G s)"
    and "(\<Sum>s \<leftarrow> q. Suc (N s)) \<le> fuel"
  shows "\<exists>S1 g1 q'. do_reduce fuel V S (q, []) = Inr (S1, g1)
    \<and> broadcast V False S1 g1 = Inr (\<lambda>s. if s \<in> set q then G s else S s, (q', []))
    \<and> mset q' = mset q"
proof -
  obtain r where r: "do_reduce fuel V S (q, []) = Inr (\<lambda>s. if s \<in> set q then F s else S s, ([], r))"
    "mset r = mset q"
    using do_reduce_completes [OF assms(1,2,4), of "[]"] by auto
  have "set r = set q" "distinct r"
    using r(2) assms(1) by (metis mset_eq_setD, metis mset_eq_imp_distinct_iff)
  moreover have "broadcast_loop V False (\<lambda>s. if s \<in> set q then F s else S s) [] r
      = Inr (\<lambda>s. if s \<in> set r then G s else (if s \<in> set q then F s else S s), ([] @ r, []))"
    using assms(3) \<open>set r = set q\<close> by (intro broadcast_completes \<open>distinct r\<close>) auto
  moreover have "(\<lambda>s. if s \<in> set q then G s else (if s \<in> set q then F s else S s))
      = (\<lambda>s. if s \<in> set q then G s else S s)"
    by auto
  ultimately show ?thesis using r by (simp add: broadcast_def)
qed

section \<open>The groups of the tree driver\<close>

lemma assign_groups_ok:
  assumes "\<And>a. \<exists>a'. prepare a = Inr a'"
  shows "\<forall>p \<in> set l. find_group groups (snd p) \<noteq> None \<Longrightarrow> length gs = length groups \<Longrightarrow>
    \<exists>S'. assign_groups prepare groups S l gs =
      Inr (S', map (\<lambda>g. (fst (gs ! g) @ map fst (filter (\<lambda>p. find_group groups (snd p) = Some g) l), snd (gs ! g)))
        [0..<length groups])"
proof (induction l arbitrary: S gs)
  case Nil
  then show ?case by (simp add: map_nth [symmetric] del: map_nth) (metis map_nth)
next
  case (Cons x l)
  obtain s p where x: "x = (s, p)" by (cases x)
  obtain a where a: "prepare (S s) = Inr a" using assms by blast
  obtain g where g: "find_group groups p = Some g" using Cons.prems(1) x by auto
  then have gl: "g < length groups" by (auto simp: find_group_def dest: find_index_Some)
  let ?gs = "gs[g := (fst (gs ! g) @ [s], snd (gs ! g))]"
  obtain S' where S': "assign_groups prepare groups (S(s := a)) l ?gs =
      Inr (S', map (\<lambda>g. (fst (?gs ! g) @ map fst (filter (\<lambda>p. find_group groups (snd p) = Some g) l), snd (?gs ! g)))
        [0..<length groups])"
    using Cons.IH [of ?gs "S(s := a)"] Cons.prems by (auto simp del: fun_upd_apply)
  moreover have "map (\<lambda>g. (fst (?gs ! g) @ map fst (filter (\<lambda>p. find_group groups (snd p) = Some g) l), snd (?gs ! g)))
        [0..<length groups]
      = map (\<lambda>g. (fst (gs ! g) @ map fst (filter (\<lambda>p. find_group groups (snd p) = Some g) (x # l)), snd (gs ! g)))
        [0..<length groups]"
    using gl g x Cons.prems(2) by (intro map_cong refl) (auto simp: nth_list_update)
  ultimately show ?case using a g x by simp
qed

lemma groups_disjoint:
  assumes "tree_ok ns w k" and "a \<in> set ns" and "l < l'" and "l' < k"
  shows "set (groups_of ns w True a ! l) \<inter> set (groups_of ns w True a ! l') = {}"
proof -
  obtain i where i: "i < length ns" "a = ns ! i" using assms(2) by (auto simp: in_set_conv_nth)
  have d: "distinct ns" using assms(1) by (simp add: tree_ok_def)
  have "i = j" if "same_group w l i j" "same_group w l' i j" for j
  proof -
    have "w ^ Suc l dvd w ^ l'" using assms(3) by (intro le_imp_power_dvd) simp
    then have "i mod w ^ Suc l = j mod w ^ Suc l"
      using that(2) unfolding same_group_def by (metis mod_mod_cancel)
    moreover have "i div w ^ Suc l = j div w ^ Suc l" using that(1) by (simp add: same_group_def)
    ultimately show ?thesis by (metis div_mult_mod_eq)
  qed
  then show ?thesis
    using groups_of_nth(2) [OF assms(1) i(1), of True] group_at_distinct(2) [OF assms(1) i(1)] assms(3,4) d i
    by (auto simp: nth_eq_iff_index_eq) blast
qed

lemma groups_concat_distinct:
  assumes "tree_ok ns w k" and "a \<in> set ns" and "groups = groups_of ns w True a"
  shows "distinct (concat groups)"
proof -
  have len: "length groups = k" and shape: "\<forall>g \<in> set groups. distinct g \<and> length g = w - 1"
    using groups_shape [OF assms(1,2)] assms(3) by (auto simp: groups_of_def)
  have w: "w \<ge> 2" using assms(1) by (simp add: tree_ok_def)
  have dis: "set (groups ! l) \<inter> set (groups ! l') = {}" if "l \<noteq> l'" "l < k" "l' < k" for l l'
    using groups_disjoint [OF assms(1,2), of l l'] groups_disjoint [OF assms(1,2), of l' l] that assms(3)
    by (cases "l < l'") auto
  have "groups ! l \<noteq> groups ! l'" if "l \<noteq> l'" "l < k" "l' < k" for l l'
    using dis [OF that] shape w that(2) len nth_mem [of l groups] by fastforce
  then have "distinct groups" using len by (simp add: distinct_conv_nth)
  moreover have "set g \<inter> set h = {}" if "g \<in> set groups" "h \<in> set groups" "g \<noteq> h" for g h
    using that dis len by (metis in_set_conv_nth)
  ultimately show ?thesis using shape by (intro distinct_concat) auto
qed

lemma find_group_iff:
  assumes "tree_ok ns w k" and "a \<in> set ns" and "l < k" and "groups = groups_of ns w True a"
    and "p \<in> set (concat groups)"
  shows "find_group groups p = Some l \<longleftrightarrow> p \<in> set (groups ! l)"
proof -
  have len: "length groups = k" using groups_shape [OF assms(1,2)] assms(4) by (auto simp: groups_of_def)
  obtain g where "g \<in> set groups" "p \<in> set g" using assms(5) by auto
  then obtain m where m: "m < k" "p \<in> set (groups ! m)"
    using len by (metis in_set_conv_nth)
  have uniq: "m' = m" if "m' < k" "p \<in> set (groups ! m')" for m'
    using groups_disjoint [OF assms(1,2), of m m'] groups_disjoint [OF assms(1,2), of m' m] that m assms(4)
    by (metis disjoint_iff linorder_neqE_nat)
  have "find_group groups p \<noteq> None" using m len by (auto simp: find_group_def find_index_None)
  then obtain m' where "find_group groups p = Some m'" by auto
  moreover from this have "m' < k" "p \<in> set (groups ! m')"
    using find_index_Some [of _ 0 "length groups" m'] len by (auto simp: find_group_def)
  ultimately show ?thesis using uniq assms(3) m by (metis option.inject)
qed

lemma filter_indexed:
  "map ((!) xs) (map fst (filter (\<lambda>p. Q (snd p)) (zip [0..<length xs] xs))) = filter Q xs"
proof -
  have "map ((!) xs) (map fst (filter P (zip [0..<length xs] xs))) = map snd (filter P (zip [0..<length xs] xs))" for P
    by (auto simp: set_zip)
  then have "map ((!) xs) (map fst (filter (\<lambda>p. Q (snd p)) (zip [0..<length xs] xs)))
      = map snd (filter (Q \<circ> snd) (zip [0..<length xs] xs))"
    by (simp only: comp_def)
  also have "\<dots> = filter Q xs" by (simp only: filter_map [symmetric]) simp
  finally show ?thesis .
qed

text \<open>The sessions whose peers are in the group of a stage.\<close>

definition stage_sessions :: "string list list \<Rightarrow> string list \<Rightarrow> nat \<Rightarrow> nat list" where
  "stage_sessions groups ips l = map fst (filter (\<lambda>p. find_group groups (snd p) = Some l) (zip [0..<length ips] ips))"

lemma stage_sessions_peers:
  assumes "tree_ok ns w k" and "a \<in> set ns" and "groups = groups_of ns w True a"
    and "set ips = set (concat groups)" and "l < k"
  shows "map ((!) ips) (stage_sessions groups ips l) = filter (\<lambda>p. p \<in> set (groups ! l)) ips"
proof -
  have fg: "find_group groups p = Some l \<longleftrightarrow> p \<in> set (groups ! l)" if "p \<in> set ips" for p
    using find_group_iff [OF assms(1,2,5,3)] that assms(4) by simp
  have "map ((!) ips) (stage_sessions groups ips l) = filter (\<lambda>p. find_group groups p = Some l) ips"
    unfolding stage_sessions_def by (rule filter_indexed)
  also have "\<dots> = filter (\<lambda>p. p \<in> set (groups ! l)) ips" using fg by (intro filter_cong) auto
  finally show ?thesis .
qed

lemma stage_sessions_complete:
  assumes "tree_ok ns w k" and "a \<in> set ns" and "groups = groups_of ns w True a"
    and "mset ips = mset (concat groups)" and "l < k"
  shows "length (stage_sessions groups ips l) = w - 1 \<and> set (map ((!) ips) (stage_sessions groups ips l)) = set (groups ! l)"
proof -
  have len: "length groups = k" and shape: "\<forall>g \<in> set groups. distinct g \<and> length g = w - 1"
    using groups_shape [OF assms(1,2)] assms(3) by (auto simp: groups_of_def)
  have ips: "set ips = set (concat groups)" using assms(4) by (rule mset_eq_setD)
  note peers = stage_sessions_peers [OF assms(1,2,3) ips assms(5)]
  have dist: "distinct ips"
    using groups_concat_distinct [OF assms(1,2,3)] assms(4) by (metis mset_eq_imp_distinct_iff)
  have s: "set (map ((!) ips) (stage_sessions groups ips l)) = set (groups ! l)"
    using ips assms(5) len nth_mem [of l groups] by (auto simp only: peers set_filter set_concat)
  have "length (stage_sessions groups ips l) = length (map ((!) ips) (stage_sessions groups ips l))" by simp
  also have "\<dots> = card (set (groups ! l))" using s peers dist by (metis distinct_card distinct_filter)
  also have "\<dots> = w - 1" using shape assms(5) len by (simp add: distinct_card)
  finally show ?thesis using s by blast
qed

lemma tree_assigns:
  assumes "tree_ok ns w k" and "a \<in> set ns" and "groups = groups_of ns w True a"
    and "mset ips = mset (concat groups)" and "\<And>x. \<exists>y. prepare x = Inr y"
  shows "\<exists>S'. assign_groups prepare groups S (zip [0..<length ips] ips) (replicate (length groups) ([], [])) =
      Inr (S', map (\<lambda>l. (stage_sessions groups ips l, [])) [0..<k])"
proof -
  let ?z = "zip [0..<length ips] ips"
  have len: "length groups = k" using groups_shape [OF assms(1,2)] assms(3) by (auto simp: groups_of_def)
  have ips: "set ips = set (concat groups)" using assms(4) by (rule mset_eq_setD)
  have "find_group groups p \<noteq> None" if p: "p \<in> set ips" for p
  proof -
    obtain l where "l < k" "p \<in> set (groups ! l)" using p ips len by (metis (no_types, lifting) UN_E in_set_conv_nth set_concat)
    then show ?thesis using find_group_iff [OF assms(1,2) _ assms(3), of l p] p ips by auto
  qed
  then have "\<forall>p \<in> set ?z. find_group groups (snd p) \<noteq> None" by (auto dest: set_zip_rightD)
  then show ?thesis
    using assign_groups_ok [where prepare = prepare and l = ?z and groups = groups and S = S
        and gs = "replicate (length groups) ([], [])", OF assms(5)] len
    by (auto simp: stage_sessions_def)
qed

text \<open>
  The tree driver's groups are those of the topology: when one session from each node of
  \<open>extract_sub_groups\<close>' groups has connected, no session is without a group, and each stage
  waits exactly for the sessions of its own \<open>w - 1\<close> nodes, whatever the order of connection.
\<close>

theorem tree_sessions_grouped:
  assumes "tree_ok ns w k" and "a \<in> set ns" and "groups = groups_of ns w True a"
    and "mset ips = mset (concat groups)" and "\<And>x. \<exists>y. prepare x = Inr y"
  shows "\<exists>S' gs. assign_groups prepare groups S (zip [0..<length ips] ips)
        (replicate (length groups) ([], [])) = Inr (S', gs)
    \<and> length gs = k
    \<and> (\<forall>l < k. snd (gs ! l) = [] \<and> length (fst (gs ! l)) = w - 1
         \<and> set (map ((!) ips) (fst (gs ! l))) = set (groups ! l))"
proof -
  obtain S' where "assign_groups prepare groups S (zip [0..<length ips] ips) (replicate (length groups) ([], [])) =
      Inr (S', map (\<lambda>l. (stage_sessions groups ips l, [])) [0..<k])"
    using tree_assigns [where prepare = prepare and S = S, OF assms] by blast
  then show ?thesis
    using stage_sessions_complete [OF assms(1-4)]
    by (intro exI [of _ S'] exI [of _ "map (\<lambda>l. (stage_sessions groups ips l, [])) [0..<k]"]) simp
qed

text \<open>A device whose state is the number of empty polls before a block has arrived.\<close>

definition waiting_device :: "nat verbs" where
  "waiting_device = still_device\<lparr>ibv_poll_cq := (\<lambda>d q. (if d = 0 then 1 else 0,
     \<lparr>wc_status = 0, wc_opcode_of = IBV_WC_RECV_RDMA_WITH_IMM, wc_imm = 0\<rparr>, d - 1))\<rparr>"

definition waiting_adapter :: "nat \<Rightarrow> nat adapter" where
  "waiting_adapter n = \<lparr>acfg = config_default, res = resources_zero, dev = n\<rparr>"

theorem round_restores_group_witness:
  "\<exists>S1 g1 q'. do_reduce 3 waiting_device waiting_adapter ([1, 0], []) = Inr (S1, g1)
    \<and> broadcast waiting_device False S1 g1
      = Inr (\<lambda>s. if s \<in> set [1, 0] then waiting_adapter 0 else waiting_adapter s, (q', []))
    \<and> mset q' = mset [1, 0]"
proof (rule round_restores_group [where N = "\<lambda>s. s" and F = "\<lambda>s. waiting_adapter 0" and G = "\<lambda>s. waiting_adapter 0"])
  show "\<forall>s \<in> set [1, 0]. ready_after waiting_device s (waiting_adapter s) = Some (waiting_adapter 0)"
    by (simp add: waiting_device_def still_device_def waiting_adapter_def sess_peek_status_def wait_event_def
      peek_status_def pull_ctrl_def post_ctrl_recv_def config_default_def norm_index_def ctrl_recv_wr_def Let_def)
  show "\<forall>s \<in> set [1, 0]. \<exists>rc. push_ctrl waiting_device 0 (waiting_adapter 0) = Inr (rc, waiting_adapter 0)"
    by (simp add: waiting_device_def still_device_def waiting_adapter_def push_ctrl_def post_ctrl_send_def
      do_post_send_def config_default_def norm_index_def ctrl_send_wr_def Let_def)
qed simp_all

theorem tree_sessions_grouped_witness:
  "\<exists>S' gs. assign_groups Inr (groups_of four_nodes 2 True ''n1'') waiting_adapter
        (zip [0..<length (concat (groups_of four_nodes 2 True ''n1''))] (concat (groups_of four_nodes 2 True ''n1'')))
        (replicate (length (groups_of four_nodes 2 True ''n1'')) ([], [])) = Inr (S', gs) \<and> length gs = 2"
  using tree_sessions_grouped [OF tree_ok_four _ refl refl, of "''n1''" Inr waiting_adapter]
  by (auto simp: four_nodes_def)

end
