(* ===== verification/Endnode.thy ===== *)
theory Endnode
  imports Resources Server
begin

text \<open>
  The two kinds of \<open>RDMAEndNode\<close> (networking\_service/include/endnode.h, src/rdma\_server.cpp,
  src/rdma\_client.cpp, include/ip\_qos\_helper.h) and the setup of a session
  (src/rdma\_session.cpp): preparing the socket, accepting or making connections, and handing the
  sessions to the all-reduce drivers. The socket calls are a parameter. The server's loop never
  ends by itself unless it counts its senders, so it is given fuel.
\<close>

section \<open>Socket options\<close>

datatype sockopt = IP_TOS | SO_PRIORITY | SO_REUSEADDR

text \<open>Calls answer a return code first; \<open>n_accept\<close> the descriptor, the address and the port of
  the next client.\<close>

record 'e netcalls =
  n_socket :: "'e \<Rightarrow> int \<times> 'e"
  n_getsockopt :: "'e \<Rightarrow> int \<Rightarrow> sockopt \<Rightarrow> int \<times> int \<times> 'e"
  n_setsockopt :: "'e \<Rightarrow> int \<Rightarrow> sockopt \<Rightarrow> int \<Rightarrow> int \<times> 'e"
  n_bind :: "'e \<Rightarrow> int \<Rightarrow> u32 \<Rightarrow> int \<times> 'e"
  n_listen :: "'e \<Rightarrow> int \<Rightarrow> int \<Rightarrow> int \<times> 'e"
  n_accept :: "'e \<Rightarrow> int \<Rightarrow> int \<times> string \<times> int \<times> 'e"
  n_connect :: "'e \<Rightarrow> int \<Rightarrow> string \<Rightarrow> u32 \<Rightarrow> int \<times> 'e"

text \<open>Read the option, set it, read it again and compare.\<close>

definition set_and_check :: "'e netcalls \<Rightarrow> sockopt \<Rightarrow> int \<Rightarrow> int \<Rightarrow> 'e \<Rightarrow> int \<times> 'e" where
  "set_and_check N so sock v e =
     (let (rc, old, e1) = n_getsockopt N e sock so in
      if rc < 0 then (- 1, e1)
      else let (rc, e2) = n_setsockopt N e1 sock so v in
        if rc < 0 then (- 1, e2)
        else let (rc, new, e3) = n_getsockopt N e2 sock so in
          if rc < 0 then (- 1, e3) else (if new \<noteq> v then - 1 else 0, e3))"

definition set_and_check_ip_tos :: "'e netcalls \<Rightarrow> int \<Rightarrow> int \<Rightarrow> 'e \<Rightarrow> int \<times> 'e" where
  "set_and_check_ip_tos N sock tos e = set_and_check N IP_TOS sock tos e"

definition set_and_check_ip_priority :: "'e netcalls \<Rightarrow> int \<Rightarrow> int \<Rightarrow> 'e \<Rightarrow> int \<times> 'e" where
  "set_and_check_ip_priority N sock prio e =
     (if prio > 6 \<or> prio < 0 then (- 1, e) else set_and_check N SO_PRIORITY sock prio e)"

definition set_socket_reuse :: "'e netcalls \<Rightarrow> int \<Rightarrow> 'e \<Rightarrow> int \<times> 'e" where
  "set_socket_reuse N sock e =
     (let (rc, e1) = n_setsockopt N e sock SO_REUSEADDR 1 in (if rc < 0 then - 1 else 0, e1))"

section \<open>Sessions\<close>

text \<open>A session is made from the descriptor, the address and the port of its peer.\<close>

type_synonym peer_info = "int \<times> string \<times> int"

definition session_new :: "config \<Rightarrow> 'd \<Rightarrow> 'd adapter" where
  "session_new c d = \<lparr>acfg = c, res = resources_zero, dev = d\<rparr>"

text \<open>\<open>session_init\<close> ignores what its steps report.\<close>

definition session_init ::
  "'d verbs \<Rightarrow> (u8 list \<Rightarrow> 's \<Rightarrow> int \<times> u8 list \<times> 's) \<Rightarrow> 'd adapter \<Rightarrow> 's \<Rightarrow> ('d adapter \<times> 's) result" where
  "session_init V sync a s =
     bindR (resources_init sync a s) (\<lambda>(a1, s1).
     bindR (resources_create V a1) (\<lambda>(rc, contents, a2).
     bindR (connect_qp V sync a2 s1) (\<lambda>(rc, a3, s2). Inr (a3, s2))))"

text \<open>What the drivers do with each session first; \<open>sk\<close> is the state of its socket.\<close>

definition prepare_session ::
  "'d verbs \<Rightarrow> (u8 list \<Rightarrow> 's \<Rightarrow> int \<times> u8 list \<times> 's) \<Rightarrow> ('d adapter \<Rightarrow> 's) \<Rightarrow> 'd adapter \<Rightarrow> 'd adapter result" where
  "prepare_session V sync sk a =
     bindR (session_init V sync a (sk a)) (\<lambda>(a1, s1).
     bindR (tests_setup V (\<lambda>s. let (rc, bs, s') = sync [of_char CHR ''0''] s in (rc, s')) a1 s1)
       (\<lambda>(a2, s2). Inr a2))"

section \<open>The nodes\<close>

record endnode =
  en_sock :: int
  en_conf :: config
  en_connected :: bool
  en_sessions :: "peer_info list"
  en_threads :: "peer_info list"

definition endnode_new :: "config \<Rightarrow> endnode" where
  "endnode_new c = \<lparr>en_sock = 0, en_conf = c, en_connected = False, en_sessions = [], en_threads = []\<rparr>"

definition open_root :: "'e netcalls \<Rightarrow> endnode \<times> 'e \<Rightarrow> (endnode \<times> 'e) result" where
  "open_root N s = (let (n, e) = s in
     if en_sock n = 0
     then let (fd, e1) = n_socket N e in
       if fd \<le> 0 then Inl LogFatal else Inr (n\<lparr>en_sock := fd\<rparr>, e1)
     else Inr (n, e))"

text \<open>Type of service 0x10 and priority 4; failures are only reported.\<close>

definition set_options :: "'e netcalls \<Rightarrow> endnode \<times> 'e \<Rightarrow> endnode \<times> 'e" where
  "set_options N s = (let (n, e) = s in
     (n, snd (set_and_check_ip_priority N (en_sock n) 4 (snd (set_and_check_ip_tos N (en_sock n) 0x10 e)))))"

definition server_config_check :: "endnode \<Rightarrow> unit result" where
  "server_config_check n = guardR (tcp_port (en_conf n) \<noteq> 0) LogFatal"

definition server_pre_connect :: "'e netcalls \<Rightarrow> endnode \<times> 'e \<Rightarrow> (endnode \<times> 'e) result" where
  "server_pre_connect N s =
     bindR (open_root N s) (\<lambda>s1. let (n, e) = set_options N s1; (rc, e') = set_socket_reuse N (en_sock n) e in
     bindR (server_config_check n) (\<lambda>_. Inr (n, e')))"

definition handle_with_new_connect :: "peer_info \<Rightarrow> endnode \<Rightarrow> endnode" where
  "handle_with_new_connect p n =
     (if single_recv (en_conf n) then n\<lparr>en_sessions := en_sessions n @ [p]\<rparr>
      else n\<lparr>en_threads := en_threads n @ [p]\<rparr>)"

fun accept_loop :: "nat \<Rightarrow> 'e netcalls \<Rightarrow> int \<Rightarrow> endnode \<times> 'e \<Rightarrow> (endnode \<times> 'e) result" where
  "accept_loop 0 N connected s = Inl OutOfFuel"
| "accept_loop (Suc fuel) N connected s = (let (n, e) = s; (fd, ip, port, e1) = n_accept N e (en_sock n) in
     if fd = - 1 then Inl LogFatal
     else let n1 = handle_with_new_connect (fd, ip, port) n in
       if single_recv (en_conf n) \<and> connected + 1 = num_senders (en_conf n) then Inr (n1, e1)
       else accept_loop fuel N (connected + 1) (n1, e1))"

definition server_connecting :: "nat \<Rightarrow> 'e netcalls \<Rightarrow> endnode \<times> 'e \<Rightarrow> (endnode \<times> 'e) result" where
  "server_connecting fuel N s = (let (n, e) = s; (rc, e1) = n_bind N e (en_sock n) (tcp_port (en_conf n)) in
     if rc < 0 then Inl LogFatal
     else let (rc, e2) = n_listen N e1 (en_sock n) 1024 in
       if rc < 0 then Inl LogFatal
       else bindR (accept_loop fuel N 0 (n, e2)) (\<lambda>(n', e'). Inr (n'\<lparr>en_connected := True\<rparr>, e')))"

text \<open>\<open>post_connect\<close> of the server, for a number of rounds of the driver it chooses.\<close>

definition server_post_connect ::
  "nat \<Rightarrow> nat \<Rightarrow> 'd verbs \<Rightarrow> ('d adapter \<Rightarrow> 'd adapter result) \<Rightarrow> endnode \<Rightarrow> 'd sessions
    \<Rightarrow> ('d sessions \<times> session_group list) result" where
  "server_post_connect k fuel V prepare n S =
     (let ns = length (en_sessions n); one = (\<lambda>(S', g). Inr (S', [g])) in
      if \<not> en_connected n then Inl LogFatal
      else case all_reduce (en_conf n) of
        FULL_MESH_ALLREDUCE \<Rightarrow> bindR (full_mesh_allreduce k fuel V prepare ns S) one
      | TREE_ALLREDUCE \<Rightarrow> tree_allreduce k fuel V prepare (en_conf n) (map (\<lambda>(fd, ip, port). ip) (en_sessions n)) S
      | RING_ALLREDUCE \<Rightarrow> bindR (ring_allreduce k fuel V prepare ns S) one
      | DOUBLE_BINARY_TREE_ALLREDUCE \<Rightarrow> bindR (double_binary_tree_allreduce k fuel V prepare ns S) one
      | SERVER_CLIENT \<Rightarrow> bindR (full_mesh_allreduce k fuel V prepare ns S) one
      | _ \<Rightarrow> Inl LogFatal)"

section \<open>The client\<close>

definition client_config_check :: "endnode \<Rightarrow> unit result" where
  "client_config_check n = guardR (\<not> (tcp_port (en_conf n) = 0 \<or> server_name (en_conf n) = '''')) LogFatal"

definition client_pre_connect :: "'e netcalls \<Rightarrow> endnode \<times> 'e \<Rightarrow> (endnode \<times> 'e) result" where
  "client_pre_connect N s =
     bindR (open_root N s) (\<lambda>s1. let (n, e) = set_options N s1 in
     bindR (client_config_check n) (\<lambda>_. Inr (n, e)))"

text \<open>\<open>do ... while (count_try-- > 0)\<close> from 3000.\<close>

function connect_loop :: "'e netcalls \<Rightarrow> int \<Rightarrow> endnode \<times> 'e \<Rightarrow> endnode \<times> 'e" where
  "connect_loop N count_try s = (let (n, e) = s;
      (rc, e1) = n_connect N e (en_sock n) (server_name (en_conf n)) (tcp_port (en_conf n)) in
      if rc = 0 then (n\<lparr>en_connected := True\<rparr>, e1)
      else if count_try > 0 then connect_loop N (count_try - 1) (n, e1) else (n, e1))"
  by auto
termination by (relation "measure (\<lambda>(N, count_try, s). nat count_try)") auto

declare connect_loop.simps [simp del]

definition client_connecting :: "'e netcalls \<Rightarrow> endnode \<times> 'e \<Rightarrow> endnode \<times> 'e" where
  "client_connecting N s = connect_loop N (10 * 300) s"

text \<open>After the exchange, which never ends, the process would abort; \<open>passes\<close> bounds it.\<close>

definition client_post_connect ::
  "nat \<Rightarrow> nat \<Rightarrow> 'd verbs \<Rightarrow> (u8 list \<Rightarrow> 's \<Rightarrow> int \<times> u8 list \<times> 's) \<Rightarrow> endnode \<Rightarrow> 'd \<Rightarrow> 's \<Rightarrow> ('d adapter \<times> 's) result" where
  "client_post_connect fuel passes V sync n d s =
     (if \<not> en_connected n then Inl LogFatal
      else bindR (session_init V sync (session_new (en_conf n) d) s) (\<lambda>(a, s1).
           run_tests_send_side fuel V (\<lambda>s. let (rc, bs, s') = sync [of_char CHR ''0''] s in (rc, s')) passes a s1))"

section \<open>The debug tests\<close>

text \<open>The loop of the server's \<open>two_channel_test\<close> is that of \<open>run_tests_recv_side\<close>; the
  client's answers a write with a control message. \<open>sync1\<close> is the exchange of one byte.\<close>

definition server_two_channel_test ::
  "nat \<Rightarrow> 'd verbs \<Rightarrow> ('s \<Rightarrow> int \<times> 's) \<Rightarrow> nat \<Rightarrow> 'd adapter \<Rightarrow> 's \<Rightarrow> ('d adapter \<times> 's) result" where
  "server_two_channel_test fuel V sync1 passes a s = run_tests_recv_side fuel V sync1 passes a s"

fun client_two_channel_actions :: "wc_opcode \<Rightarrow> action list" where
  "client_two_channel_actions IBV_WC_RECV = [PullCtrl 0, PushData 0]"
| "client_two_channel_actions IBV_WC_RECV_RDMA_WITH_IMM = [PullCtrl 0, PushCtrl 0]"
| "client_two_channel_actions op = []"

definition client_two_channel_test ::
  "nat \<Rightarrow> 'd verbs \<Rightarrow> ('s \<Rightarrow> int \<times> 's) \<Rightarrow> nat \<Rightarrow> 'd adapter \<Rightarrow> 's \<Rightarrow> ('d adapter \<times> 's) result" where
  "client_two_channel_test fuel V sync1 passes a s =
     bindR (tests_setup V sync1 a s) (\<lambda>(a1, s1).
     bindR (push_data V 0 a1) (\<lambda>(rc, a2).
     bindR (((\<lambda>m. bindR m (side_step client_two_channel_actions fuel V)) ^^ passes) (Inr a2)) (\<lambda>a3. Inr (a3, s1))))"

text \<open>A step of the one-shot tests, fatal unless it reports 0; a text copied into the buffer.\<close>

definition must :: "int \<times> 'a \<Rightarrow> 'a result" where
  "must r = (if fst r \<noteq> 0 then Inl LogFatal else Inr (snd r))"

definition must_complete :: "nat \<Rightarrow> 'd verbs \<Rightarrow> 'd adapter \<Rightarrow> 'd adapter result" where
  "must_complete fuel V a = bindR (poll_completion fuel V a) (\<lambda>(rc, wc, a'). must (rc, a'))"

definition copy_text :: "string \<Rightarrow> u8 list \<Rightarrow> u8 list result" where
  "copy_text msg buf = store buf 0 (map of_char msg @ [0])"

definition RDMAMSGR :: string where "RDMAMSGR = ''RDMA read operation ''"
definition RDMAMSGW :: string where "RDMAMSGW = ''RDMA write operation''"

definition server_test ::
  "nat \<Rightarrow> 'd verbs \<Rightarrow> (char \<Rightarrow> 's \<Rightarrow> int \<times> 's) \<Rightarrow> u8 list \<Rightarrow> 'd adapter \<Rightarrow> 's \<Rightarrow> (u8 list \<times> 'd adapter \<times> 's) result" where
  "server_test fuel V sync1 buf a s =
     bindR (must (post_send V IBV_WR_SEND a)) (\<lambda>a1. bindR (must_complete fuel V a1) (\<lambda>a2.
     bindR (copy_text RDMAMSGR buf) (\<lambda>buf1.
     bindR (must (sync1 CHR ''R'' s)) (\<lambda>s1. bindR (must (sync1 CHR ''W'' s1)) (\<lambda>s2.
     bindR (must (resources_destroy V a2)) (\<lambda>a3. Inr (buf1, a3, s2)))))))"

definition client_test ::
  "nat \<Rightarrow> 'd verbs \<Rightarrow> (char \<Rightarrow> 's \<Rightarrow> int \<times> 's) \<Rightarrow> u8 list \<Rightarrow> 'd adapter \<Rightarrow> 's \<Rightarrow> (u8 list \<times> 'd adapter \<times> 's) result" where
  "client_test fuel V sync1 buf a s =
     bindR (must_complete fuel V a) (\<lambda>a1. bindR (must (sync1 CHR ''R'' s)) (\<lambda>s1.
     bindR (must (post_send V IBV_WR_RDMA_READ a1)) (\<lambda>a2. bindR (must_complete fuel V a2) (\<lambda>a3.
     bindR (copy_text RDMAMSGW buf) (\<lambda>buf1.
     bindR (must (post_send V IBV_WR_RDMA_WRITE a3)) (\<lambda>a4. bindR (must_complete fuel V a4) (\<lambda>a5.
     bindR (must (sync1 CHR ''W'' s1)) (\<lambda>s2.
     bindR (must (resources_destroy V a5)) (\<lambda>a6. Inr (buf1, a6, s2))))))))))"

section \<open>Accepting the senders\<close>

text \<open>The clients that the next accepts answer, and the state after them.\<close>

fun accepted :: "'e netcalls \<Rightarrow> int \<Rightarrow> nat \<Rightarrow> 'e \<Rightarrow> peer_info list \<times> 'e" where
  "accepted N sock 0 e = ([], e)"
| "accepted N sock (Suc k) e = (let (fd, ip, port, e1) = n_accept N e sock; (ps, e2) = accepted N sock k e1
     in ((fd, ip, port) # ps, e2))"

lemma accept_loop_collects:
  assumes "single_recv (en_conf n)" and "\<forall>p \<in> set (fst (accepted N (en_sock n) (Suc k) e)). fst p \<noteq> - 1"
    and "num_senders (en_conf n) = connected + int (Suc k)" and "Suc k \<le> fuel"
  shows "accept_loop fuel N connected (n, e)
    = Inr (n\<lparr>en_sessions := en_sessions n @ fst (accepted N (en_sock n) (Suc k) e)\<rparr>, snd (accepted N (en_sock n) (Suc k) e))"
  using assms
proof (induction k arbitrary: fuel connected n e)
  case (Suc k)
  obtain fuel' where fuel: "fuel = Suc fuel'" "Suc k \<le> fuel'" using Suc.prems(4) by (cases fuel) auto
  obtain fd ip port e1 where acc: "n_accept N e (en_sock n) = (fd, ip, port, e1)" by (metis surj_pair)
  have "fd \<noteq> - 1" "\<forall>p \<in> set (fst (accepted N (en_sock n) (Suc k) e1)). fst p \<noteq> - 1"
    using Suc.prems(2) acc by (auto simp: split_beta)
  then show ?case
    using Suc.IH [of "n\<lparr>en_sessions := en_sessions n @ [(fd, ip, port)]\<rparr>" e1 "connected + 1" fuel'] Suc.prems(1,3) fuel acc
    by (simp add: handle_with_new_connect_def split_beta)
qed (auto simp: handle_with_new_connect_def split_beta dest!: Suc_le_D)

lemma accept_loop_endless:
  assumes "\<not> single_recv (en_conf n)"
  shows "accept_loop fuel N connected (n, e) \<noteq> Inr x"
  using assms
proof (induction fuel arbitrary: connected n e)
  case (Suc fuel)
  then show ?case by (auto simp: handle_with_new_connect_def split_beta Let_def)
qed simp

lemma server_connecting_collects:
  assumes "n_bind N e (en_sock n) (tcp_port (en_conf n)) = (b, e1)" and "0 \<le> b"
    and "n_listen N e1 (en_sock n) 1024 = (l, e2)" and "0 \<le> l"
    and "0 < k" and "num_senders (en_conf n) = int k"
    and "\<forall>p \<in> set (fst (accepted N (en_sock n) k e2)). fst p \<noteq> - 1" and "single_recv (en_conf n)" and "k \<le> fuel"
  shows "server_connecting fuel N (n, e) =
      Inr (n\<lparr>en_sessions := en_sessions n @ fst (accepted N (en_sock n) k e2), en_connected := True\<rparr>,
           snd (accepted N (en_sock n) k e2))"
proof -
  obtain j where "k = Suc j" using assms(5) by (cases k) auto
  then show ?thesis using accept_loop_collects [of n N j e2 0 fuel] assms by (simp add: server_connecting_def)
qed

lemma length_accepted: "length (fst (accepted N sock k e)) = k"
  by (induction k arbitrary: e) (auto simp: split_beta)

text \<open>
  A server that counts its senders stops accepting after exactly \<open>num_senders\<close> connections
  and has one session for each of them, in the order they came; one that does not goes on
  accepting for ever, however many come.
\<close>

theorem server_collects_sessions:
  assumes "n_bind N e (en_sock n) (tcp_port (en_conf n)) = (b, e1)" and "0 \<le> b"
    and "n_listen N e1 (en_sock n) 1024 = (l, e2)" and "0 \<le> l"
    and "0 < k" and "num_senders (en_conf n) = int k"
    and "\<forall>p \<in> set (fst (accepted N (en_sock n) k e2)). fst p \<noteq> - 1"
  shows "(single_recv (en_conf n) \<longrightarrow> (\<forall>fuel \<ge> k. server_connecting fuel N (n, e) =
      Inr (n\<lparr>en_sessions := en_sessions n @ fst (accepted N (en_sock n) k e2), en_connected := True\<rparr>,
           snd (accepted N (en_sock n) k e2))))
    \<and> (\<not> single_recv (en_conf n) \<longrightarrow> (\<forall>fuel s. server_connecting fuel N (n, e) \<noteq> Inr s))"
  using server_connecting_collects [OF assms] accept_loop_endless [of n _ N 0 e2] assms(1-4)
  by (auto simp: server_connecting_def bindR_eq_Inr_iff)

section \<open>Trying to connect\<close>

definition after_tries :: "'e netcalls \<Rightarrow> endnode \<Rightarrow> nat \<Rightarrow> 'e \<Rightarrow> 'e" where
  "after_tries N n k e = ((\<lambda>e. snd (n_connect N e (en_sock n) (server_name (en_conf n)) (tcp_port (en_conf n)))) ^^ k) e"

definition try_succeeds :: "'e netcalls \<Rightarrow> endnode \<Rightarrow> nat \<Rightarrow> 'e \<Rightarrow> bool" where
  "try_succeeds N n k e \<longleftrightarrow>
     fst (n_connect N (after_tries N n k e) (en_sock n) (server_name (en_conf n)) (tcp_port (en_conf n))) = 0"

lemma connect_loop_tries:
  "(\<forall>j < k. \<not> try_succeeds N n j e) \<Longrightarrow> try_succeeds N n k e \<Longrightarrow> int k \<le> m \<Longrightarrow>
    connect_loop N m (n, e) = (n\<lparr>en_connected := True\<rparr>, after_tries N n (Suc k) e)"
proof (induction k arbitrary: m e)
  case 0
  then show ?case by (simp add: connect_loop.simps [of N m] try_succeeds_def after_tries_def split_beta)
next
  case (Suc k)
  let ?e = "after_tries N n (Suc 0) e"
  have shift: "after_tries N n (Suc j) e = after_tries N n j ?e" "try_succeeds N n (Suc j) e = try_succeeds N n j ?e" for j
    by (simp_all add: try_succeeds_def after_tries_def funpow_Suc_right del: funpow.simps)
  have "connect_loop N (m - 1) (n, ?e) = (n\<lparr>en_connected := True\<rparr>, after_tries N n (Suc k) ?e)"
    using Suc.prems by (intro Suc.IH) (auto simp: shift [symmetric])
  moreover have "\<not> try_succeeds N n 0 e" using Suc.prems(1) by blast
  ultimately show ?case
    using Suc.prems by (simp add: connect_loop.simps [of N m] try_succeeds_def after_tries_def split_beta funpow_Suc_right
        del: funpow.simps(2))
qed

lemma connect_loop_fails:
  "(\<forall>j \<le> k. \<not> try_succeeds N n j e) \<Longrightarrow> connect_loop N (int k) (n, e) = (n, after_tries N n (Suc k) e)"
proof (induction k arbitrary: e)
  case 0
  then show ?case by (simp add: connect_loop.simps [of N 0] try_succeeds_def after_tries_def split_beta)
next
  case (Suc k)
  let ?e = "after_tries N n (Suc 0) e"
  have shift: "after_tries N n (Suc j) e = after_tries N n j ?e" "try_succeeds N n (Suc j) e = try_succeeds N n j ?e" for j
    by (simp_all add: try_succeeds_def after_tries_def funpow_Suc_right del: funpow.simps)
  have "connect_loop N (int k) (n, ?e) = (n, after_tries N n (Suc k) ?e)"
    using Suc.prems by (intro Suc.IH) (auto simp: shift [symmetric])
  moreover have "\<not> try_succeeds N n 0 e" using Suc.prems by blast
  ultimately show ?case
    by (simp add: connect_loop.simps [of N "1 + int k"] try_succeeds_def after_tries_def split_beta funpow_Suc_right
        del: funpow.simps(2))
qed

text \<open>
  C36. A client connects at the first of its tries that the server answers, if that is among
  the first 3001; it stops trying there, and if all 3001 fail it is not connected and
  \<open>post_connect\<close> ends the process.
\<close>

theorem client_connects_or_dies:
  assumes "\<not> en_connected n"
  shows "(k \<le> 3000 \<and> try_succeeds N n k e \<and> (\<forall>j < k. \<not> try_succeeds N n j e) \<longrightarrow>
      client_connecting N (n, e) = (n\<lparr>en_connected := True\<rparr>, after_tries N n (Suc k) e))
    \<and> ((\<forall>k \<le> 3000. \<not> try_succeeds N n k e) \<longrightarrow>
      client_post_connect fuel passes V sync (fst (client_connecting N (n, e))) d s = Inl LogFatal)"
  using connect_loop_tries [of k N n e 3000] connect_loop_fails [of 3000 N n e] assms
  by (simp add: client_connecting_def client_post_connect_def)

section \<open>A network for examples\<close>

text \<open>It counts its calls: every accept answers the next client, and a connection attempt succeeds
  once \<open>n\<close> calls have been made.\<close>

definition counting_net :: "nat \<Rightarrow> nat netcalls" where
  "counting_net n = \<lparr>n_socket = (\<lambda>e. (3, Suc e)), n_getsockopt = (\<lambda>e fd so. (0, 4, Suc e)),
     n_setsockopt = (\<lambda>e fd so v. (0, Suc e)), n_bind = (\<lambda>e fd p. (0, Suc e)), n_listen = (\<lambda>e fd k. (0, Suc e)),
     n_accept = (\<lambda>e fd. (int e + 4, if even e then ''10.0.0.2'' else ''10.0.0.3'', 4000, Suc e)),
     n_connect = (\<lambda>e fd ip p. (if n \<le> e then 0 else - 1, Suc e))\<rparr>"

definition waiting_server :: endnode where
  "waiting_server = (endnode_new (config_default\<lparr>single_recv := True, num_senders := 2\<rparr>))\<lparr>en_sock := 3\<rparr>"

theorem server_collects_sessions_witness:
  "server_connecting 9 (counting_net 0) (waiting_server, 0) = Inr (waiting_server\<lparr>
     en_sessions := [(6, ''10.0.0.2'', 4000), (7, ''10.0.0.3'', 4000)], en_connected := True\<rparr>, 4)"
proof -
  have n2: "(2 :: nat) = Suc (Suc 0)" by simp
  have acc: "accepted (counting_net 0) 3 2 2 = ([(6, ''10.0.0.2'', 4000), (7, ''10.0.0.3'', 4000)], 4)"
    unfolding n2 by (simp add: counting_net_def)
  have "n_bind (counting_net 0) 0 (en_sock waiting_server) (tcp_port (en_conf waiting_server)) = (0, 1)"
    "n_listen (counting_net 0) 1 (en_sock waiting_server) 1024 = (0, 2)"
    "num_senders (en_conf waiting_server) = int 2" "single_recv (en_conf waiting_server)"
    "en_sock waiting_server = 3" "en_sessions waiting_server = []"
    by (simp_all add: counting_net_def waiting_server_def endnode_new_def)
  with server_collects_sessions [of "counting_net 0" 0 waiting_server 0 1 0 2 2] acc show ?thesis by auto
qed

theorem client_connects_or_dies_witness:
  "client_connecting (counting_net 2) (endnode_new config_default, 0)
    = ((endnode_new config_default)\<lparr>en_connected := True\<rparr>, 3)"
proof -
  have tries: "after_tries (counting_net 2) n k 0 = k" for n k
    by (induction k) (simp_all add: after_tries_def counting_net_def)
  have "try_succeeds (counting_net 2) n k 0 \<longleftrightarrow> 2 \<le> k" for n k
    by (simp add: try_succeeds_def tries) (simp add: counting_net_def)
  then have "client_connecting (counting_net 2) (endnode_new config_default, 0)
      = ((endnode_new config_default)\<lparr>en_connected := True\<rparr>, after_tries (counting_net 2) (endnode_new config_default) (Suc 2) 0)"
    by (intro client_connects_or_dies [THEN conjunct1, THEN mp]) (simp_all add: endnode_new_def)
  then show ?thesis by (simp add: tries)
qed

end
