(* ===== verification/Steps.thy ===== *)
theory Steps
  imports Prelude
begin

text \<open>
  What the step relations of the development share: a system that moves another one, or leaves it
  alone, at each of its steps (a refinement, or the part a component plays in a larger system), and
  a system that can always come closer to its next event.
\<close>

locale stutter_sim =
  fixes cstep :: "'c \<Rightarrow> 'c \<Rightarrow> bool" and astep :: "'a \<Rightarrow> 'a \<Rightarrow> bool" and view :: "'c \<Rightarrow> 'a"
  assumes sim: "cstep x y \<Longrightarrow> astep (view x) (view y) \<or> view y = view x"
begin

lemma runs: "cstep\<^sup>*\<^sup>* x y \<Longrightarrow> astep\<^sup>*\<^sup>* (view x) (view y)"
proof (induction rule: rtranclp_induct)
  case (step y z)
  then show ?case using sim [OF step.hyps(2)] by auto
qed simp

lemma invariant:
  assumes "cstep\<^sup>*\<^sup>* x y" and "I (view x)" and "\<And>a b. astep a b \<Longrightarrow> I a \<Longrightarrow> I b"
  shows "I (view y)"
  using runs [OF assms(1)] assms(2) by (induction rule: rtranclp_induct) (auto intro: assms(3))

end

locale counted_progress =
  fixes step :: "'s \<Rightarrow> 's \<Rightarrow> bool" and inv :: "'s \<Rightarrow> bool" and distance :: "'s \<Rightarrow> nat" and count :: "'s \<Rightarrow> nat"
  assumes closer: "inv s \<Longrightarrow>
    \<exists>s'. step s s' \<and> (count s' = Suc (count s) \<or> count s' = count s \<and> inv s' \<and> distance s' < distance s)"
begin

lemma progress: "inv s \<Longrightarrow> \<exists>s'. step\<^sup>*\<^sup>* s s' \<and> count s' = Suc (count s)"
proof (induction "distance s" arbitrary: s rule: less_induct)
  case less
  from closer [OF less.prems] obtain s1
    where s1: "step s s1" "count s1 = Suc (count s) \<or> count s1 = count s \<and> inv s1 \<and> distance s1 < distance s"
    by blast
  show ?case
  proof (cases "count s1 = Suc (count s)")
    case False
    with s1(2) less.hyps [of s1] show ?thesis using s1(1) by (metis converse_rtranclp_into_rtranclp)
  qed (use s1(1) in blast)
qed

end

end
