(* ===== verification/Link.thy ===== *)
theory Link
  imports Session Steps
begin

text \<open>
  A sender and a receiver connected by a reliable queue pair, running
  \<open>RDMASession::run_tests_send_side\<close> and \<open>run_tests_recv_side\<close> (or the single-threaded
  server, which answers a write in the same order). The state after the two barriers of
  \<open>tests_setup\<close>: each side has posted one receive, and the sender is about to push its first
  block. A message that arrives where no receive is posted is "receiver not ready"; the code
  comments that this cannot happen, which is the safety theorem below.
\<close>

record link =
  srv_recvs :: nat
  cli_recvs :: nat
  wire_data :: nat
  wire_ctrl :: nat
  srv_cq :: "wc_opcode list"
  cli_cq :: "wc_opcode list"
  srv_todo :: "action list"
  cli_todo :: "action list"
  not_ready :: bool
  blocks_done :: nat

definition link_init :: link where
  "link_init = \<lparr>srv_recvs = 1, cli_recvs = 1, wire_data = 0, wire_ctrl = 0, srv_cq = [], cli_cq = [],
     srv_todo = [], cli_todo = [PushData 0], not_ready = False, blocks_done = 0\<rparr>"

text \<open>
  A data write consumes a receive of the server and completes on both sides; a control send
  consumes a receive of the client. Each side takes a completion only when it has finished the
  actions of the one before.
\<close>

inductive link_step :: "link \<Rightarrow> link \<Rightarrow> bool" where
  data_arrives: "0 < wire_data l \<Longrightarrow> 0 < srv_recvs l \<Longrightarrow>
     link_step l (l\<lparr>wire_data := wire_data l - 1, srv_recvs := srv_recvs l - 1,
       srv_cq := srv_cq l @ [IBV_WC_RECV_RDMA_WITH_IMM], cli_cq := cli_cq l @ [IBV_WC_RDMA_WRITE],
       blocks_done := Suc (blocks_done l)\<rparr>)"
| data_not_ready: "0 < wire_data l \<Longrightarrow> srv_recvs l = 0 \<Longrightarrow> link_step l (l\<lparr>not_ready := True\<rparr>)"
| ctrl_arrives: "0 < wire_ctrl l \<Longrightarrow> 0 < cli_recvs l \<Longrightarrow>
     link_step l (l\<lparr>wire_ctrl := wire_ctrl l - 1, cli_recvs := cli_recvs l - 1,
       cli_cq := cli_cq l @ [IBV_WC_RECV], srv_cq := srv_cq l @ [IBV_WC_SEND]\<rparr>)"
| ctrl_not_ready: "0 < wire_ctrl l \<Longrightarrow> cli_recvs l = 0 \<Longrightarrow> link_step l (l\<lparr>not_ready := True\<rparr>)"
| srv_polls: "srv_todo l = [] \<Longrightarrow> srv_cq l = op # ops \<Longrightarrow>
     link_step l (l\<lparr>srv_cq := ops, srv_todo := recv_side_actions op\<rparr>)"
| cli_polls: "cli_todo l = [] \<Longrightarrow> cli_cq l = op # ops \<Longrightarrow>
     link_step l (l\<lparr>cli_cq := ops, cli_todo := send_side_actions op\<rparr>)"
| srv_pulls: "srv_todo l = PullCtrl i # todo \<Longrightarrow>
     link_step l (l\<lparr>srv_todo := todo, srv_recvs := Suc (srv_recvs l)\<rparr>)"
| srv_pushes: "srv_todo l = PushCtrl i # todo \<Longrightarrow>
     link_step l (l\<lparr>srv_todo := todo, wire_ctrl := Suc (wire_ctrl l)\<rparr>)"
| cli_pulls: "cli_todo l = PullCtrl i # todo \<Longrightarrow>
     link_step l (l\<lparr>cli_todo := todo, cli_recvs := Suc (cli_recvs l)\<rparr>)"
| cli_pushes: "cli_todo l = PushData i # todo \<Longrightarrow>
     link_step l (l\<lparr>cli_todo := todo, wire_data := Suc (wire_data l)\<rparr>)"

inductive link_reach :: "link \<Rightarrow> bool" where
  init: "link_reach link_init"
| step: "link_reach l \<Longrightarrow> link_step l l' \<Longrightarrow> link_reach l'"

section \<open>One token goes round\<close>

definition imms :: "wc_opcode list \<Rightarrow> nat" where
  "imms cq = length (filter (\<lambda>op. op = IBV_WC_RECV_RDMA_WITH_IMM) cq)"

definition recvs :: "wc_opcode list \<Rightarrow> nat" where
  "recvs cq = length (filter (\<lambda>op. op = IBV_WC_RECV) cq)"

definition pushes :: "action list \<Rightarrow> nat" where
  "pushes todo = length (filter (\<lambda>a. case a of PullCtrl i \<Rightarrow> False | _ \<Rightarrow> True) todo)"

definition pulls :: "action list \<Rightarrow> nat" where
  "pulls todo = length (filter (\<lambda>a. case a of PullCtrl i \<Rightarrow> True | _ \<Rightarrow> False) todo)"

lemma link_counts [simp]:
  "imms [] = 0" "imms (op # cq) = (if op = IBV_WC_RECV_RDMA_WITH_IMM then 1 else 0) + imms cq"
  "imms (cq @ cq') = imms cq + imms cq'"
  "recvs [] = 0" "recvs (op # cq) = (if op = IBV_WC_RECV then 1 else 0) + recvs cq"
  "recvs (cq @ cq') = recvs cq + recvs cq'"
  "pushes [] = 0" "pushes (PullCtrl i # todo) = pushes todo"
  "pushes (PushCtrl i # todo) = Suc (pushes todo)" "pushes (PushData i # todo) = Suc (pushes todo)"
  "pulls [] = 0" "pulls (PullCtrl i # todo) = Suc (pulls todo)"
  "pulls (PushCtrl i # todo) = pulls todo" "pulls (PushData i # todo) = pulls todo"
  by (simp_all add: imms_def recvs_def pushes_def pulls_def)

definition link_inv :: "link \<Rightarrow> bool" where
  "link_inv l \<longleftrightarrow> wire_data l + wire_ctrl l + imms (srv_cq l) + recvs (cli_cq l)
        + pushes (srv_todo l) + pushes (cli_todo l) = 1
     \<and> srv_recvs l + imms (srv_cq l) + pulls (srv_todo l) = 1
     \<and> cli_recvs l + recvs (cli_cq l) + pulls (cli_todo l) = 1
     \<and> imms (cli_cq l) = 0 \<and> recvs (srv_cq l) = 0
     \<and> srv_todo l \<in> {[], [PushCtrl 0], [PullCtrl 1, PushCtrl 0]}
     \<and> cli_todo l \<in> {[], [PushData 0], [PullCtrl 0, PushData 0]}
     \<and> \<not> not_ready l"

lemma link_inv_init: "link_inv link_init"
  by (simp add: link_inv_def link_init_def)

lemma link_step_inv:
  assumes "link_step l l'" and "link_inv l"
  shows "link_inv l'"
  using assms
proof cases
  case data_not_ready
  then show ?thesis using assms(2) by (auto simp: link_inv_def)
next
  case ctrl_not_ready
  then show ?thesis using assms(2) by (auto simp: link_inv_def)
next
  case (srv_polls op ops)
  then show ?thesis using assms(2) by (cases op) (auto simp: link_inv_def)
next
  case (cli_polls op ops)
  then show ?thesis using assms(2) by (cases op) (auto simp: link_inv_def)
qed (auto simp: link_inv_def)

lemma link_reach_inv: "link_reach l \<Longrightarrow> link_inv l"
  by (induction rule: link_reach.induct) (auto intro: link_inv_init link_step_inv)

text \<open>
  C10. No message ever finds its receiver unprepared: in every interleaving of the two loops and
  the wire, a block that arrives at the server and a control message that arrives at the client
  find a posted receive, and there is at most one of them under way, so no block is overwritten
  before the server has seen it.
\<close>

theorem no_receiver_not_ready:
  assumes "link_reach l"
  shows "\<not> not_ready l \<and> (0 < wire_data l \<longrightarrow> 0 < srv_recvs l) \<and> (0 < wire_ctrl l \<longrightarrow> 0 < cli_recvs l)
    \<and> wire_data l + imms (srv_cq l) \<le> 1"
  using link_reach_inv [OF assms] by (auto simp: link_inv_def)

definition link_block_sent :: link where
  "link_block_sent = link_init\<lparr>cli_todo := [], wire_data := 1\<rparr>"

lemma link_block_sent_reach: "link_reach link_block_sent"
  using link_reach.step [OF link_reach.init link_step.cli_pushes [of link_init 0 "[]"]]
  by (simp add: link_init_def link_block_sent_def)

theorem no_receiver_not_ready_witness: "\<not> not_ready link_block_sent \<and> 0 < srv_recvs link_block_sent"
  using no_receiver_not_ready [OF link_block_sent_reach] by (simp add: link_block_sent_def)

text \<open>How far the token still is from the next arrival, with the completions to be skipped.\<close>

definition token_distance :: "link \<Rightarrow> nat" where
  "token_distance l = length (srv_cq l) + length (cli_cq l) + length (srv_todo l) + length (cli_todo l)
     + 7 * imms (srv_cq l) + 5 * pushes (srv_todo l) + 5 * wire_ctrl l + 2 * recvs (cli_cq l)"

text \<open>The steps of the client and the wire, which leave the server where it is.\<close>

definition peer_step :: "link \<Rightarrow> link \<Rightarrow> bool" where
  "peer_step l l' \<longleftrightarrow> link_step l l' \<and> srv_todo l' = srv_todo l \<and> (\<exists>ops. srv_cq l' = srv_cq l @ ops)"

text \<open>While the server has nothing to do for a session, its client and the wire bring the next block.\<close>

lemma peer_advances:
  assumes "link_inv l" and "wire_data l = 0" and "srv_todo l = []" and "imms (srv_cq l) = 0"
  shows "\<exists>l'. peer_step l l' \<and> blocks_done l' = blocks_done l \<and> token_distance l' < token_distance l"
proof -
  have one: "wire_ctrl l + recvs (cli_cq l) + pushes (cli_todo l) = 1" using assms by (simp add: link_inv_def)
  have todo: "cli_todo l \<in> {[], [PushData 0], [PullCtrl 0, PushData 0]}" using assms by (simp add: link_inv_def)
  consider (ctrl) "wire_ctrl l = 1" | (push) "cli_todo l = [PushData 0]" | (pull) "cli_todo l = [PullCtrl 0, PushData 0]"
    | (recv) "cli_todo l = []" "recvs (cli_cq l) = 1"
    using one todo by fastforce
  then show ?thesis
  proof cases
    case ctrl
    with one assms(1) todo have "0 < cli_recvs l" by (auto simp: link_inv_def)
    with ctrl show ?thesis unfolding peer_step_def
      by - (intro exI conjI, rule link_step.ctrl_arrives, auto simp: token_distance_def)
  next
    case push
    then show ?thesis unfolding peer_step_def
      by - (intro exI conjI, rule link_step.cli_pushes, auto simp: token_distance_def)
  next
    case pull
    then show ?thesis unfolding peer_step_def
      by - (intro exI conjI, rule link_step.cli_pulls, auto simp: token_distance_def)
  next
    case recv
    then obtain op ops where "cli_cq l = op # ops" by (cases "cli_cq l") auto
    moreover have "imms (cli_cq l) = 0" using assms(1) by (simp add: link_inv_def)
    ultimately show ?thesis using recv unfolding peer_step_def
      by - (intro exI conjI, rule link_step.cli_polls, simp, simp, simp, simp, simp, cases op,
        auto simp: token_distance_def)
  qed
qed

lemma token_advances:
  assumes "link_inv l" and "wire_data l = 0"
  shows "\<exists>l'. link_step l l' \<and> blocks_done l' = blocks_done l \<and> token_distance l' < token_distance l"
proof -
  have todo: "srv_todo l \<in> {[], [PushCtrl 0], [PullCtrl 1, PushCtrl 0]}" using assms by (simp add: link_inv_def)
  consider (push) "srv_todo l = [PushCtrl 0]" | (pull) "srv_todo l = [PullCtrl 1, PushCtrl 0]"
    | (imm) "srv_todo l = []" "imms (srv_cq l) \<noteq> 0" | (peer) "srv_todo l = []" "imms (srv_cq l) = 0"
    using todo by auto
  then show ?thesis
  proof cases
    case push
    then show ?thesis by - (intro exI conjI, rule link_step.srv_pushes, auto simp: token_distance_def)
  next
    case pull
    then show ?thesis by - (intro exI conjI, rule link_step.srv_pulls, auto simp: token_distance_def)
  next
    case imm
    then obtain op ops where "srv_cq l = op # ops" by (cases "srv_cq l") auto
    with imm show ?thesis
      by - (intro exI conjI, rule link_step.srv_polls, simp, simp, simp, cases op,
        auto simp: token_distance_def)
  next
    case peer
    from peer_advances [OF assms peer] show ?thesis by (auto simp: peer_step_def)
  qed
qed

text \<open>A block under way can arrive.\<close>

lemma block_arrives:
  assumes "link_inv l" and "0 < wire_data l"
  shows "\<exists>l'. peer_step l l' \<and> blocks_done l' = Suc (blocks_done l)"
proof -
  have "0 < srv_recvs l" using assms by (auto simp: link_inv_def)
  with assms(2) show ?thesis unfolding peer_step_def
    by - (intro exI conjI, rule link_step.data_arrives, simp_all)
qed

text \<open>The number of blocks the server has taken, as an equation; the client and the wire leave it.\<close>

definition taken :: "link \<Rightarrow> nat \<Rightarrow> bool" where
  "taken l n \<longleftrightarrow> blocks_done l = imms (srv_cq l) + n"

lemma peer_taken: "peer_step l l' \<Longrightarrow> taken l' n = taken l n"
  unfolding peer_step_def by (elim conjE exE, erule link_step.cases) (auto simp: taken_def)

lemma taken_simps [simp]:
  "taken (l\<lparr>srv_todo := todo\<rparr>) n = taken l n" "taken (l\<lparr>srv_recvs := k\<rparr>) n = taken l n"
  "taken (l\<lparr>wire_ctrl := k\<rparr>) n = taken l n"
  by (simp_all add: taken_def)

interpretation client: counted_progress peer_step
  "\<lambda>l. link_inv l \<and> srv_todo l = [] \<and> imms (srv_cq l) = 0" token_distance blocks_done
proof
  fix l assume inv: "link_inv l \<and> srv_todo l = [] \<and> imms (srv_cq l) = 0"
  show "\<exists>l'. peer_step l l' \<and> (blocks_done l' = Suc (blocks_done l) \<or>
      blocks_done l' = blocks_done l \<and> (link_inv l' \<and> srv_todo l' = [] \<and> imms (srv_cq l') = 0) \<and> token_distance l' < token_distance l)"
  proof (cases "wire_data l = 0")
    case True
    then obtain l' where l': "peer_step l l'" "blocks_done l' = blocks_done l" "token_distance l' < token_distance l"
      using peer_advances inv by blast
    then have "link_inv l'" "srv_todo l' = []" using inv link_step_inv by (auto simp: peer_step_def)
    moreover have "imms (srv_cq l') = 0"
      using peer_taken [OF l'(1), of "blocks_done l"] l'(2) inv by (simp add: taken_def)
    ultimately show ?thesis using l' by blast
  qed (use block_arrives inv in blast)
qed

interpretation exchange: counted_progress link_step link_inv token_distance blocks_done
proof
  fix l assume inv: "link_inv l"
  show "\<exists>l'. link_step l l' \<and> (blocks_done l' = Suc (blocks_done l) \<or>
      blocks_done l' = blocks_done l \<and> link_inv l' \<and> token_distance l' < token_distance l)"
    using token_advances [OF inv] block_arrives [OF inv] link_step_inv [OF _ inv] unfolding peer_step_def by blast
qed

text \<open>
  C11. The exchange never gets stuck: from every reachable state the two loops and the wire can go
  on until one more block has been delivered.
\<close>

theorem next_block_delivered:
  assumes "link_reach l"
  shows "\<exists>l'. link_step\<^sup>*\<^sup>* l l' \<and> blocks_done l' = Suc (blocks_done l)"
  using exchange.progress [OF link_reach_inv [OF assms]] by blast

theorem next_block_delivered_witness:
  "\<exists>l'. link_step\<^sup>*\<^sup>* link_block_sent l' \<and> blocks_done l' = Suc (blocks_done link_block_sent)"
  by (rule next_block_delivered [OF link_block_sent_reach])

end
