(* ===== verification/LinkEvents.thy ===== *)
theory LinkEvents
  imports Link
begin

text \<open>
  The exchange of \<open>Link\<close> with the option \<open>-e\<close>: before each poll a side waits for an event of
  its completion channel (networking\_service/src/rdma\_session.cpp, \<open>RDMASession::query_status\<close>).
  A completion queue reports an event only when a completion arrives while it is armed, which
  disarms it; \<open>ibv_req_notify_cq\<close> arms it again, whatever is in the queue at that time.
\<close>

section \<open>Waiting for events\<close>

record notifier =
  nt_armed :: bool
  nt_events :: nat
  nt_polling :: bool

text \<open>What a completion does to the notifier of its queue, and what \<open>query_status\<close> does before it
  polls.\<close>

definition notify :: "notifier \<Rightarrow> notifier" where
  "notify n = (if nt_armed n then n\<lparr>nt_armed := False, nt_events := Suc (nt_events n)\<rparr> else n)"

definition take_event :: "notifier \<Rightarrow> notifier" where
  "take_event n = n\<lparr>nt_armed := True, nt_events := nt_events n - 1, nt_polling := True\<rparr>"

definition polled :: "notifier \<Rightarrow> notifier" where
  "polled n = n\<lparr>nt_polling := False\<rparr>"

record elink =
  e_link :: link
  e_srv :: notifier
  e_cli :: notifier

definition elink_init :: elink where
  "elink_init = \<lparr>e_link = link_init, e_srv = \<lparr>nt_armed = True, nt_events = 0, nt_polling = False\<rparr>,
     e_cli = \<lparr>nt_armed = True, nt_events = 0, nt_polling = False\<rparr>\<rparr>"

text \<open>The steps of \<open>Link\<close>: an arrival completes on both sides; an action leaves both queues alone; a
  side polls one completion after an event, or none if \<open>poll_completion\<close> runs into its timeout.\<close>

inductive event_step :: "elink \<Rightarrow> elink \<Rightarrow> bool" where
  arrives: "link_step (e_link x) l \<Longrightarrow> wire_data l + wire_ctrl l < wire_data (e_link x) + wire_ctrl (e_link x) \<Longrightarrow>
     event_step x (x\<lparr>e_link := l, e_srv := notify (e_srv x), e_cli := notify (e_cli x)\<rparr>)"
| acts: "link_step (e_link x) l \<Longrightarrow> srv_cq l = srv_cq (e_link x) \<Longrightarrow> cli_cq l = cli_cq (e_link x) \<Longrightarrow>
     event_step x (x\<lparr>e_link := l\<rparr>)"
| srv_event: "srv_todo (e_link x) = [] \<Longrightarrow> \<not> nt_polling (e_srv x) \<Longrightarrow> 0 < nt_events (e_srv x) \<Longrightarrow>
     event_step x (x\<lparr>e_srv := take_event (e_srv x)\<rparr>)"
| srv_polls: "nt_polling (e_srv x) \<Longrightarrow> link_step (e_link x) l \<Longrightarrow> length (srv_cq l) < length (srv_cq (e_link x)) \<Longrightarrow>
     event_step x (x\<lparr>e_link := l, e_srv := polled (e_srv x)\<rparr>)"
| srv_timeout: "nt_polling (e_srv x) \<Longrightarrow> srv_cq (e_link x) = [] \<Longrightarrow> event_step x (x\<lparr>e_srv := polled (e_srv x)\<rparr>)"
| cli_event: "cli_todo (e_link x) = [] \<Longrightarrow> \<not> nt_polling (e_cli x) \<Longrightarrow> 0 < nt_events (e_cli x) \<Longrightarrow>
     event_step x (x\<lparr>e_cli := take_event (e_cli x)\<rparr>)"
| cli_polls: "nt_polling (e_cli x) \<Longrightarrow> link_step (e_link x) l \<Longrightarrow> length (cli_cq l) < length (cli_cq (e_link x)) \<Longrightarrow>
     event_step x (x\<lparr>e_link := l, e_cli := polled (e_cli x)\<rparr>)"
| cli_timeout: "nt_polling (e_cli x) \<Longrightarrow> cli_cq (e_link x) = [] \<Longrightarrow> event_step x (x\<lparr>e_cli := polled (e_cli x)\<rparr>)"

inductive_cases event_stepE: "event_step x y"

section \<open>Events only delay\<close>

text \<open>Each step is one of the exchange without events, or none, so what holds there holds here.\<close>

interpretation events: stutter_sim event_step link_step e_link
  by unfold_locales (auto elim!: event_stepE)

theorem event_mode_receiver_ready:
  assumes "event_step\<^sup>*\<^sup>* elink_init x"
  shows "\<not> not_ready (e_link x) \<and> wire_data (e_link x) + imms (srv_cq (e_link x)) \<le> 1"
proof -
  have "link_inv (e_link x)"
    using events.invariant [OF assms, of link_inv] link_inv_init link_step_inv by (simp add: elink_init_def)
  then show ?thesis by (auto simp: link_inv_def)
qed

section \<open>An event that never comes\<close>

text \<open>A state by its fields.\<close>

definition est :: "link \<Rightarrow> bool \<times> nat \<times> bool \<Rightarrow> bool \<times> nat \<times> bool \<Rightarrow> elink" where
  "est l s c = \<lparr>e_link = l, e_srv = \<lparr>nt_armed = fst s, nt_events = fst (snd s), nt_polling = snd (snd s)\<rparr>,
     e_cli = \<lparr>nt_armed = fst c, nt_events = fst (snd c), nt_polling = snd (snd c)\<rparr>\<rparr>"

definition lst :: "nat \<Rightarrow> nat \<Rightarrow> nat \<Rightarrow> nat \<Rightarrow> wc_opcode list \<Rightarrow> wc_opcode list \<Rightarrow> action list \<Rightarrow> action list \<Rightarrow> nat \<Rightarrow> link" where
  "lst sr cr wd wctrl sq cq st ct n = \<lparr>srv_recvs = sr, cli_recvs = cr, wire_data = wd, wire_ctrl = wctrl, srv_cq = sq,
     cli_cq = cq, srv_todo = st, cli_todo = ct, not_ready = False, blocks_done = n\<rparr>"

lemma est_steps:
  "event_step (est l s c) (est l' s c)" if "link_step l l'" "srv_cq l' = srv_cq l" "cli_cq l' = cli_cq l"
  using event_step.acts [of "est l s c" l'] that by (simp add: est_def)

lemma est_arrives:
  "event_step (est l (sa, se, sp) (ca, ce, cp)) (est l' (False, if sa then Suc se else se, sp) (False, if ca then Suc ce else ce, cp))"
  if "link_step l l'" "wire_data l' + wire_ctrl l' < wire_data l + wire_ctrl l"
  using event_step.arrives [of "est l (sa, se, sp) (ca, ce, cp)" l'] that
  by (cases sa; cases ca) (simp_all add: est_def notify_def)

lemma est_srv:
  "srv_todo l = [] \<Longrightarrow> event_step (est l (sa, Suc se, False) c) (est l (True, se, True) c)"
  "link_step l l' \<Longrightarrow> length (srv_cq l') < length (srv_cq l) \<Longrightarrow> event_step (est l (sa, se, True) c) (est l' (sa, se, False) c)"
  using event_step.srv_event [of "est l (sa, Suc se, False) c"] event_step.srv_polls [of "est l (sa, se, True) c" l']
  by (simp_all add: est_def take_event_def polled_def)

lemma est_cli:
  "cli_todo l = [] \<Longrightarrow> event_step (est l s (ca, Suc ce, False)) (est l s (True, ce, True))"
  "link_step l l' \<Longrightarrow> length (cli_cq l') < length (cli_cq l) \<Longrightarrow> event_step (est l s (ca, ce, True)) (est l' s (ca, ce, False))"
  using event_step.cli_event [of "est l s (ca, Suc ce, False)"] event_step.cli_polls [of "est l s (ca, ce, True)" l']
  by (simp_all add: est_def take_event_def polled_def)

lemma lst_steps:
  "link_step (lst sr cr wd wt sq cq st (PushData i # ct) n) (lst sr cr (Suc wd) wt sq cq st ct n)"
  "link_step (lst sr cr wd wt sq cq (PushCtrl i # st) ct n) (lst sr cr wd (Suc wt) sq cq st ct n)"
  "link_step (lst sr cr wd wt sq cq (PullCtrl i # st) ct n) (lst (Suc sr) cr wd wt sq cq st ct n)"
  "link_step (lst (Suc sr) cr (Suc wd) wt sq cq st ct n)
     (lst sr cr wd wt (sq @ [IBV_WC_RECV_RDMA_WITH_IMM]) (cq @ [IBV_WC_RDMA_WRITE]) st ct (Suc n))"
  "link_step (lst sr (Suc cr) wd (Suc wt) sq cq st ct n) (lst sr cr wd wt (sq @ [IBV_WC_SEND]) (cq @ [IBV_WC_RECV]) st ct n)"
  "link_step (lst sr cr wd wt (op # sq) cq [] ct n) (lst sr cr wd wt sq cq (recv_side_actions op) ct n)"
  "link_step (lst sr cr wd wt sq (op # cq) st [] n) (lst sr cr wd wt sq cq st (send_side_actions op) n)"
  using link_step.cli_pushes [of "lst sr cr wd wt sq cq st (PushData i # ct) n" i ct]
    link_step.srv_pushes [of "lst sr cr wd wt sq cq (PushCtrl i # st) ct n" i st]
    link_step.srv_pulls [of "lst sr cr wd wt sq cq (PullCtrl i # st) ct n" i st]
    link_step.data_arrives [of "lst (Suc sr) cr (Suc wd) wt sq cq st ct n"]
    link_step.ctrl_arrives [of "lst sr (Suc cr) wd (Suc wt) sq cq st ct n"]
    link_step.srv_polls [of "lst sr cr wd wt (op # sq) cq [] ct n" op sq]
    link_step.cli_polls [of "lst sr cr wd wt sq (op # cq) st [] n" op cq]
  by (simp_all add: lst_def)

text \<open>Both sides wait for events, and the answer of the first block is in the client's queue.\<close>

definition waiting_for_ever :: elink where
  "waiting_for_ever = est (lst 1 0 0 0 [] [IBV_WC_RECV] [] [] 1) (True, 0, False) (True, 0, False)"

lemma waiting_reachable: "event_step\<^sup>*\<^sup>* elink_init waiting_for_ever"
proof -
  let ?on = "(True, 0, False)" and ?ev = "(False, 1, False)" and ?poll = "(True, 0, True)"
  let ?imm = IBV_WC_RECV_RDMA_WITH_IMM and ?wr = IBV_WC_RDMA_WRITE
  let ?run = "\<lambda>x. event_step\<^sup>*\<^sup>* elink_init x"
  note more = rtranclp.rtrancl_into_rtrancl [of event_step]
  have "?run (est (lst 1 1 0 0 [] [] [] [PushData 0] 0) ?on ?on)"
    by (simp add: elink_init_def est_def link_init_def lst_def)
  then have "?run (est (lst 1 1 1 0 [] [] [] [] 0) ?on ?on)"
    by (rule more) (rule est_steps, insert lst_steps(1) [of 1 1 0], simp_all add: lst_def)
  then have "?run (est (lst 0 1 0 0 [?imm] [?wr] [] [] 1) ?ev ?ev)"
    by (rule more) (use est_arrives [OF lst_steps(4) [of 0 1 0 0 "[]" "[]" "[]" "[]" 0], of True 0 False True 0 False] in \<open>simp add: lst_def\<close>)
  then have "?run (est (lst 0 1 0 0 [?imm] [?wr] [] [] 1) ?poll ?ev)"
    by (rule more) (use est_srv(1) [of _ False 0] in \<open>simp add: lst_def\<close>)
  then have "?run (est (lst 0 1 0 0 [] [?wr] [PullCtrl 1, PushCtrl 0] [] 1) ?on ?ev)"
    by (rule more) (rule est_srv(2), insert lst_steps(6) [of 0 1 0 0 ?imm], simp_all add: lst_def)
  then have "?run (est (lst 1 1 0 0 [] [?wr] [PushCtrl 0] [] 1) ?on ?ev)"
    by (rule more) (rule est_steps, insert lst_steps(3) [of 0], simp_all add: lst_def)
  then have "?run (est (lst 1 1 0 1 [] [?wr] [] [] 1) ?on ?ev)"
    by (rule more) (rule est_steps, insert lst_steps(2) [of 1 1 0 0], simp_all add: lst_def)
  then have "?run (est (lst 1 0 0 0 [IBV_WC_SEND] [?wr, IBV_WC_RECV] [] [] 1) ?ev ?ev)"
    by (rule more) (use est_arrives [OF lst_steps(5) [of 1 0 0 0 "[]" "[?wr]" "[]" "[]" 1], of True 0 False False 1 False] in \<open>simp add: lst_def\<close>)
  then have "?run (est (lst 1 0 0 0 [IBV_WC_SEND] [?wr, IBV_WC_RECV] [] [] 1) ?ev ?poll)"
    by (rule more) (use est_cli(1) [of _ _ False 0] in \<open>simp add: lst_def\<close>)
  then have "?run (est (lst 1 0 0 0 [IBV_WC_SEND] [IBV_WC_RECV] [] [] 1) ?ev ?on)"
    by (rule more) (rule est_cli(2), insert lst_steps(7) [of 1 0 0 0 "[IBV_WC_SEND]" ?wr], simp_all add: lst_def)
  then have "?run (est (lst 1 0 0 0 [IBV_WC_SEND] [IBV_WC_RECV] [] [] 1) ?poll ?on)"
    by (rule more) (use est_srv(1) [of _ False 0] in \<open>simp add: lst_def\<close>)
  then show ?thesis unfolding waiting_for_ever_def
    by (rule more) (rule est_srv(2), insert lst_steps(6) [of 1 0 0 0 IBV_WC_SEND], simp_all add: lst_def)
qed

lemma waiting_stuck: "\<not> event_step waiting_for_ever y"
  by (auto simp: waiting_for_ever_def est_def lst_def elim!: event_stepE link_step.cases)

text \<open>
  C40. With the option -e the exchange can stop: when the answer of a block arrives before the client
  has taken the event of its write, the queue is not armed, no event is reported for the answer,
  and both sides wait for ever although it is there. (Without the option it never stops.)
\<close>

theorem events_lose_answer:
  "\<exists>x. event_step\<^sup>*\<^sup>* elink_init x \<and> (\<forall>y. \<not> event_step x y) \<and> cli_cq (e_link x) = [IBV_WC_RECV]
    \<and> nt_events (e_cli x) = 0 \<and> blocks_done (e_link x) = 1"
  using waiting_reachable waiting_stuck
  by (intro exI [of _ waiting_for_ever]) (simp add: waiting_for_ever_def est_def lst_def)

end
