(* ===== verification/AllReduce.thy ===== *)
theory AllReduce
  imports Link Server
begin

text \<open>
  The all-reduce drivers of \<open>RDMAServer\<close> (networking\_service/src/rdma\_server.cpp) against all their
  clients at once: \<open>do_reduce\<close> over one group of sessions after the other, then \<open>broadcast\<close> from the
  last group to the first, one queue operation or posted request at a time, while every session has
  a client that runs \<open>RDMASession::run_tests_send_side\<close> and a wire as in \<open>Link\<close>. The full mesh, the
  ring and the double binary tree have one group, the tree one for each stage. Sessions are numbered
  as in \<open>sess_group\<close>; all are prepared. The server polls, as without the option \<open>-e\<close>.
\<close>

section \<open>The driver and its sessions\<close>

text \<open>The program points: in \<open>do_reduce\<close> of a group, about to look at the session in front; in the
  case of a block, with the session that brought it; in \<open>broadcast\<close> of a group.\<close>

datatype driver_pc = Reducing nat | Pulling nat nat | Broadcasting nat

text \<open>\<open>ar_link\<close> is the connection of each session: \<open>srv_todo\<close> is what the server still has to do for
  it. \<open>ar_round\<close> counts the rounds.\<close>

record allreduce =
  ar_pc :: driver_pc
  ar_groups :: "session_group list"
  ar_link :: "nat \<Rightarrow> link"
  ar_round :: nat

definition allreduce_init :: "nat list list \<Rightarrow> allreduce" where
  "allreduce_init gs = \<lparr>ar_pc = Reducing 0, ar_groups = map (\<lambda>g. (g, [])) gs, ar_link = (\<lambda>s. link_init), ar_round = 0\<rparr>"

definition set_group :: "nat \<Rightarrow> session_group \<Rightarrow> allreduce \<Rightarrow> allreduce" where
  "set_group g q x = x\<lparr>ar_groups := (ar_groups x)[g := q]\<rparr>"

definition set_link :: "nat \<Rightarrow> link \<Rightarrow> allreduce \<Rightarrow> allreduce" where
  "set_link s l x = x\<lparr>ar_link := (ar_link x)(s := l)\<rparr>"

inductive allreduce_step :: "allreduce \<Rightarrow> allreduce \<Rightarrow> bool" where
  peer: "peer_step (ar_link x s) l \<Longrightarrow> allreduce_step x (set_link s l x)"
| poll_empty: "ar_pc x = Reducing g \<Longrightarrow> g < length (ar_groups x) \<Longrightarrow> ar_groups x ! g = (s # inflight, ready) \<Longrightarrow>
     srv_cq (ar_link x s) = [] \<Longrightarrow> allreduce_step x (set_group g (inflight @ [s], ready) x)"
| poll_other: "ar_pc x = Reducing g \<Longrightarrow> g < length (ar_groups x) \<Longrightarrow> ar_groups x ! g = (s # inflight, ready) \<Longrightarrow>
     srv_cq (ar_link x s) = op # ops \<Longrightarrow> op \<noteq> IBV_WC_RECV_RDMA_WITH_IMM \<Longrightarrow> srv_todo (ar_link x s) = [] \<Longrightarrow>
     allreduce_step x (set_group g (inflight @ [s], ready) (set_link s ((ar_link x s)\<lparr>srv_cq := ops\<rparr>) x))"
| poll_block: "ar_pc x = Reducing g \<Longrightarrow> g < length (ar_groups x) \<Longrightarrow> ar_groups x ! g = (s # inflight, ready) \<Longrightarrow>
     srv_cq (ar_link x s) = IBV_WC_RECV_RDMA_WITH_IMM # ops \<Longrightarrow> srv_todo (ar_link x s) = [] \<Longrightarrow>
     allreduce_step x (set_group g (inflight, ready)
       (set_link s ((ar_link x s)\<lparr>srv_cq := ops, srv_todo := [PullCtrl 1, PushCtrl 0]\<rparr>) (x\<lparr>ar_pc := Pulling g s\<rparr>)))"
| pull: "ar_pc x = Pulling g s \<Longrightarrow> g < length (ar_groups x) \<Longrightarrow> ar_groups x ! g = (inflight, ready) \<Longrightarrow>
     srv_todo (ar_link x s) = PullCtrl i # todo \<Longrightarrow>
     allreduce_step x (set_group g (inflight, ready @ [s])
       (set_link s ((ar_link x s)\<lparr>srv_todo := todo, srv_recvs := Suc (srv_recvs (ar_link x s))\<rparr>) (x\<lparr>ar_pc := Reducing g\<rparr>)))"
| reduced: "ar_pc x = Reducing g \<Longrightarrow> g < length (ar_groups x) \<Longrightarrow> ar_groups x ! g = ([], ready) \<Longrightarrow>
     allreduce_step x (x\<lparr>ar_pc := if Suc g < length (ar_groups x) then Reducing (Suc g) else Broadcasting g\<rparr>)"
| answer: "ar_pc x = Broadcasting g \<Longrightarrow> g < length (ar_groups x) \<Longrightarrow> ar_groups x ! g = (inflight, s # ready) \<Longrightarrow>
     srv_todo (ar_link x s) = PushCtrl i # todo \<Longrightarrow>
     allreduce_step x (set_group g (inflight @ [s], ready)
       (set_link s ((ar_link x s)\<lparr>srv_todo := todo, wire_ctrl := Suc (wire_ctrl (ar_link x s))\<rparr>) x))"
| broadcasted: "ar_pc x = Broadcasting g \<Longrightarrow> g < length (ar_groups x) \<Longrightarrow> ar_groups x ! g = (inflight, []) \<Longrightarrow>
     allreduce_step x (if g = 0 then x\<lparr>ar_pc := Reducing 0, ar_round := Suc (ar_round x)\<rparr> else x\<lparr>ar_pc := Broadcasting (g - 1)\<rparr>)"

inductive_cases allreduce_stepE: "allreduce_step x y"

section \<open>Each session is an exchange of its own\<close>

lemma set_link_simps [simp]:
  "ar_link (set_link s l x) = (ar_link x)(s := l)" "ar_pc (set_link s l x) = ar_pc x"
  "ar_groups (set_link s l x) = ar_groups x" "ar_round (set_link s l x) = ar_round x"
  "ar_link (set_group g q x) = ar_link x" "ar_pc (set_group g q x) = ar_pc x"
  "ar_groups (set_group g q x) = (ar_groups x)[g := q]" "ar_round (set_group g q x) = ar_round x"
  by (simp_all add: set_link_def set_group_def)

lemma set_todo: "srv_todo l = [] \<Longrightarrow> l\<lparr>srv_cq := ops, srv_todo := []\<rparr> = l\<lparr>srv_cq := ops\<rparr>"
  by (cases l) simp

interpretation session: stutter_sim allreduce_step link_step "\<lambda>x. ar_link x s" for s
proof
  fix x y assume "allreduce_step x y"
  then show "link_step (ar_link x s) (ar_link y s) \<or> ar_link y s = ar_link x s"
  proof cases
    case (poll_other g t inflight ready op ops)
    moreover from poll_other(6) have "recv_side_actions op = []" by (cases op) auto
    ultimately show ?thesis using link_step.srv_polls [of "ar_link x t" op ops] by (auto simp: set_todo)
  next
    case (poll_block g t inflight ready ops)
    then show ?thesis using link_step.srv_polls [of "ar_link x t" IBV_WC_RECV_RDMA_WITH_IMM ops] by auto
  qed (auto simp: peer_step_def intro: link_step.srv_polls link_step.srv_pulls link_step.srv_pushes)
qed

section \<open>Where every session is\<close>

fun group_index :: "driver_pc \<Rightarrow> nat" where
  "group_index (Reducing g) = g"
| "group_index (Pulling g s) = g"
| "group_index (Broadcasting g) = g"

fun broadcasting :: "driver_pc \<Rightarrow> bool" where
  "broadcasting (Broadcasting g) = True"
| "broadcasting pc = False"

text \<open>The sessions of a group, wherever they are.\<close>

definition held :: "allreduce \<Rightarrow> nat \<Rightarrow> nat multiset" where
  "held x j = mset (fst (ar_groups x ! j)) + mset (snd (ar_groups x ! j))
     + (case ar_pc x of Pulling g s \<Rightarrow> if j = g then {#s#} else {#} | _ \<Rightarrow> {#})"

definition todo_of :: "allreduce \<Rightarrow> nat \<Rightarrow> nat \<Rightarrow> action list" where
  "todo_of x j s = (if s \<in> set (fst (ar_groups x ! j)) then [] else if s \<in> set (snd (ar_groups x ! j)) then [PushCtrl 0]
     else [PullCtrl 1, PushCtrl 0])"

text \<open>Groups before the current one are reduced, those after it have been answered.\<close>

definition allreduce_inv :: "nat list list \<Rightarrow> allreduce \<Rightarrow> bool" where
  "allreduce_inv gs x \<longleftrightarrow> length (ar_groups x) = length gs \<and> group_index (ar_pc x) < length gs
     \<and> (\<forall>j < length gs. held x j = mset (gs ! j))
     \<and> (\<forall>s. link_inv (ar_link x s))
     \<and> (\<forall>j < length gs. \<forall>s \<in> set (gs ! j). srv_todo (ar_link x s) = todo_of x j s)
     \<and> (\<forall>j < group_index (ar_pc x). fst (ar_groups x ! j) = [])
     \<and> (\<forall>j < length gs. group_index (ar_pc x) < j \<longrightarrow> snd (ar_groups x ! j) = [])"

lemma held_step: "allreduce_step x y \<Longrightarrow> held y j = held x j"
  by (erule allreduce_stepE) (auto simp: held_def nth_list_update)

lemma groups_step:
  assumes "allreduce_step x y" and "allreduce_inv gs x"
  shows "length (ar_groups y) = length gs" and "group_index (ar_pc y) < length gs"
    and "j < group_index (ar_pc y) \<Longrightarrow> fst (ar_groups y ! j) = []"
    and "j < length gs \<Longrightarrow> group_index (ar_pc y) < j \<Longrightarrow> snd (ar_groups y ! j) = []"
proof -
  have len: "length (ar_groups x) = length gs" "group_index (ar_pc x) < length gs"
    and pre: "\<And>j. j < group_index (ar_pc x) \<Longrightarrow> fst (ar_groups x ! j) = []"
    and post: "\<And>j. j < length gs \<Longrightarrow> group_index (ar_pc x) < j \<Longrightarrow> snd (ar_groups x ! j) = []"
    using assms(2) by (simp_all add: allreduce_inv_def)
  show "length (ar_groups y) = length gs" using assms(1) len(1) by cases auto
  show "group_index (ar_pc y) < length gs" using assms(1) len by cases auto
  show "fst (ar_groups y ! j) = []" if "j < group_index (ar_pc y)"
    using assms(1) pre [of j] that by cases (auto simp: less_Suc_eq split: if_splits)
  show "snd (ar_groups y ! j) = []" if "j < length gs" "group_index (ar_pc y) < j"
  proof (cases "j = group_index (ar_pc x)")
    case True
    show ?thesis using assms(1) that True by cases (auto split: if_splits)
  next
    case False
    show ?thesis using assms(1) post [of j] that False by cases (auto split: if_splits)
  qed
qed

lemma links_step:
  assumes "allreduce_step x y" and "\<forall>s. link_inv (ar_link x s)"
  shows "link_inv (ar_link y s)"
  using session.sim [OF assms(1), of s] link_step_inv assms(2) by metis

text \<open>The session whose queue moves is in the current group only.\<close>

lemma held_cases:
  assumes "held x j = mset xs"
  shows "t \<in> set xs \<longleftrightarrow> t \<in> set (fst (ar_groups x ! j)) \<or> t \<in> set (snd (ar_groups x ! j)) \<or> ar_pc x = Pulling j t"
proof -
  have "t \<in> set xs \<longleftrightarrow> t \<in># held x j" using assms by simp
  also have "\<dots> \<longleftrightarrow> t \<in> set (fst (ar_groups x ! j)) \<or> t \<in> set (snd (ar_groups x ! j)) \<or> ar_pc x = Pulling j t"
    by (auto simp: held_def split: driver_pc.splits if_splits)
  finally show ?thesis .
qed

lemma held_distinct:
  assumes "held x j = mset xs" and "distinct xs"
  shows "distinct (fst (ar_groups x ! j))" and "distinct (snd (ar_groups x ! j))"
    and "set (fst (ar_groups x ! j)) \<inter> set (snd (ar_groups x ! j)) = {}"
    and "ar_pc x = Pulling j t \<Longrightarrow> t \<notin> set (fst (ar_groups x ! j)) \<union> set (snd (ar_groups x ! j))"
proof -
  let ?ys = "fst (ar_groups x ! j) @ snd (ar_groups x ! j) @ (case ar_pc x of Pulling g s \<Rightarrow> if j = g then [s] else [] | _ \<Rightarrow> [])"
  have "mset ?ys = mset xs" using assms(1) by (auto simp: held_def split: driver_pc.splits)
  then have d: "distinct ?ys" using assms(2) by (metis mset_eq_imp_distinct_iff)
  show "distinct (fst (ar_groups x ! j))" "distinct (snd (ar_groups x ! j))"
    "set (fst (ar_groups x ! j)) \<inter> set (snd (ar_groups x ! j)) = {}" using d by auto
  show "t \<notin> set (fst (ar_groups x ! j)) \<union> set (snd (ar_groups x ! j))" if "ar_pc x = Pulling j t" using d that by auto
qed

lemma concat_group_unique:
  "distinct (concat gs) \<Longrightarrow> i < length gs \<Longrightarrow> j < length gs \<Longrightarrow> t \<in> set (gs ! i) \<Longrightarrow> t \<in> set (gs ! j) \<Longrightarrow> i = j"
proof (induction gs arbitrary: i j)
  case (Cons g gs)
  then show ?case by (cases i; cases j) (auto simp: disjoint_iff dest: nth_mem)
qed simp

lemma todo_step_away:
  assumes "allreduce_step x y" and "srv_todo (ar_link x t) = todo_of x j t" and "j \<noteq> group_index (ar_pc x)"
    and "\<And>s g. g = group_index (ar_pc x) \<Longrightarrow>
      s \<in> set (fst (ar_groups x ! g)) \<union> set (snd (ar_groups x ! g)) \<or> ar_pc x = Pulling g s \<Longrightarrow> t \<noteq> s"
  shows "srv_todo (ar_link y t) = todo_of y j t"
  using assms(1)
proof cases
  case (peer s l)
  then show ?thesis using assms(2) by (auto simp: todo_of_def peer_step_def)
qed (use assms(2,3) assms(4) [OF refl] in \<open>auto simp: todo_of_def split: if_split_asm\<close>)

lemma todo_step:
  assumes "allreduce_step x y" and "allreduce_inv gs x" and "distinct (concat gs)" and "j < length gs" and "t \<in> set (gs ! j)"
  shows "srv_todo (ar_link y t) = todo_of y j t"
proof -
  have todo: "srv_todo (ar_link x t) = todo_of x j t" and held: "\<And>j. j < length gs \<Longrightarrow> held x j = mset (gs ! j)"
    and len: "length (ar_groups x) = length gs" "group_index (ar_pc x) < length gs" and links: "link_inv (ar_link x t)"
    using assms(2,4,5) by (simp_all add: allreduce_inv_def)
  show ?thesis
  proof (cases "j = group_index (ar_pc x)")
    case False
    show ?thesis
    proof (rule todo_step_away [OF assms(1) todo False])
      fix s g assume g: "g = group_index (ar_pc x)"
        and "s \<in> set (fst (ar_groups x ! g)) \<union> set (snd (ar_groups x ! g)) \<or> ar_pc x = Pulling g s"
      then have "s \<in> set (gs ! g)" using held_cases [OF held, of g s] len(2) by blast
      then show "t \<noteq> s" using concat_group_unique [OF assms(3) _ assms(4) _ assms(5), of g] False g len(2) by blast
    qed
  next
    case True
    have "distinct (gs ! j)" using assms(3,4) by (auto simp: distinct_concat_iff)
    note d = held_distinct [OF held [OF assms(4)] this]
    from assms(1) show ?thesis
    proof cases
      case (peer s l)
      then show ?thesis using todo by (auto simp: todo_of_def peer_step_def)
    next
      case (pull g s inflight ready i todo')
      then show ?thesis using True todo len d links by (auto simp: todo_of_def link_inv_def)
    next
      case (answer g inflight s ready i todo')
      then show ?thesis using True todo len d links by (auto simp: todo_of_def link_inv_def)
    qed (use True todo len d in \<open>auto simp: todo_of_def split: if_split_asm\<close>)
  qed
qed

text \<open>How often the server has taken a block of a session: once more in a round that has got to it.\<close>

definition in_step :: "allreduce \<Rightarrow> nat \<Rightarrow> bool" where
  "in_step x s \<longleftrightarrow> taken (ar_link x s)
     (ar_round x + (if broadcasting (ar_pc x) \<or> srv_todo (ar_link x s) \<noteq> [] then 1 else 0))"

lemma group_of: "t \<in> set (concat gs) \<Longrightarrow> \<exists>j < length gs. t \<in> set (gs ! j)"
  by (auto simp: in_set_conv_nth) (metis nth_mem)

text \<open>When the last group is reduced every session is ready; when the first is answered every
  session is in flight again.\<close>

lemma all_reduced:
  assumes "allreduce_inv gs x" and "ar_pc x = Reducing g" and "ar_groups x ! g = ([], ready)" and "Suc g = length gs"
    and "t \<in> set (concat gs)"
  shows "srv_todo (ar_link x t) \<noteq> []"
proof -
  obtain j where j: "j < length gs" "t \<in> set (gs ! j)" using group_of [OF assms(5)] by blast
  then have "fst (ar_groups x ! j) = []" using assms(1-4) by (cases "j = g") (auto simp: allreduce_inv_def)
  moreover have "srv_todo (ar_link x t) = todo_of x j t" using assms(1) j by (simp add: allreduce_inv_def)
  ultimately show ?thesis by (simp add: todo_of_def)
qed

lemma all_answered:
  assumes "allreduce_inv gs x" and "ar_pc x = Broadcasting 0" and "ar_groups x ! 0 = (inflight, [])" and "t \<in> set (concat gs)"
  shows "srv_todo (ar_link x t) = []"
proof -
  obtain j where j: "j < length gs" "t \<in> set (gs ! j)" using group_of [OF assms(4)] by blast
  then have "snd (ar_groups x ! j) = []" using assms(1-3) by (cases "j = 0") (auto simp: allreduce_inv_def)
  moreover have "held x j = mset (gs ! j)" using assms(1) j by (simp add: allreduce_inv_def)
  ultimately have "t \<in> set (fst (ar_groups x ! j))" using held_cases [of x j "gs ! j" t] j(2) assms(2) by simp
  moreover have "srv_todo (ar_link x t) = todo_of x j t" using assms(1) j by (simp add: allreduce_inv_def)
  ultimately show ?thesis by (simp add: todo_of_def)
qed

lemma in_step_step:
  assumes "allreduce_step x y" and "allreduce_inv gs x" and "\<forall>s \<in> set (concat gs). in_step x s" and "t \<in> set (concat gs)"
  shows "in_step y t"
proof -
  have links: "link_inv (ar_link x t)" and len: "length (ar_groups x) = length gs"
    using assms(2) by (simp_all add: allreduce_inv_def)
  have now: "in_step x t" using assms(3,4) by blast
  from assms(1) show ?thesis
  proof cases
    case (peer s l)
    then have "srv_todo l = srv_todo (ar_link x s)" by (simp add: peer_step_def)
    with now peer(1) peer_taken [OF peer(2)] show ?thesis by (cases "t = s") (simp_all add: in_step_def)
  next
    case (poll_other g s inflight ready op ops)
    then show ?thesis using now by (auto simp: in_step_def taken_def)
  next
    case (poll_block g s inflight ready ops)
    then show ?thesis using now by (auto simp: in_step_def taken_def)
  next
    case (pull g s inflight ready i todo')
    then show ?thesis using now links by (auto simp: in_step_def link_inv_def)
  next
    case (reduced g ready)
    show ?thesis
    proof (cases "Suc g < length gs")
      case False
      then have "Suc g = length gs" using reduced(3) len by simp
      from all_reduced [OF assms(2) reduced(2,4) this assms(4)] now reduced len show ?thesis by (simp add: in_step_def)
    qed (use now reduced len in \<open>simp add: in_step_def\<close>)
  next
    case (broadcasted g inflight)
    show ?thesis
    proof (cases "g = 0")
      case True
      with broadcasted all_answered [OF assms(2) _ _ assms(4)] now show ?thesis by (simp add: in_step_def)
    qed (use now broadcasted in \<open>simp add: in_step_def\<close>)
  qed (use now in \<open>auto simp: in_step_def\<close>)
qed

section \<open>Rounds in lockstep\<close>

definition allreduce_ok :: "nat list list \<Rightarrow> allreduce \<Rightarrow> bool" where
  "allreduce_ok gs x \<longleftrightarrow> distinct (concat gs) \<and> allreduce_inv gs x \<and> (\<forall>s \<in> set (concat gs). in_step x s)"

lemma ok_init: "gs \<noteq> [] \<Longrightarrow> distinct (concat gs) \<Longrightarrow> allreduce_ok gs (allreduce_init gs)"
  by (auto simp: allreduce_ok_def allreduce_inv_def allreduce_init_def held_def todo_of_def in_step_def taken_def
      link_inv_init) (simp_all add: link_init_def)

lemma ok_step:
  assumes "allreduce_step x y" and "allreduce_ok gs x"
  shows "allreduce_ok gs y"
proof -
  have d: "distinct (concat gs)" and inv: "allreduce_inv gs x" and s: "\<forall>s \<in> set (concat gs). in_step x s"
    using assms(2) by (simp_all add: allreduce_ok_def)
  have "allreduce_inv gs y" unfolding allreduce_inv_def
    using groups_step [OF assms(1) inv] links_step [OF assms(1)] todo_step [OF assms(1) inv d] inv held_step [OF assms(1)]
    by (simp add: allreduce_inv_def)
  then show ?thesis using in_step_step [OF assms(1) inv s] d by (simp add: allreduce_ok_def)
qed

lemma ok_run: "allreduce_step\<^sup>*\<^sup>* x y \<Longrightarrow> allreduce_ok gs x \<Longrightarrow> allreduce_ok gs y"
  by (induction rule: rtranclp_induct) (auto intro: ok_step)

text \<open>How many blocks of a session the server has answered.\<close>

definition answered :: "link \<Rightarrow> nat" where
  "answered l = blocks_done l - imms (srv_cq l) - pushes (srv_todo l)"

lemma link_inv_one: "link_inv l \<Longrightarrow> imms (srv_cq l) + pushes (srv_todo l) \<le> 1 \<and> (srv_todo l \<noteq> [] \<longrightarrow> pushes (srv_todo l) = 1)"
  by (auto simp: link_inv_def)

lemma session_counts:
  assumes "allreduce_ok gs x" and "s \<in> set (concat gs)"
  shows "answered (ar_link x s) \<le> ar_round x + (if broadcasting (ar_pc x) then 1 else 0)"
    and "ar_round x + (if broadcasting (ar_pc x) then 1 else 0) \<le> blocks_done (ar_link x s) - imms (srv_cq (ar_link x s))"
    and "blocks_done (ar_link x s) \<le> ar_round x + (if broadcasting (ar_pc x) then 1 else 0) + 1"
proof -
  have l: "link_inv (ar_link x s)" using assms(1) by (simp add: allreduce_ok_def allreduce_inv_def)
  have st: "in_step x s" using assms unfolding allreduce_ok_def by blast
  note f = link_inv_one [OF l] st [unfolded in_step_def taken_def]
  show "answered (ar_link x s) \<le> ar_round x + (if broadcasting (ar_pc x) then 1 else 0)"
    using f by (auto simp: answered_def split: if_splits)
  show "ar_round x + (if broadcasting (ar_pc x) then 1 else 0) \<le> blocks_done (ar_link x s) - imms (srv_cq (ar_link x s))"
    using f by (auto split: if_splits)
  show "blocks_done (ar_link x s) \<le> ar_round x + (if broadcasting (ar_pc x) then 1 else 0) + 1"
    using f by (auto split: if_splits)
qed

lemma sessions_in_lockstep:
  assumes "gs \<noteq> []" and "distinct (concat gs)" and "allreduce_step\<^sup>*\<^sup>* (allreduce_init gs) x"
    and "s \<in> set (concat gs)" and "t \<in> set (concat gs)"
  shows "answered (ar_link x s) \<le> blocks_done (ar_link x t) - imms (srv_cq (ar_link x t))
    \<and> blocks_done (ar_link x s) \<le> Suc (blocks_done (ar_link x t)) \<and> \<not> not_ready (ar_link x s)"
proof -
  have ok: "allreduce_ok gs x" by (rule ok_run [OF assms(3) ok_init [OF assms(1,2)]])
  have "\<not> not_ready (ar_link x s)" using ok by (simp add: allreduce_ok_def allreduce_inv_def link_inv_def)
  then show ?thesis using session_counts [OF ok assms(4)] session_counts [OF ok assms(5)] by linarith
qed

text \<open>
  C2. The all-reduce drivers are barriers: in every interleaving with all clients and wires, no session
  is answered for its block of a round before the server has taken that block from every session of
  every group, no two sessions are ever more than one block apart, and every block finds a posted
  receive.
\<close>

theorem allreduce_in_lockstep:
  assumes "gs \<noteq> []" and "distinct (concat gs)" and "allreduce_step\<^sup>*\<^sup>* (allreduce_init gs) x"
    and "s \<in> set (concat gs)" and "t \<in> set (concat gs)"
  shows "answered (ar_link x s) \<le> blocks_done (ar_link x t) - imms (srv_cq (ar_link x t))
    \<and> blocks_done (ar_link x s) \<le> Suc (blocks_done (ar_link x t)) \<and> \<not> not_ready (ar_link x s)"
  by (rule sessions_in_lockstep [OF assms])

section \<open>A round completes\<close>

lemma peer_run: "peer_step\<^sup>*\<^sup>* (ar_link x s) l \<Longrightarrow> allreduce_step\<^sup>*\<^sup>* x (set_link s l x)"
proof (induction rule: rtranclp_induct)
  case base
  have "set_link s (ar_link x s) x = x" by (cases x) (simp add: set_link_def)
  then show ?case by (simp only: rtranclp.rtrancl_refl)
next
  case (step l l')
  have "allreduce_step (set_link s l x) (set_link s l' (set_link s l x))"
    using step.hyps(2) by (intro allreduce_step.peer) simp
  moreover have "set_link s l' (set_link s l x) = set_link s l' x" by (simp add: set_link_def)
  ultimately show ?case using step.IH by auto
qed

text \<open>The clients and wires can bring the block of the round for every session.\<close>

lemma block_of_round:
  assumes "allreduce_ok gs x" and "s \<in> set (concat gs)"
  shows "\<exists>l. allreduce_step\<^sup>*\<^sup>* x (set_link s l x) \<and> ar_round x < blocks_done l"
proof (cases "ar_round x < blocks_done (ar_link x s)")
  case True
  moreover have "allreduce_step\<^sup>*\<^sup>* x (set_link s (ar_link x s) x)" by (rule peer_run [OF rtranclp.rtrancl_refl])
  ultimately show ?thesis by blast
next
  case False
  have "link_inv (ar_link x s)" using assms(1) by (simp add: allreduce_ok_def allreduce_inv_def)
  moreover have "in_step x s" using assms unfolding allreduce_ok_def by blast
  then have "srv_todo (ar_link x s) = [] \<and> imms (srv_cq (ar_link x s)) = 0 \<and> blocks_done (ar_link x s) = ar_round x"
    using False by (auto simp: in_step_def taken_def split: if_splits)
  ultimately obtain l where "peer_step\<^sup>*\<^sup>* (ar_link x s) l" "blocks_done l = Suc (ar_round x)"
    using client.progress [of "ar_link x s"] by auto
  then show ?thesis using peer_run by (intro exI [of _ l]) auto
qed

lemma blocks_of_round:
  assumes "set ss \<subseteq> set (concat gs)"
  shows "allreduce_ok gs x \<Longrightarrow> \<exists>y. allreduce_step\<^sup>*\<^sup>* x y \<and> ar_round y = ar_round x \<and> (\<forall>s \<in> set ss. ar_round x < blocks_done (ar_link y s))"
  using assms
proof (induction ss)
  case (Cons s ss)
  then obtain y where y: "allreduce_step\<^sup>*\<^sup>* x y" "ar_round y = ar_round x" "\<forall>s \<in> set ss. ar_round x < blocks_done (ar_link y s)"
    by auto
  moreover have "s \<in> set (concat gs)" using Cons.prems(2) by simp
  ultimately obtain l where l: "allreduce_step\<^sup>*\<^sup>* y (set_link s l y)" "ar_round y < blocks_done l"
    using block_of_round [OF ok_run [OF y(1) Cons.prems(1)]] by blast
  then show ?case using y by (intro exI [of _ "set_link s l y"]) auto
qed auto

text \<open>Then the server goes round by itself.\<close>

fun pc_distance :: "nat \<Rightarrow> driver_pc \<Rightarrow> nat" where
  "pc_distance n (Reducing g) = 2 * n - g"
| "pc_distance n (Pulling g s) = 2 * n - g + 1"
| "pc_distance n (Broadcasting g) = g + 1"

definition link_distance :: "link \<Rightarrow> nat" where
  "link_distance l = 4 * length (srv_cq l) + 2 * pushes (srv_todo l)"

definition server_distance :: "nat list list \<Rightarrow> allreduce \<Rightarrow> nat" where
  "server_distance gs x = (\<Sum>s \<leftarrow> concat gs. link_distance (ar_link x s)) + pc_distance (length gs) (ar_pc x)"

definition blocks_there :: "nat list list \<Rightarrow> allreduce \<Rightarrow> bool" where
  "blocks_there gs x \<longleftrightarrow> allreduce_ok gs x \<and> (\<forall>s \<in> set (concat gs). ar_round x < blocks_done (ar_link x s))"

lemma sum_list_fun_upd:
  fixes f :: "'b \<Rightarrow> nat"
  shows "distinct ss \<Longrightarrow> s \<in> set ss \<Longrightarrow> (\<Sum>t \<leftarrow> ss. f ((L(s := l)) t)) + f (L s) = (\<Sum>t \<leftarrow> ss. f (L t)) + f l"
proof (induction ss)
  case (Cons a ss)
  have "(\<Sum>t \<leftarrow> ss. f ((L(s := l)) t)) = (\<Sum>t \<leftarrow> ss. f (L t))" if "s \<notin> set ss"
    using that by (intro arg_cong [of _ _ sum_list] map_cong) auto
  with Cons show ?case by (cases "a = s") auto
qed simp

definition server_closer :: "nat list list \<Rightarrow> allreduce \<Rightarrow> bool" where
  "server_closer gs x \<longleftrightarrow> (\<exists>y. allreduce_step x y \<and>
     (ar_round y = Suc (ar_round x) \<or> ar_round y = ar_round x \<and> blocks_there gs y \<and> server_distance gs y < server_distance gs x))"

lemma closer_link:
  assumes "blocks_there gs x" and "s \<in> set (concat gs)" and "allreduce_step x y"
    and "ar_link y = (ar_link x)(s := ar_link y s)" and "ar_round y = ar_round x"
    and "blocks_done (ar_link y s) = blocks_done (ar_link x s)"
    and "link_distance (ar_link y s) + pc_distance (length gs) (ar_pc y)
      < link_distance (ar_link x s) + pc_distance (length gs) (ar_pc x)"
  shows "server_closer gs x"
proof -
  have ok: "allreduce_ok gs x" using assms(1) by (simp add: blocks_there_def)
  then have "distinct (concat gs)" by (simp add: allreduce_ok_def)
  from sum_list_fun_upd [OF this assms(2), of link_distance "ar_link x" "ar_link y s"] assms(4)
  have "(\<Sum>t \<leftarrow> concat gs. link_distance (ar_link y t)) + link_distance (ar_link x s)
      = (\<Sum>t \<leftarrow> concat gs. link_distance (ar_link x t)) + link_distance (ar_link y s)" by (simp only:)
  then have "server_distance gs y < server_distance gs x" using assms(7) by (simp add: server_distance_def)
  moreover have "ar_link y t = (if t = s then ar_link y s else ar_link x t)" for t
    using fun_cong [OF assms(4), of t] by simp
  then have "blocks_there gs y" using assms(1,5,6) ok_step [OF assms(3) ok]
    unfolding blocks_there_def by metis
  ultimately show ?thesis using assms(3,5) unfolding server_closer_def by blast
qed

lemma closer_pc:
  assumes "blocks_there gs x" and "allreduce_step x y" and "ar_link y = ar_link x" and "ar_round y = ar_round x"
    and "pc_distance (length gs) (ar_pc y) < pc_distance (length gs) (ar_pc x)"
  shows "server_closer gs x"
  using assms ok_step [OF assms(2)] unfolding server_closer_def
  by (intro exI [of _ y]) (simp add: blocks_there_def server_distance_def)

lemma reducing_closer:
  assumes "blocks_there gs x" and "ar_pc x = Reducing g"
  shows "server_closer gs x"
proof -
  have ok: "allreduce_ok gs x" using assms(1) by (simp add: blocks_there_def)
  have inv: "allreduce_inv gs x" using ok by (simp add: allreduce_ok_def)
  have g: "g < length gs" "length (ar_groups x) = length gs" using inv assms(2) by (auto simp: allreduce_inv_def)
  obtain q r where q: "ar_groups x ! g = (q, r)" by (cases "ar_groups x ! g")
  show ?thesis
  proof (cases q)
    case Nil
    show ?thesis
      by (rule closer_pc [OF assms(1) allreduce_step.reduced [of x g r]]) (use g q Nil assms(2) in \<open>simp_all, arith\<close>)
  next
    case (Cons s q')
    have "held x g = mset (gs ! g)" using inv g by (simp add: allreduce_inv_def)
    then have sg: "s \<in> set (gs ! g)" using held_cases [of x g "gs ! g" s] q Cons by simp
    then have s: "s \<in> set (concat gs)" using g nth_mem by fastforce
    have todo: "srv_todo (ar_link x s) = []" using inv g sg q Cons by (simp add: allreduce_inv_def todo_of_def)
    have "in_step x s" using ok s unfolding allreduce_ok_def by blast
    moreover have "ar_round x < blocks_done (ar_link x s)" using assms(1) s unfolding blocks_there_def by blast
    ultimately have "imms (srv_cq (ar_link x s)) \<noteq> 0" using assms(2) todo by (simp add: in_step_def taken_def)
    then obtain op ops where cq: "srv_cq (ar_link x s) = op # ops" by (cases "srv_cq (ar_link x s)") auto
    show ?thesis
    proof (cases "op = IBV_WC_RECV_RDMA_WITH_IMM")
      case True
      show ?thesis
        by (rule closer_link [OF assms(1) s allreduce_step.poll_block [of x g s q' r ops]])
          (use g q Cons assms(2) cq todo True in \<open>simp_all add: link_distance_def\<close>)
    next
      case False
      show ?thesis
        by (rule closer_link [OF assms(1) s allreduce_step.poll_other [of x g s q' r op ops]])
          (use g q Cons assms(2) cq todo False in \<open>simp_all add: link_distance_def\<close>)
    qed
  qed
qed

lemma pulling_closer:
  assumes "blocks_there gs x" and "ar_pc x = Pulling g s"
  shows "server_closer gs x"
proof -
  have ok: "allreduce_ok gs x" using assms(1) by (simp add: blocks_there_def)
  have inv: "allreduce_inv gs x" and d: "distinct (concat gs)" using ok by (simp_all add: allreduce_ok_def)
  have g: "g < length gs" "length (ar_groups x) = length gs" using inv assms(2) by (auto simp: allreduce_inv_def)
  have held: "held x g = mset (gs ! g)" using inv g by (simp add: allreduce_inv_def)
  then have sg: "s \<in> set (gs ! g)" using held_cases [of x g "gs ! g" s] assms(2) by simp
  then have s: "s \<in> set (concat gs)" using g nth_mem by fastforce
  have "distinct (gs ! g)" using d g by (auto simp: distinct_concat_iff)
  from held_distinct(4) [OF held this assms(2)] have todo: "srv_todo (ar_link x s) = [PullCtrl 1, PushCtrl 0]"
    using inv g sg by (simp add: allreduce_inv_def todo_of_def)
  obtain q r where q: "ar_groups x ! g = (q, r)" by (cases "ar_groups x ! g")
  show ?thesis
    by (rule closer_link [OF assms(1) s allreduce_step.pull [of x g s q r 1 "[PushCtrl 0]"]])
      (use g q assms(2) todo in \<open>simp_all add: link_distance_def\<close>)
qed

lemma broadcasting_closer:
  assumes "blocks_there gs x" and "ar_pc x = Broadcasting g"
  shows "server_closer gs x"
proof -
  have ok: "allreduce_ok gs x" using assms(1) by (simp add: blocks_there_def)
  have inv: "allreduce_inv gs x" and d: "distinct (concat gs)" using ok by (simp_all add: allreduce_ok_def)
  have g: "g < length gs" "length (ar_groups x) = length gs" using inv assms(2) by (auto simp: allreduce_inv_def)
  have held: "held x g = mset (gs ! g)" using inv g by (simp add: allreduce_inv_def)
  obtain q r where q: "ar_groups x ! g = (q, r)" by (cases "ar_groups x ! g")
  show ?thesis
  proof (cases r)
    case Nil
    have st: "allreduce_step x (if g = 0 then x\<lparr>ar_pc := Reducing 0, ar_round := Suc (ar_round x)\<rparr> else x\<lparr>ar_pc := Broadcasting (g - 1)\<rparr>)"
      using allreduce_step.broadcasted [of x g q] g q Nil assms(2) by simp
    show ?thesis
    proof (cases "g = 0")
      case True
      with st show ?thesis unfolding server_closer_def by (intro exI [of _ "x\<lparr>ar_pc := Reducing 0, ar_round := Suc (ar_round x)\<rparr>"]) simp
    next
      case False
      then show ?thesis by (intro closer_pc [OF assms(1) st]) (simp_all add: assms(2))
    qed
  next
    case (Cons s r')
    then have sg: "s \<in> set (gs ! g)" using held_cases [OF held, of s] q by simp
    then have s: "s \<in> set (concat gs)" using g nth_mem by fastforce
    have "distinct (gs ! g)" using d g by (auto simp: distinct_concat_iff)
    from held_distinct(3) [OF held this] have "s \<notin> set q" using q Cons by auto
    then have todo: "srv_todo (ar_link x s) = [PushCtrl 0]" using inv g sg q Cons by (simp add: allreduce_inv_def todo_of_def)
    show ?thesis
      by (rule closer_link [OF assms(1) s allreduce_step.answer [of x g q s r' 0 "[]"]])
        (use g q Cons assms(2) todo in \<open>simp_all add: link_distance_def\<close>)
  qed
qed

interpretation server: counted_progress allreduce_step "blocks_there gs" "server_distance gs" ar_round for gs
proof
  fix x assume "blocks_there gs x"
  then show "\<exists>y. allreduce_step x y \<and> (ar_round y = Suc (ar_round x) \<or>
      ar_round y = ar_round x \<and> blocks_there gs y \<and> server_distance gs y < server_distance gs x)"
    using reducing_closer pulling_closer broadcasting_closer unfolding server_closer_def by (cases "ar_pc x") blast+
qed

lemma round_completes:
  assumes "gs \<noteq> []" and "distinct (concat gs)" and "allreduce_step\<^sup>*\<^sup>* (allreduce_init gs) x"
  shows "\<exists>y. allreduce_step\<^sup>*\<^sup>* x y \<and> ar_round y = Suc (ar_round x)"
proof -
  have ok: "allreduce_ok gs x" by (rule ok_run [OF assms(3) ok_init [OF assms(1,2)]])
  obtain y where y: "allreduce_step\<^sup>*\<^sup>* x y" "ar_round y = ar_round x" "\<forall>s \<in> set (concat gs). ar_round x < blocks_done (ar_link y s)"
    using blocks_of_round [OF order_refl ok] by blast
  then have "blocks_there gs y" using ok_run [OF y(1) ok] by (simp add: blocks_there_def)
  with server.progress [of gs y] y(1,2) show ?thesis by (metis rtranclp_trans)
qed

text \<open>
  C3. The all-reduce drivers never get stuck without the option -e: from every reachable state of a
  driver with its clients and wires, the round it is in can be completed.
\<close>

theorem allreduce_round_completes:
  assumes "gs \<noteq> []" and "distinct (concat gs)" and "allreduce_step\<^sup>*\<^sup>* (allreduce_init gs) x"
  shows "\<exists>y. allreduce_step\<^sup>*\<^sup>* x y \<and> ar_round y = Suc (ar_round x)"
  by (rule round_completes [OF assms])

text \<open>Two groups of two sessions.\<close>

lemma two_groups: "[[0, 2], [1, 3]] \<noteq> []" "distinct (concat [[0, 2], [1, 3 :: nat]])"
  by simp_all

theorem allreduce_in_lockstep_witness:
  "answered (ar_link (allreduce_init [[0, 2], [1, 3]]) 2)
    \<le> blocks_done (ar_link (allreduce_init [[0, 2], [1, 3]]) 1) - imms (srv_cq (ar_link (allreduce_init [[0, 2], [1, 3]]) 1))"
  using allreduce_in_lockstep [OF two_groups rtranclp.rtrancl_refl, of 2 1] by simp

theorem allreduce_round_completes_witness:
  "\<exists>y. allreduce_step\<^sup>*\<^sup>* (allreduce_init [[0, 2], [1, 3]]) y \<and> ar_round y = 1"
  using allreduce_round_completes [OF two_groups rtranclp.rtrancl_refl] by (simp add: allreduce_init_def)

text \<open>
  What the server does to a session while it serves all of them refines the loop for that session
  alone: each session of a run of a driver goes through a run of the exchange of \<open>Link\<close>, with
  \<open>run_tests_recv_side\<close> on the server's side.
\<close>

theorem driver_refines_exchange:
  assumes "allreduce_step\<^sup>*\<^sup>* (allreduce_init gs) x"
  shows "link_step\<^sup>*\<^sup>* link_init (ar_link x s)"
  using session.runs [OF assms, of s] by (simp add: allreduce_init_def)

end
