(* ===== verification/Bitmap.thy ===== *)
theory Bitmap
  imports Prelude
begin

text \<open>
  \<open>Message\<close> (rdma\_full\_mesh\_benchmark/message.hpp): a set of up to 256 buffer numbers packed
  into four 64-bit words, written with \<open>encode\<close> and read back with \<open>decode\<close> from a base
  position on, in window order.
\<close>

section \<open>Operations\<close>

definition add_bit :: "u64 list \<Rightarrow> nat \<Rightarrow> u32 \<Rightarrow> u64 list result" where
  "add_bit key i pos = bindR (at key i) (\<lambda>k. put key i (k + push_bit (unat pos) 1))"

definition encode :: "u64 list \<Rightarrow> u32 \<Rightarrow> u64 list result" where
  "encode key b =
     (if b < 64 then add_bit key 0 b
      else if 64 \<le> b \<and> b < 128 then add_bit key 1 (b - 64)
      else if 128 \<le> b \<and> b < 192 then add_bit key 2 (b - 128)
      else if 192 \<le> b \<and> b < 256 then add_bit key 3 (b - 192)
      else Inl (Exit 0))"

definition test_bit_at :: "u64 list \<Rightarrow> nat \<Rightarrow> u32 \<Rightarrow> bool result" where
  "test_bit_at key i pos = bindR (at key i) (\<lambda>k. Inr (and k (push_bit (unat pos) 1) \<noteq> 0))"

definition processed :: "u64 list \<Rightarrow> u32 \<Rightarrow> bool result" where
  "processed key start =
     (if start < 64 then test_bit_at key 0 start
      else if 64 \<le> start \<and> start < 128 then test_bit_at key 1 (start - 64)
      else if 128 \<le> start \<and> start < 192 then test_bit_at key 2 (start - 128)
      else if 192 \<le> start \<and> start < 256 then test_bit_at key 3 (start - 192)
      else Inl (Exit 0))"

text \<open>The values \<open>decode\<close> stores through its pointer, in order.\<close>

fun decode_loop :: "u64 list \<Rightarrow> u32 \<Rightarrow> nat \<Rightarrow> u32 list result" where
  "decode_loop key start 0 = Inr []"
| "decode_loop key start (Suc num) =
     bindR (processed key start) (\<lambda>hit.
     bindR (decode_loop key ((start + 1) mod 256) num) (\<lambda>ids.
       Inr (if hit then start # ids else ids)))"

definition decode :: "u64 list \<Rightarrow> u32 \<Rightarrow> int \<Rightarrow> u32 list result" where
  "decode key base_pos num = decode_loop key (base_pos mod 256) (nat num)"

fun encode_all :: "u64 list \<Rightarrow> u32 list \<Rightarrow> u64 list result" where
  "encode_all key [] = Inr key"
| "encode_all key (b # ids) = bindR (encode key b) (\<lambda>key'. encode_all key' ids)"

text \<open>One pass of the loop of \<open>test\<close>: what is encoded and what is decoded.\<close>

definition test_pass :: "nat \<Rightarrow> nat \<Rightarrow> (u32 list \<times> u32 list) result" where
  "test_pass start_pos num =
     (let encode_data = map (\<lambda>index. word_of_nat ((start_pos + index) mod 256)) [0..<256];
          sent = take num encode_data in
      bindR (encode_all [0, 0, 0, 0] sent) (\<lambda>key.
      bindR (decode key (encode_data ! 0) (int num)) (\<lambda>decode_data. Inr (sent, decode_data))))"

section \<open>The set a key stands for\<close>

definition in_key :: "u64 list \<Rightarrow> nat \<Rightarrow> bool" where
  "in_key key n \<longleftrightarrow> bit (key ! (n div 64)) (n mod 64)"

lemma and_exp_bit: "n < 64 \<Longrightarrow> and k (2 ^ n) = (0 :: u64) \<longleftrightarrow> \<not> bit k n"
  by (simp add: and_exp_eq_0_iff_not_bit)

lemma add_push_bit_1:
  assumes "n < 64" and "\<not> bit k n"
  shows "bit (k + push_bit n 1 :: u64) m \<longleftrightarrow> bit k m \<or> m = n"
proof -
  have "k + push_bit n 1 = or k (push_bit n 1)"
    using assms(2) by (intro disjunctive_add) (auto simp: bit_simps)
  then show ?thesis using assms(1) by (auto simp: bit_simps)
qed

lemma u32_offset:
  fixes b :: u32
  shows "64 \<le> b \<Longrightarrow> unat (b - 64) = unat b - 64" "128 \<le> b \<Longrightarrow> unat (b - 128) = unat b - 128"
    "192 \<le> b \<Longrightarrow> unat (b - 192) = unat b - 192"
  by (simp_all add: unat_sub)

lemma block_at: "64 * w \<le> n \<Longrightarrow> n < 64 * w + 64 \<Longrightarrow> n div 64 = w \<and> n mod 64 = n - 64 * w" for n :: nat
proof -
  assume "64 * w \<le> n" and "n < 64 * w + 64"
  then obtain m where "n = m + 64 * w" "m < 64" by (metis add.commute add_less_cancel_left le_Suc_ex)
  then show ?thesis by simp
qed

lemma block_cases:
  fixes n :: nat
  shows "n < 64 \<Longrightarrow> n div 64 = 0 \<and> n mod 64 = n"
    "64 \<le> n \<Longrightarrow> n < 128 \<Longrightarrow> n div 64 = 1 \<and> n mod 64 = n - 64"
    "128 \<le> n \<Longrightarrow> n < 192 \<Longrightarrow> n div 64 = 2 \<and> n mod 64 = n - 128"
    "192 \<le> n \<Longrightarrow> n < 256 \<Longrightarrow> n div 64 = 3 \<and> n mod 64 = n - 192"
  using block_at [of 0 n] block_at [of 1 n] block_at [of 2 n] block_at [of 3 n] by simp_all

lemma encode_eq:
  assumes "length key = 4"
  shows "encode key b = (if unat b < 256
      then Inr (key[unat b div 64 := key ! (unat b div 64) + push_bit (unat b mod 64) 1]) else Inl (Exit 0))"
proof -
  consider "unat b < 64" | "64 \<le> unat b" "unat b < 128" | "128 \<le> unat b" "unat b < 192"
    | "192 \<le> unat b" "unat b < 256" | "256 \<le> unat b"
    by linarith
  then show ?thesis
  proof cases
    case 1
    with block_cases(1) [OF 1] assms show ?thesis by (simp add: encode_def add_bit_def word_less_nat_alt)
  next
    case 2
    with block_cases(2) [OF 2] u32_offset(1) [of b] assms show ?thesis
      by (simp add: encode_def add_bit_def word_less_nat_alt word_le_nat_alt)
  next
    case 3
    with block_cases(3) [OF 3] u32_offset(2) [of b] assms show ?thesis
      by (simp add: encode_def add_bit_def word_less_nat_alt word_le_nat_alt)
  next
    case 4
    with block_cases(4) [OF 4] u32_offset(3) [of b] assms show ?thesis
      by (simp add: encode_def add_bit_def word_less_nat_alt word_le_nat_alt)
  next
    case 5
    then show ?thesis by (simp add: encode_def word_less_nat_alt word_le_nat_alt)
  qed
qed

lemma processed_eq:
  assumes "length key = 4"
  shows "processed key b = (if unat b < 256 then Inr (in_key key (unat b)) else Inl (Exit 0))"
  using block_cases [of "unat b"] u32_offset [of b] assms
  by (auto simp: processed_def test_bit_at_def in_key_def and_exp_bit word_less_nat_alt word_le_nat_alt)

lemma in_key_encode:
  assumes "length key = 4" and "unat b < 256" and "\<not> in_key key (unat b)"
  obtains key' where "encode key b = Inr key'" "length key' = 4"
    "\<And>n. n < 256 \<Longrightarrow> in_key key' n \<longleftrightarrow> in_key key n \<or> n = unat b"
proof
  let ?w = "unat b div 64" let ?k = "key[?w := key ! ?w + push_bit (unat b mod 64) 1]"
  show "encode key b = Inr ?k" "length ?k = 4" using assms by (simp_all add: encode_eq)
  show "in_key ?k n \<longleftrightarrow> in_key key n \<or> n = unat b" if "n < 256" for n
  proof (cases "n div 64 = ?w")
    case True
    moreover have "n = unat b \<longleftrightarrow> n mod 64 = unat b mod 64" using True by (metis mod_mult_div_eq)
    ultimately show ?thesis
      using assms add_push_bit_1 [of "unat b mod 64" "key ! ?w" "n mod 64"] by (simp add: in_key_def)
  next
    case False
    then show ?thesis by (auto simp: in_key_def)
  qed
qed

lemma encode_all_set:
  "length key = 4 \<Longrightarrow> distinct bs \<Longrightarrow> \<forall>b \<in> set bs. unat b < 256 \<and> \<not> in_key key (unat b) \<Longrightarrow>
   \<exists>key'. encode_all key bs = Inr key' \<and> length key' = 4
     \<and> (\<forall>n < 256. in_key key' n \<longleftrightarrow> in_key key n \<or> n \<in> unat ` set bs)"
proof (induction bs arbitrary: key)
  case (Cons b bs)
  obtain key1 where key1: "encode key b = Inr key1" "length key1 = 4"
    "\<And>n. n < 256 \<Longrightarrow> in_key key1 n \<longleftrightarrow> in_key key n \<or> n = unat b"
    using in_key_encode [of key b] Cons.prems by auto
  have "\<forall>c \<in> set bs. unat c < 256 \<and> \<not> in_key key1 (unat c)"
    using Cons.prems key1(3) by (auto simp flip: word_unat_eq_iff)
  then obtain key2 where "encode_all key1 bs = Inr key2" "length key2 = 4"
    "\<forall>n < 256. in_key key2 n \<longleftrightarrow> in_key key1 n \<or> n \<in> unat ` set bs"
    using Cons.IH [of key1] Cons.prems key1(2) by auto
  then show ?case using key1 by auto
qed simp

text \<open>The positions \<open>decode\<close> visits.\<close>

definition window :: "u32 \<Rightarrow> nat \<Rightarrow> u32 list" where
  "window base n = map (\<lambda>k. word_of_nat ((unat base + k) mod 256)) [0..<n]"

lemma unat_mod_256: "unat (b mod 256 :: u32) = unat b mod 256"
  by (simp add: unat_mod)

lemma unat_next: "unat b < 256 \<Longrightarrow> unat ((b + 1) mod 256 :: u32) = Suc (unat b) mod 256"
proof -
  assume "unat b < 256"
  then have "unat (b + 1) = Suc (unat b)" by (simp add: unat_word_ariths)
  then show ?thesis by (simp add: unat_mod)
qed

lemma decode_loop_eq:
  assumes "length key = 4"
  shows "unat b < 256 \<Longrightarrow> decode_loop key b n = Inr (filter (\<lambda>c. in_key key (unat c)) (window b n))"
proof (induction n arbitrary: b)
  case 0
  then show ?case by (simp add: window_def)
next
  case (Suc n)
  let ?c = "(b + 1) mod 256"
  have c: "unat ?c = Suc (unat b) mod 256" using Suc.prems by (rule unat_next)
  have "window b (Suc n) = b # window ?c n"
    using Suc.prems unfolding window_def map_upt_Suc_hd c
    by (simp add: mod_simps)
  then show ?case using Suc.prems Suc.IH [of ?c] c assms by (simp add: processed_eq)
qed

lemma distinct_window: "n \<le> 256 \<Longrightarrow> distinct (window base n)"
  unfolding window_def distinct_map
proof (intro conjI inj_onI)
  fix i j assume "n \<le> 256" "i \<in> set [0..<n]" "j \<in> set [0..<n]"
    and "word_of_nat ((unat base + i) mod 256) = (word_of_nat ((unat base + j) mod 256) :: u32)"
  then have "(unat base + i) mod 256 = (unat base + j) mod 256" "i < 256" "j < 256"
    by (auto simp: word_unat_eq_iff unsigned_of_nat take_bit_nat_eq_self)
  then show "i = j" by (metis add_mod_inj)
qed simp

lemma bitmap_decodes:
  assumes "distinct bs" and "\<forall>b \<in> set bs. unat b < 256"
  shows "\<exists>key. encode_all [0, 0, 0, 0] bs = Inr key
    \<and> decode key base num = Inr (filter (\<lambda>c. c \<in> set bs) (window (base mod 256) (nat num)))"
proof -
  have empty: "\<not> in_key [0, 0, 0, 0] n" if "n < 256" for n
  proof -
    have "n div 64 = 0 \<or> n div 64 = 1 \<or> n div 64 = 2 \<or> n div 64 = 3" using that by linarith
    then have "[0, 0, 0, 0] ! (n div 64) = (0 :: u64)" by auto
    then show ?thesis by (simp add: in_key_def)
  qed
  then obtain key where key: "encode_all [0, 0, 0, 0] bs = Inr key" "length key = 4"
    "\<forall>n < 256. in_key key n \<longleftrightarrow> n \<in> unat ` set bs"
    using encode_all_set [of "[0, 0, 0, 0]" bs] assms by auto
  have "unat c < 256" if "c \<in> set (window b n)" for b c n
    using that by (auto simp: window_def unsigned_of_nat take_bit_nat_eq_self)
  then have "filter (\<lambda>c. in_key key (unat c)) (window b n) = filter (\<lambda>c. c \<in> set bs) (window b n)" for b n
    using key(3) by (intro filter_cong) (auto simp: image_iff simp flip: word_unat_eq_iff)
  then show ?thesis
    using key(1,2) decode_loop_eq [of key "base mod 256" "nat num"]
    by (simp add: decode_def unat_mod_256)
qed

text \<open>
  C34. \<open>decode\<close> inverts \<open>encode\<close>: distinct numbers below 256, encoded in any order into an
  empty key, are decoded from any base position as exactly those of them that lie in the next
  \<open>num\<close> positions, in window order.
\<close>

theorem bitmap_roundtrip:
  assumes "distinct bs" and "\<forall>b \<in> set bs. unat b < 256"
  shows "\<exists>key. encode_all [0, 0, 0, 0] bs = Inr key
    \<and> decode key base num = Inr (filter (\<lambda>c. c \<in> set bs) (window (base mod 256) (nat num)))"
  using bitmap_decodes [OF assms] .

theorem bitmap_roundtrip_witness:
  "\<exists>key. encode_all [0, 0, 0, 0] [3, 254, 64] = Inr key \<and> decode key 510 6 = Inr [254, 3]"
  using bitmap_roundtrip [of "[3, 254, 64]" 510 6] by (simp add: window_def upt_rec)

lemma test_pass_matches:
  assumes "num \<le> 256" and "start < 256"
  shows "\<exists>sent. test_pass start num = Inr (sent, sent) \<and> length sent = num"
proof -
  let ?b = "word_of_nat start :: u32"
  have b: "unat ?b = start" using assms(2) by (simp add: unsigned_of_nat take_bit_nat_eq_self)
  have sent: "take num (map (\<lambda>index. word_of_nat ((start + index) mod 256)) [0..<256]) = window ?b num"
    using assms(1) by (simp add: window_def b take_map take_upt)
  have "map (\<lambda>index. word_of_nat ((start + index) mod 256)) [0..<256] ! 0 = ?b"
    using assms(2) by (subst nth_map) (simp_all del: upt_Suc)
  moreover have "?b mod 256 = ?b" using b assms(2) by (simp add: word_unat_eq_iff unat_mod_256)
  moreover have "unat c < 256" if "c \<in> set (window ?b num)" for c
    using that by (auto simp: window_def unsigned_of_nat take_bit_nat_eq_self)
  moreover have "filter (\<lambda>c. c \<in> set xs) xs = xs" for xs :: "u32 list" by (simp add: filter_id_conv)
  ultimately show ?thesis
    using bitmap_decodes [of "window ?b num" ?b "int num"] distinct_window [OF assms(1)] sent
    by (auto simp: test_pass_def Let_def simp del: upt_Suc) (simp add: window_def)
qed

end
