(* ===== verification/BenchBase.thy ===== *)
theory BenchBase
  imports Verbs BlockingQueue
begin

text \<open>
  The full mesh benchmark (rdma\_full\_mesh\_benchmark): constants, messages and the context of a
  connection (RDMABase.h), the verbs objects \<open>RDMABase\<close> builds for it (RDMABase.cpp), the layout
  of the registered buffer and of the immediate data. A buffer is \<open>WINDOWS_NUM\<close> windows of
  \<open>MAX_DATA_IN_FLIGHT\<close> chunks of \<open>BUFFER_SIZE\<close> bytes.
\<close>

section \<open>Messages and contexts\<close>

definition BUFFER_SIZE :: nat where "BUFFER_SIZE = 16 * 1 * 1024"
definition WINDOWS_NUM :: nat where "WINDOWS_NUM = 256"
definition MAX_DATA_IN_FLIGHT :: nat where "MAX_DATA_IN_FLIGHT = 128"
definition BATCH_MSG :: nat where "BATCH_MSG = 48"
definition MSG_NUM_OFFEST :: nat where "MSG_NUM_OFFEST = BATCH_MSG + 1"
definition WINDOW_ID_OFFEST :: nat where "WINDOW_ID_OFFEST = BATCH_MSG"

lemmas bench_sizes = BUFFER_SIZE_def WINDOWS_NUM_def MAX_DATA_IN_FLIGHT_def BATCH_MSG_def
  MSG_NUM_OFFEST_def WINDOW_ID_OFFEST_def

text \<open>\<open>register_buf_size\<close>, the size of both ends' buffers.\<close>

definition register_buf_size :: nat where
  "register_buf_size = WINDOWS_NUM * BUFFER_SIZE * MAX_DATA_IN_FLIGHT"

datatype message_id = MSG_INVALID | MSG_MR | MSG_READY | MSG_DONE

text \<open>The union \<open>data\<close> is its bytes: an address and a key overlay the first twelve of
  \<open>batch_index\<close>.\<close>

record message =
  m_id :: message_id
  batch_index :: "u8 list"

definition message_zero :: message where
  "message_zero = \<lparr>m_id = MSG_INVALID, batch_index = replicate (BATCH_MSG + 2) 0\<rparr>"

definition mr_addr :: "message \<Rightarrow> u64" where
  "mr_addr m = word_of_nat (nat_of_le (take 8 (batch_index m)))"

definition mr_rkey :: "message \<Rightarrow> u32" where
  "mr_rkey m = word_of_nat (nat_of_le (take 4 (drop 8 (batch_index m))))"

definition set_mr :: "u64 \<Rightarrow> u32 \<Rightarrow> message \<Rightarrow> message" where
  "set_mr a k m = m\<lparr>batch_index := le_bytes 8 (unat a) @ le_bytes 4 (unat k) @ drop 12 (batch_index m)\<rparr>"

text \<open>The context of a connection. \<open>c_buffer\<close> are the contents of the registered buffer;
  \<open>c_sent\<close> records, for every posted message, what its memory held, and \<open>c_perf\<close> what the
  connection has added to the process-wide \<open>perf_data\<close>.\<close>

record 'd bctx =
  c_verbs :: nat
  c_pd :: nat
  c_cq :: nat
  c_comp_channel :: nat
  c_qp :: nat
  c_buffer :: "nat \<Rightarrow> u8"
  c_buffer_addr :: u64
  c_buffer_mr :: nat
  c_buffer_lkey :: u32
  c_buffer_rkey :: u32
  c_msg :: "message list"
  c_msg_addr :: u64
  c_msg_mr :: nat
  c_msg_lkey :: u32
  c_peer_addr :: u64
  c_peer_rkey :: u32
  c_recv_bytes :: u64
  c_perf :: u64
  c_connection_id :: "u8 list"
  c_window_id :: u32
  c_q1 :: "int bqueue"
  c_q2 :: "int bqueue"
  c_sent :: "message list"
  c_dev :: 'd

definition buf_get :: "'d bctx \<Rightarrow> nat \<Rightarrow> u8 result" where
  "buf_get c i = (if i < register_buf_size then Inr (c_buffer c i) else Inl OutOfBounds)"

definition buf_put :: "nat \<Rightarrow> u8 \<Rightarrow> 'd bctx \<Rightarrow> 'd bctx result" where
  "buf_put i b c =
     (if i < register_buf_size then Inr (c\<lparr>c_buffer := (c_buffer c)(i := b)\<rparr>) else Inl OutOfBounds)"

definition msg_put :: "nat \<Rightarrow> (message \<Rightarrow> message result) \<Rightarrow> 'd bctx \<Rightarrow> 'd bctx result" where
  "msg_put i f c = bindR (at (c_msg c) i) (\<lambda>m. bindR (f m) (\<lambda>m'. Inr (c\<lparr>c_msg := (c_msg c)[i := m']\<rparr>)))"

text \<open>\<open>rc_die\<close> and the macros \<open>TEST_NZ\<close> and \<open>TEST_Z\<close>, which call it.\<close>

definition rc_die :: "'a result" where
  "rc_die = Inl (Exit (- 1))"

definition test_nz :: "int \<times> 'd \<Rightarrow> ('d \<Rightarrow> 'a result) \<Rightarrow> 'a result" where
  "test_nz r k = (if fst r \<noteq> 0 then rc_die else k (snd r))"

definition test_z :: "nat \<times> 'd \<Rightarrow> (nat \<Rightarrow> 'd \<Rightarrow> 'a result) \<Rightarrow> 'a result" where
  "test_z r k = (if fst r = 0 then rc_die else k (fst r) (snd r))"

section \<open>\<open>RDMABase\<close>\<close>

text \<open>A connection manager id: its device, its context (0 is none, else the slot of the context
  in the process) and its queue pair.\<close>

record 'd cm_id =
  id_verbs :: nat
  id_context :: "'d bctx option"
  id_qp :: nat

record conn_param =
  initiator_depth :: nat
  responder_resources :: nat
  rnr_retry_count :: nat
  retry_count :: nat

definition build_params :: conn_param where
  "build_params = \<lparr>initiator_depth = 1, responder_resources = 1, rnr_retry_count = 7, retry_count = 7\<rparr>"

definition rc_get_pd :: "'d cm_id \<Rightarrow> nat" where
  "rc_get_pd i = (case id_context i of None \<Rightarrow> 0 | Some c \<Rightarrow> c_pd c)"

text \<open>A context comes from \<open>malloc\<close>, which runs no constructor: \<open>mem\<close> is what the fresh
  memory happens to hold in the fields that are not set here.\<close>

definition new_context :: "'d verbs \<Rightarrow> 'd bctx \<Rightarrow> nat \<Rightarrow> 'd \<Rightarrow> 'd bctx result" where
  "new_context V mem verbs d =
     test_z (ibv_alloc_pd V d verbs) (\<lambda>pd d1.
     test_z (ibv_create_comp_channel V d1 verbs) (\<lambda>ch d2.
     test_z (ibv_create_cq V d2 verbs (int (MAX_DATA_IN_FLIGHT * 4 + 10)) ch) (\<lambda>cq d3.
     test_nz (ibv_req_notify_cq V d3 cq) (\<lambda>d4.
       Inr (mem\<lparr>c_verbs := verbs, c_pd := pd, c_comp_channel := ch, c_cq := cq, c_dev := d4\<rparr>)))))"

definition build_context :: "'d verbs \<Rightarrow> 'd bctx \<Rightarrow> 'd \<Rightarrow> 'd cm_id \<Rightarrow> 'd cm_id result" where
  "build_context V mem d i =
     (case id_context i of
        Some c \<Rightarrow> if c_verbs c \<noteq> id_verbs i then rc_die else Inr i
      | None \<Rightarrow> bindR (new_context V mem (id_verbs i) d) (\<lambda>c. Inr (i\<lparr>id_context := Some c\<rparr>)))"

definition get_or_build_ctx :: "'d verbs \<Rightarrow> 'd bctx \<Rightarrow> 'd \<Rightarrow> 'd cm_id \<Rightarrow> ('d bctx \<times> 'd cm_id) result" where
  "get_or_build_ctx V mem d i =
     (case id_context i of
        Some c \<Rightarrow> if c_verbs c \<noteq> id_verbs i then rc_die else Inr (c, i)
      | None \<Rightarrow> bindR (new_context V mem (id_verbs i) d) (\<lambda>c. Inr (c, i\<lparr>id_context := Some c\<rparr>)))"

record qp_init_attr =
  qi_cq :: nat
  qi_sig_all :: bool
  qi_max_send_wr :: nat
  qi_max_recv_wr :: nat

definition build_qp_attr :: "'d cm_id \<Rightarrow> qp_init_attr result" where
  "build_qp_attr i =
     (case id_context i of
        None \<Rightarrow> Inl (Exit (- 1))
      | Some c \<Rightarrow> Inr \<lparr>qi_cq = c_cq c, qi_sig_all = True,
          qi_max_send_wr = MAX_DATA_IN_FLIGHT * 2 + 10 + 1,
          qi_max_recv_wr = MAX_DATA_IN_FLIGHT * 2 + 10 + 1\<rparr>)"

definition build_connection :: "'d verbs \<Rightarrow> 'd bctx \<Rightarrow> 'd \<Rightarrow> 'd cm_id \<Rightarrow> 'd cm_id result" where
  "build_connection V mem d i =
     bindR (build_context V mem d i) (\<lambda>i1.
     bindR (build_qp_attr i1) (\<lambda>qp_attr.
       case id_context i1 of
         None \<Rightarrow> Inl OutOfBounds
       | Some c \<Rightarrow>
           let (qp, qpn, d') = ibv_create_qp V (c_dev c) (c_pd c) (qi_cq qp_attr) (qi_sig_all qp_attr) in
           if qp = 0 then rc_die
           else Inr (i1\<lparr>id_qp := qp, id_context := Some (c\<lparr>c_qp := qp, c_dev := d'\<rparr>)\<rparr>)))"

text \<open>The counter of received bytes behind the total rate; a reading resets it.\<close>

definition add_performance :: "u64 \<Rightarrow> u64 \<Rightarrow> u64" where
  "add_performance data_num perf_data = perf_data + data_num"

definition show_performance :: "u64 \<Rightarrow> u64 \<times> u64" where
  "show_performance perf_data = (perf_data, 0)"

section \<open>Chunks and immediate data\<close>

text \<open>The offset of a chunk in the buffer, in the 32-bit arithmetic of the code.\<close>

definition chunk_offset :: "u32 \<Rightarrow> u32 \<Rightarrow> u32" where
  "chunk_offset buffer_id window_id =
     buffer_id * word_of_nat BUFFER_SIZE
     + window_id * word_of_nat BUFFER_SIZE * word_of_nat MAX_DATA_IN_FLIGHT"

definition pack_imm :: "u32 \<Rightarrow> u32 \<Rightarrow> u32 \<Rightarrow> u32" where
  "pack_imm buffer_id window_id len =
     and (push_bit 24 buffer_id) 0xFF000000 + len + and (push_bit 16 window_id) 0x00FF0000"

text \<open>\<open>imm_data\<close> is in network byte order; the result is buffer id, window id and size.\<close>

definition parse_from_imm_data :: "u32 \<Rightarrow> u32 \<times> u32 \<times> u32" where
  "parse_from_imm_data imm_data =
     (let imm = htonl imm_data in
      (and (drop_bit 24 imm) 0xFF, and (drop_bit 16 imm) 0xFF, and imm 0xFFFF))"

lemma unat_u32 [simp]: "n < 2 ^ 32 \<Longrightarrow> unat (word_of_nat n :: u32) = n"
  by (simp add: unsigned_of_nat take_bit_nat_eq_self)

lemma unat_chunk_offset:
  assumes "unat b < MAX_DATA_IN_FLIGHT" and "unat w < WINDOWS_NUM"
  shows "unat (chunk_offset b w) = (unat w * MAX_DATA_IN_FLIGHT + unat b) * BUFFER_SIZE" (is ?offset)
    and "unat (chunk_offset b w) + BUFFER_SIZE \<le> register_buf_size"
proof -
  let ?n = "unat b * 16384 + unat w * 16384 * 128"
  have "chunk_offset b w = word_of_nat ?n" by (simp add: chunk_offset_def bench_sizes)
  moreover have "?n < 2 ^ 32" using assms by (simp add: bench_sizes)
  ultimately have "unat (chunk_offset b w) = ?n" by (simp only: unat_u32)
  then show ?offset by (simp add: bench_sizes algebra_simps)
  then show "unat (chunk_offset b w) + BUFFER_SIZE \<le> register_buf_size"
    using assms by (simp add: bench_sizes register_buf_size_def)
qed

lemma take_bit_byte: "unat b < 256 \<Longrightarrow> and b 0xFF = (b :: u32)"
proof -
  assume "unat b < 256"
  then have "take_bit 8 (unat b) = unat b" by (simp add: take_bit_nat_eq_self)
  then have "take_bit 8 b = b" by (simp add: word_unat_eq_iff unsigned_take_bit_eq)
  moreover have "(0xFF :: u32) = mask 8" by (simp add: mask_eq_exp_minus_1)
  ultimately show ?thesis by (simp add: take_bit_eq_mask)
qed

lemma pack_imm_sum:
  assumes "unat b < 256" and "unat w < 256" and "unat len < 65536"
  shows "unat (pack_imm b w len) = unat b * 2 ^ 24 + unat w * 2 ^ 16 + unat len"
proof -
  have "and (push_bit 24 b) (push_bit 24 0xFF) = push_bit 24 b"
    "and (push_bit 16 w) (push_bit 16 0xFF) = push_bit 16 w"
    using take_bit_byte [OF assms(1)] take_bit_byte [OF assms(2)] by (metis push_bit_and)+
  then have "pack_imm b w len = b * 2 ^ 24 + len + w * 2 ^ 16"
    by (simp add: pack_imm_def push_bit_eq_mult)
  also have "\<dots> = word_of_nat (unat b * 2 ^ 24 + unat w * 2 ^ 16 + unat len)" by simp
  finally show ?thesis using assms by (simp only:) (rule unat_u32, simp)
qed

lemma packed_fields:
  fixes b w l n :: nat
  assumes "b < 256" and "w < 256" and "l < 65536" and "n = b * 2 ^ 24 + w * 2 ^ 16 + l"
  shows "n div 2 ^ 24 mod 2 ^ 8 = b" "n div 2 ^ 16 mod 2 ^ 8 = w" "n mod 2 ^ 16 = l"
proof -
  have n: "n = l + (w + b * 2 ^ 8) * 2 ^ 16" using assms(4) by simp
  have div: "n div 2 ^ 16 = w + b * 2 ^ 8" unfolding n using assms(3) by simp
  then show "n div 2 ^ 16 mod 2 ^ 8 = w" using assms(2) by simp
  have "n div 2 ^ 24 = n div 2 ^ 16 div 2 ^ 8" by (simp add: div_mult2_eq [symmetric])
  then show "n div 2 ^ 24 mod 2 ^ 8 = b" using div assms(1,2) by simp
  show "n mod 2 ^ 16 = l" unfolding n mod_mult_self1 using assms(3) by simp
qed

lemma parse_imm_nat:
  assumes "unat b < 256" and "unat w < 256" and "unat len < 65536"
    and "unat imm = unat b * 2 ^ 24 + unat w * 2 ^ 16 + unat len"
  shows "(and (drop_bit 24 imm) 0xFF, and (drop_bit 16 imm) 0xFF, and imm 0xFFFF) = (b, w, len :: u32)"
proof -
  have masks: "(0xFF :: u32) = mask 8" "(0xFFFF :: u32) = mask 16" by (simp_all add: mask_eq_exp_minus_1)
  have "unat imm div 2 ^ 24 mod 2 ^ 8 = unat b" "unat imm div 2 ^ 16 mod 2 ^ 8 = unat w"
    "unat imm mod 2 ^ 16 = unat len"
    using packed_fields [OF assms] .
  then show ?thesis
    by (simp only: masks take_bit_eq_mask [symmetric] word_unat_eq_iff unsigned_take_bit_eq
        unsigned_drop_bit_eq prod.inject take_bit_eq_mod drop_bit_eq_div) (simp add: unat_div_distrib unat_mod_distrib)
qed

text \<open>
  The immediate data of a chunk survives the wire: what the client packs from a buffer id, a
  window id and a size, and sends in network byte order, the server parses back to the same three.
\<close>

theorem imm_roundtrip:
  assumes "unat buffer_id < MAX_DATA_IN_FLIGHT" and "unat window_id < WINDOWS_NUM"
    and "unat len \<le> BUFFER_SIZE"
  shows "parse_from_imm_data (htonl (pack_imm buffer_id window_id len)) = (buffer_id, window_id, len)"
  using parse_imm_nat [OF _ _ _ pack_imm_sum, of buffer_id window_id len] assms
  by (simp add: parse_from_imm_data_def bench_sizes)

theorem imm_roundtrip_witness:
  "parse_from_imm_data (htonl (pack_imm 127 255 16384)) = (127, 255, 16384)"
  by (rule imm_roundtrip) (simp_all add: bench_sizes)

end
