(* ===== verification/BenchClient.thy ===== *)
theory BenchClient
  imports BenchBase
begin

text \<open>
  The sender of the full mesh benchmark (rdma\_full\_mesh\_benchmark/RDMAClient.cpp): the work
  requests it posts, its completion handlers and its connection manager loop. The handler of
  the busy-polling loop (\<open>client_wc\<close>) is the one that runs; \<open>client_on_completion\<close>, of the
  event loop after it, speaks the chunk protocol of \<open>BenchServer\<close>.
\<close>

section \<open>Posting\<close>

record bwc = wc +
  bw_id :: u64

definition no_sge :: sge where
  "no_sge = \<lparr>sge_addr = 0, sge_length = 0, sge_lkey = 0\<rparr>"

text \<open>\<open>sizeof(struct message)\<close>: an \<open>int\<close>, padding, and a union of 50 bytes aligned to 8.\<close>

definition sizeof_message :: nat where "sizeof_message = 64"

definition msg_sge :: "'d bctx \<Rightarrow> u32 \<Rightarrow> sge" where
  "msg_sge c i = \<lparr>sge_addr = c_msg_addr c + ucast i * word_of_nat sizeof_message,
     sge_length = word_of_nat sizeof_message, sge_lkey = c_msg_lkey c\<rparr>"

definition bench_post_send :: "'d verbs \<Rightarrow> send_wr \<Rightarrow> 'd bctx \<Rightarrow> 'd bctx result" where
  "bench_post_send V wr c = test_nz (ibv_post_send V (c_dev c) (c_qp c) wr) (\<lambda>d. Inr (c\<lparr>c_dev := d\<rparr>))"

definition client_post_receive :: "'d verbs \<Rightarrow> u32 \<Rightarrow> 'd bctx \<Rightarrow> 'd bctx result" where
  "client_post_receive V msg_id c =
     test_nz (ibv_post_recv V (c_dev c) (c_qp c) \<lparr>rw_id = ucast msg_id, rw_sge = msg_sge c msg_id\<rparr>)
       (\<lambda>d. Inr (c\<lparr>c_dev := d\<rparr>))"

definition large_block_wr :: "'d bctx \<Rightarrow> u32 \<Rightarrow> send_wr" where
  "large_block_wr c len =
     \<lparr>sw_id = 12345,
      sw_sge = (if len \<noteq> 0 then \<lparr>sge_addr = c_buffer_addr c, sge_length = len, sge_lkey = c_buffer_lkey c\<rparr>
                else no_sge),
      sw_opcode = IBV_WR_RDMA_WRITE_WITH_IMM, sw_signaled = True, sw_inline = False, sw_imm = len,
      sw_remote_addr = c_peer_addr c, sw_rkey = c_peer_rkey c\<rparr>"

definition write_large_block :: "'d verbs \<Rightarrow> u32 \<Rightarrow> 'd bctx \<Rightarrow> 'd bctx result" where
  "write_large_block V len c =
     (if unat len \<ge> register_buf_size then Inl LogFatal else bench_post_send V (large_block_wr c len) c)"

text \<open>The offset is kept in an \<open>int\<close> and sign-extended when it is added to an address.\<close>

definition chunk_wr :: "'d bctx \<Rightarrow> u32 \<Rightarrow> u32 \<Rightarrow> u32 \<Rightarrow> send_wr" where
  "chunk_wr c buffer_id window_id len =
     (let base_addr = scast (chunk_offset buffer_id window_id) in
      \<lparr>sw_id = 12345,
       sw_sge = (if len \<noteq> 0 then \<lparr>sge_addr = c_buffer_addr c + base_addr, sge_length = len,
                                    sge_lkey = c_buffer_lkey c\<rparr>
                 else no_sge),
       sw_opcode = IBV_WR_RDMA_WRITE_WITH_IMM, sw_signaled = True, sw_inline = False,
       sw_imm = htonl (pack_imm buffer_id window_id len),
       sw_remote_addr = c_peer_addr c + base_addr, sw_rkey = c_peer_rkey c\<rparr>)"

definition write_remote :: "'d verbs \<Rightarrow> u32 \<Rightarrow> u32 \<Rightarrow> u32 \<Rightarrow> 'd bctx \<Rightarrow> 'd bctx result" where
  "write_remote V buffer_id window_id len c = bench_post_send V (chunk_wr c buffer_id window_id len) c"

definition send_next_chunk :: "'d verbs \<Rightarrow> u32 \<Rightarrow> u32 \<Rightarrow> 'd bctx \<Rightarrow> 'd bctx result" where
  "send_next_chunk V buffer_id window_id c =
     write_remote V buffer_id window_id (word_of_nat BUFFER_SIZE) c"

fun buf_write :: "nat \<Rightarrow> u8 list \<Rightarrow> 'd bctx \<Rightarrow> 'd bctx result" where
  "buf_write i [] c = Inr c"
| "buf_write i (b # bs) c = bindR (buf_put i b c) (buf_write (Suc i) bs)"

text \<open>\<open>sprintf(buffer, "0%s0", ip)\<close> ends with a terminator; then both zeros become 0 bytes.\<close>

definition send_file_name :: "'d verbs \<Rightarrow> string \<Rightarrow> 'd bctx \<Rightarrow> 'd bctx result" where
  "send_file_name V client_ip c =
     bindR (buf_write 0 (of_char CHR ''0'' # map of_char client_ip @ [of_char CHR ''0'', 0]) c) (\<lambda>c1.
     bindR (buf_put 0 0 c1) (\<lambda>c2.
     bindR (buf_put (length client_ip + 1) 0 c2) (\<lambda>c3.
     write_large_block V 23 c3)))"

section \<open>Completions\<close>

text \<open>Reading the peer's region from a message.\<close>

definition take_mr :: "u32 \<Rightarrow> 'd bctx \<Rightarrow> 'd bctx result" where
  "take_mr msg_id c = bindR (at (c_msg c) (unat msg_id)) (\<lambda>m.
     Inr (c\<lparr>c_peer_addr := mr_addr m, c_peer_rkey := mr_rkey m\<rparr>))"

definition client_wc :: "'d verbs \<Rightarrow> string \<Rightarrow> bwc \<Rightarrow> 'd bctx \<Rightarrow> 'd bctx result" where
  "client_wc V client_ip wc c =
     (if wc_status wc \<noteq> 0 then rc_die
      else case wc_opcode_of wc of
        IBV_WC_RECV_RDMA_WITH_IMM \<Rightarrow> client_post_receive V 1 c
      | IBV_WC_RECV \<Rightarrow>
          bindR (if wc_imm wc = 666
                 then bindR (take_mr (ucast (bw_id wc)) c) (send_file_name V client_ip)
                 else if wc_imm wc = 888 then write_large_block V (1024 * 1000) c
                 else Inr c)
            (client_post_receive V 1)
      | _ \<Rightarrow> Inr c)"

fun client_wcs :: "'d verbs \<Rightarrow> string \<Rightarrow> bwc list \<Rightarrow> 'd bctx \<Rightarrow> 'd bctx result" where
  "client_wcs V client_ip [] c = Inr c"
| "client_wcs V client_ip (wc # wcs) c = bindR (client_wc V client_ip wc c) (client_wcs V client_ip wcs)"

text \<open>The loop of \<open>poll_cq\<close> over the answers of its polls; a negative count is fatal.\<close>

fun client_polls :: "'d verbs \<Rightarrow> string \<Rightarrow> (int \<times> bwc list) list \<Rightarrow> 'd bctx \<Rightarrow> 'd bctx result" where
  "client_polls V client_ip [] c = Inr c"
| "client_polls V client_ip ((ne, wcs) # polls) c =
     (if ne < 0 then Inl LogFatal
      else bindR (client_wcs V client_ip wcs c) (client_polls V client_ip polls))"

definition bench_wait_event :: "'d verbs \<Rightarrow> 'd bctx \<Rightarrow> 'd bctx result" where
  "bench_wait_event V c =
     (let (rc, cq, d) = ibv_get_cq_event V (c_dev c) (c_comp_channel c) in
      if rc \<noteq> 0 then rc_die
      else test_nz (ibv_req_notify_cq V d cq) (\<lambda>d'. Inr (c\<lparr>c_dev := d'\<rparr>)))"

definition client_poll_cq :: "'d verbs \<Rightarrow> string \<Rightarrow> (int \<times> bwc list) list \<Rightarrow> 'd bctx \<Rightarrow> 'd bctx result" where
  "client_poll_cq V client_ip polls c = bindR (bench_wait_event V c) (client_polls V client_ip polls)"

text \<open>The chunk protocol: a chunk is marked with its number in its first and last byte.\<close>

definition mark_chunk :: "u32 \<Rightarrow> u32 \<Rightarrow> 'd bctx \<Rightarrow> 'd bctx result" where
  "mark_chunk buffer_id window_id c =
     (let base_addr = unat (chunk_offset buffer_id window_id) in
      bindR (buf_put base_addr (ucast buffer_id) c)
        (buf_put (base_addr + BUFFER_SIZE - 1) (ucast buffer_id)))"

fun first_chunks :: "'d verbs \<Rightarrow> u32 \<Rightarrow> nat list \<Rightarrow> 'd bctx \<Rightarrow> 'd bctx result" where
  "first_chunks V window_id [] c = Inr c"
| "first_chunks V window_id (i # is) c =
     bindR (mark_chunk (word_of_nat i) window_id c) (\<lambda>c1.
     bindR (send_next_chunk V (word_of_nat i) window_id c1) (first_chunks V window_id is))"

fun resend_tokens :: "'d verbs \<Rightarrow> message \<Rightarrow> nat list \<Rightarrow> u32 \<Rightarrow> 'd bctx \<Rightarrow> 'd bctx result" where
  "resend_tokens V m [] window_id c = Inr c"
| "resend_tokens V m (t # ts) window_id c =
     bindR (at (batch_index m) t) (\<lambda>b. let buffer_id = ucast b in
     bindR (mark_chunk buffer_id window_id c) (\<lambda>c1.
     bindR (send_next_chunk V buffer_id window_id c1) (\<lambda>c2.
       if unat buffer_id = MAX_DATA_IN_FLIGHT - 1
       then let w = (c_window_id c2 + 1) mod word_of_nat WINDOWS_NUM in
         resend_tokens V m ts w (c2\<lparr>c_window_id := w\<rparr>)
       else resend_tokens V m ts window_id c2)))"

text \<open>\<open>disconnect\<close> is \<open>rdma_disconnect\<close>. The opcodes with the bit of \<open>IBV_WC_RECV\<close> are
  the two receive completions.\<close>

definition client_on_completion ::
  "'d verbs \<Rightarrow> ('d \<Rightarrow> 'd) \<Rightarrow> string \<Rightarrow> bwc \<Rightarrow> 'd bctx \<Rightarrow> 'd bctx result" where
  "client_on_completion V disconnect client_ip wc c0 =
     (let msg_id = ucast (bw_id wc) :: u32;
          window_id = c_window_id c0 mod word_of_nat WINDOWS_NUM;
          c = c0\<lparr>c_window_id := window_id\<rparr>
      in if wc_opcode_of wc = IBV_WC_RECV \<or> wc_opcode_of wc = IBV_WC_RECV_RDMA_WITH_IMM
         then bindR (at (c_msg c) (unat msg_id)) (\<lambda>m.
           case m_id m of
             MSG_MR \<Rightarrow>
               bindR (take_mr msg_id c) (\<lambda>c1.
               bindR (send_file_name V client_ip c1) (\<lambda>c2.
               bindR (first_chunks V window_id [1..<MAX_DATA_IN_FLIGHT] c2) (client_post_receive V msg_id)))
           | MSG_READY \<Rightarrow>
               bindR (at (batch_index m) MSG_NUM_OFFEST) (\<lambda>num_token.
               bindR (resend_tokens V m [0..<unat num_token] window_id c) (client_post_receive V msg_id))
           | MSG_DONE \<Rightarrow> Inr (c\<lparr>c_dev := disconnect (c_dev c)\<rparr>)
           | MSG_INVALID \<Rightarrow> client_post_receive V msg_id c)
         else Inr c)"

section \<open>Setting up and tearing down\<close>

text \<open>A page-aligned, registered region of memory.\<close>

definition register_region ::
  "'d verbs \<Rightarrow> nat \<Rightarrow> 'd bctx \<Rightarrow> (u64 \<Rightarrow> nat \<Rightarrow> u32 \<Rightarrow> u32 \<Rightarrow> 'd bctx \<Rightarrow> 'd bctx result) \<Rightarrow> 'd bctx result" where
  "register_region V len c k =
     (let (ret, addr, d1) = posix_memalign V (c_dev c) (int len) in
      if ret \<noteq> 0 then Inl (Exit (- 1))
      else let (mr, lkey, rkey, d2) = ibv_reg_mr V d1 (c_pd c) addr (int len) in
        if mr = 0 then rc_die else k addr mr lkey rkey (c\<lparr>c_dev := d2\<rparr>))"

fun client_post_receives :: "'d verbs \<Rightarrow> nat list \<Rightarrow> 'd bctx \<Rightarrow> 'd bctx result" where
  "client_post_receives V [] c = Inr c"
| "client_post_receives V (i # is) c =
     bindR (client_post_receive V (word_of_nat i) c) (client_post_receives V is)"

text \<open>\<open>bytes\<close> and \<open>msgs\<close> are what the allocated memory holds.\<close>

definition client_on_pre_conn ::
  "'d verbs \<Rightarrow> (nat \<Rightarrow> u8) \<Rightarrow> message list \<Rightarrow> 'd bctx \<Rightarrow> 'd bctx result" where
  "client_on_pre_conn V bytes msgs c =
     register_region V register_buf_size c (\<lambda>addr mr lkey rkey c1.
     register_region V (sizeof_message * MAX_DATA_IN_FLIGHT)
       (c1\<lparr>c_buffer := bytes, c_buffer_addr := addr, c_buffer_mr := mr, c_buffer_lkey := lkey,
          c_buffer_rkey := rkey\<rparr>) (\<lambda>addr mr lkey rkey c2.
     client_post_receives V [0..<MAX_DATA_IN_FLIGHT]
       (c2\<lparr>c_msg := take MAX_DATA_IN_FLIGHT msgs, c_msg_addr := addr, c_msg_mr := mr, c_msg_lkey := lkey\<rparr>)))"

text \<open>Both ends free their regions and their context in the same way.\<close>

definition bench_on_disconnect :: "'d verbs \<Rightarrow> 'd bctx \<Rightarrow> 'd" where
  "bench_on_disconnect V c =
     (let d1 = snd (ibv_destroy V (c_dev c) (c_buffer_mr c));
          d2 = free_mem V d1 (c_buffer_addr c);
          d3 = snd (ibv_destroy V d2 (c_msg_mr c))
      in free_mem V d3 (c_msg_addr c))"

end
