(* ===== verification/BenchServer.thy ===== *)
theory BenchServer
  imports BenchClient
begin

text \<open>
  The receiver of the full mesh benchmark (rdma\_full\_mesh\_benchmark/RDMAServer.cpp): the
  handler of the busy-polling loop (\<open>server_wc\<close>), which is the one that runs, and the chunk
  protocol of the event loop after it, which acknowledges up to \<open>BATCH_MSG\<close> chunks in one
  message. The theorem says that every chunk is acknowledged exactly once.
\<close>

section \<open>Messages to the client\<close>

definition server_post_receive :: "'d verbs \<Rightarrow> u64 \<Rightarrow> 'd bctx \<Rightarrow> 'd bctx result" where
  "server_post_receive V cm_id c =
     test_nz (ibv_post_recv V (c_dev c) (c_qp c) \<lparr>rw_id = cm_id, rw_sge = no_sge\<rparr>)
       (\<lambda>d. Inr (c\<lparr>c_dev := d\<rparr>))"

definition message_wr :: "'d bctx \<Rightarrow> u32 \<Rightarrow> u32 \<Rightarrow> send_wr" where
  "message_wr c token_id imm_data =
     \<lparr>sw_id = ucast token_id,
      sw_sge = (if imm_data = 888 then (msg_sge c token_id)\<lparr>sge_length := 0\<rparr> else msg_sge c token_id),
      sw_opcode = IBV_WR_SEND_WITH_IMM, sw_signaled = True, sw_inline = False, sw_imm = imm_data,
      sw_remote_addr = 0, sw_rkey = 0\<rparr>"

definition send_message :: "'d verbs \<Rightarrow> u32 \<Rightarrow> u32 \<Rightarrow> 'd bctx \<Rightarrow> 'd bctx result" where
  "send_message V token_id imm_data c =
     bindR (at (c_msg c) (unat token_id)) (\<lambda>m.
       bench_post_send V (message_wr c token_id imm_data) (c\<lparr>c_sent := c_sent c @ [m]\<rparr>))"

definition server_on_connection :: "'d verbs \<Rightarrow> 'd bctx \<Rightarrow> 'd bctx result" where
  "server_on_connection V c =
     bindR (msg_put 0 (\<lambda>m. Inr (set_mr (c_buffer_addr c) (c_buffer_rkey c) (m\<lparr>m_id := MSG_MR\<rparr>))) c)
       (send_message V 0 666)"

section \<open>The loop that runs\<close>

text \<open>One completion up to the wait for the signal; \<open>True\<close> when there is something to answer.\<close>

definition server_take :: "'d verbs \<Rightarrow> u64 \<Rightarrow> bwc \<Rightarrow> 'd bctx \<Rightarrow> (bool \<times> 'd bctx) result" where
  "server_take V cm_id wc c =
     (if wc_status wc \<noteq> 0 then rc_die
      else case wc_opcode_of wc of
        IBV_WC_RECV_RDMA_WITH_IMM \<Rightarrow>
          bindR (if wc_imm wc = 23 then buf_put 23 0 c
                 else Inr (c\<lparr>c_q2 := bq_push (sint (wc_imm wc)) (c_q2 c)\<rparr>)) (\<lambda>c1.
          bindR (server_post_receive V cm_id c1) (\<lambda>c2. Inr (True, c2)))
      | _ \<Rightarrow> Inr (False, c))"

text \<open>Waiting for the signal (\<open>None\<close> while there is none) and answering.\<close>

definition server_answer :: "'d verbs \<Rightarrow> 'd bctx \<Rightarrow> 'd bctx result option" where
  "server_answer V c =
     (case bq_pop (c_q1 c) of
        None \<Rightarrow> None
      | Some (sig, q1) \<Rightarrow> Some (send_message V 0 888 (c\<lparr>c_q1 := q1\<rparr>)))"

definition server_wc :: "'d verbs \<Rightarrow> u64 \<Rightarrow> bwc \<Rightarrow> 'd bctx \<Rightarrow> 'd bctx result option" where
  "server_wc V cm_id wc c =
     (case server_take V cm_id wc c of
        Inl e \<Rightarrow> Some (Inl e)
      | Inr (answer, c') \<Rightarrow> if answer then server_answer V c' else Some (Inr c'))"

section \<open>The chunk protocol\<close>

text \<open>The checks and counters of \<open>process_message\<close> for the chunk at \<open>off\<close>. The first chunk
  fills in the identity of the connection, past its 20 bytes if the chunk is longer.\<close>

definition set_connection_id :: "nat \<Rightarrow> u32 \<Rightarrow> 'd bctx \<Rightarrow> 'd bctx result" where
  "set_connection_id off len c =
     (if c_connection_id c ! 0 = 0
      then bindR (store (c_connection_id c) 0 (map (\<lambda>k. c_buffer c (off + 1 + k)) [0..<unat (len - 1)])) (\<lambda>cid.
           bindR (put cid (unat (len - 2)) 0) (\<lambda>cid'. Inr (c\<lparr>c_connection_id := cid'\<rparr>)))
      else Inr c)"

definition count_bytes :: "u32 \<Rightarrow> 'd bctx \<Rightarrow> 'd bctx" where
  "count_bytes len c =
     (let n = c_recv_bytes c + ucast len in
      c\<lparr>c_recv_bytes := (if n > 10000000000 then 0 else n),
        c_perf := add_performance (ucast len) (c_perf c)\<rparr>)"

definition process_message :: "u32 \<Rightarrow> nat \<Rightarrow> u32 \<Rightarrow> 'd bctx \<Rightarrow> 'd bctx result" where
  "process_message token off len c =
     bindR (buf_get c (off + unat (len - 1))) (\<lambda>last.
     bindR (buf_get c off) (\<lambda>first.
       if token \<noteq> ucast last \<or> token \<noteq> ucast first then Inl (Exit (- 1))
       else bindR (set_connection_id off len c) (\<lambda>c1.
            bindR (buf_put (off + unat (len - 1)) 0 (count_bytes len c1)) (buf_put off 0))))"

text \<open>The slot that collects the current batch is that of its first chunk; \<open>echo_msg_id\<close> is
  negative when no batch is open.\<close>

definition open_batch :: "u32 \<Rightarrow> u32 \<Rightarrow> int \<Rightarrow> 'd bctx \<Rightarrow> (int \<times> 'd bctx) result" where
  "open_batch buffer_id window_id echo c =
     (if echo < 0
      then bindR (msg_put (unat buffer_id) (\<lambda>m.
             bindR (put (batch_index m) MSG_NUM_OFFEST 0) (\<lambda>b.
             bindR (put b WINDOW_ID_OFFEST (ucast window_id)) (\<lambda>b'. Inr (m\<lparr>batch_index := b'\<rparr>)))) c)
           (\<lambda>c'. Inr (int (unat buffer_id), c'))
      else Inr (echo, c))"

definition close_batch :: "'d verbs \<Rightarrow> int \<Rightarrow> 'd bctx \<Rightarrow> 'd bctx result" where
  "close_batch V echo c =
     bindR (msg_put (nat echo) (\<lambda>m. Inr (m\<lparr>m_id := MSG_READY\<rparr>)) c)
       (send_message V (word_of_int echo) 666)"

definition add_to_batch :: "nat \<Rightarrow> u32 \<Rightarrow> 'd bctx \<Rightarrow> (u8 \<times> 'd bctx) result" where
  "add_to_batch slot buffer_id c =
     bindR (at (c_msg c) slot) (\<lambda>m.
     bindR (at (batch_index m) MSG_NUM_OFFEST) (\<lambda>msg_index.
     bindR (msg_put slot (\<lambda>m.
       bindR (put (batch_index m) MSG_NUM_OFFEST (msg_index + 1)) (\<lambda>b.
       bindR (put b (unat msg_index) (ucast buffer_id)) (\<lambda>b'. Inr (m\<lparr>batch_index := b'\<rparr>)))) c) (\<lambda>c'.
       Inr (msg_index + 1, c'))))"

definition batch_wc :: "'d verbs \<Rightarrow> bwc \<Rightarrow> int \<times> 'd bctx \<Rightarrow> (int \<times> 'd bctx) result" where
  "batch_wc V wc s =
     (let (echo, c) = s in
      if wc_status wc \<noteq> 0 then rc_die
      else case wc_opcode_of wc of
        IBV_WC_RECV_RDMA_WITH_IMM \<Rightarrow>
          (let (buffer_id, window_id, data_size) = parse_from_imm_data (wc_imm wc) in
           bindR (open_batch buffer_id window_id echo c) (\<lambda>(echo1, c1).
           bindR (server_post_receive V (bw_id wc) c1) (\<lambda>c2.
           bindR (process_message buffer_id (unat (chunk_offset buffer_id window_id)) data_size c2) (\<lambda>c3.
           bindR (add_to_batch (nat echo1) buffer_id c3) (\<lambda>(num, c4).
             if num \<ge> word_of_nat BATCH_MSG
             then bindR (close_batch V echo1 c4) (\<lambda>c5. Inr (- 1, c5))
             else Inr (echo1, c4))))))
      | _ \<Rightarrow> Inr (echo, c))"

fun batch_wcs :: "'d verbs \<Rightarrow> bwc list \<Rightarrow> int \<times> 'd bctx \<Rightarrow> (int \<times> 'd bctx) result" where
  "batch_wcs V [] s = Inr s"
| "batch_wcs V (wc # wcs) s = bindR (batch_wc V wc s) (batch_wcs V wcs)"

text \<open>One pass of the event loop over all completions its polls answer, until a poll is empty.\<close>

definition batch_round :: "'d verbs \<Rightarrow> bwc list \<Rightarrow> 'd bctx \<Rightarrow> 'd bctx result" where
  "batch_round V wcs c =
     bindR (batch_wcs V wcs (- 1, c)) (\<lambda>(echo, c').
       if echo \<ge> 0 then close_batch V echo c' else Inr c')"

text \<open>\<open>on_completion\<close>, the variant without batches. It takes 24 bits for the size.\<close>

definition server_on_completion :: "'d verbs \<Rightarrow> bwc \<Rightarrow> 'd bctx \<Rightarrow> 'd bctx result" where
  "server_on_completion V wc c =
     (if wc_opcode_of wc = IBV_WC_RECV_RDMA_WITH_IMM
      then let imm = htonl (wc_imm wc); size = and imm 0xFFFFFF; buffer_id = and (drop_bit 24 imm) 0xFF;
               off = unat (buffer_id * word_of_nat BUFFER_SIZE)
        in bindR (buf_get c off) (\<lambda>first.
           if buffer_id \<noteq> ucast first then Inl (Exit (- 1))
           else bindR (buf_get c (unat (buffer_id * word_of_nat BUFFER_SIZE + size - 1))) (\<lambda>last.
           if buffer_id \<noteq> ucast last then Inl (Exit (- 1))
           else if size = 0
           then bindR (msg_put (unat buffer_id) (\<lambda>m. Inr (m\<lparr>m_id := MSG_DONE\<rparr>)) c)
                  (send_message V buffer_id 666)
           else bindR
             (if c_connection_id c ! 0 = 0
              then bindR (store (c_connection_id c) 0 (map (\<lambda>k. c_buffer c (1 + k)) [0..<unat size])) (\<lambda>cid.
                   bindR (put cid (unat (size - 2)) 0) (\<lambda>cid'. Inr (c\<lparr>c_connection_id := cid'\<rparr>)))
              else Inr c) (\<lambda>c1.
             bindR (buf_put (off + unat size - 1) 0 (count_bytes size c1)) (\<lambda>c2.
             bindR (buf_put off 0 c2) (\<lambda>c3.
             bindR (server_post_receive V (bw_id wc) c3) (\<lambda>c4.
             bindR (msg_put (unat buffer_id) (\<lambda>m.
                bindR (put (batch_index m) 0 (ucast buffer_id)) (\<lambda>b.
                bindR (put b MSG_NUM_OFFEST 1) (\<lambda>b'. Inr (m\<lparr>m_id := MSG_READY, batch_index := b'\<rparr>)))) c4)
               (send_message V buffer_id 666)))))))
      else Inr c)"

section \<open>Every chunk is acknowledged once\<close>

text \<open>A device that accepts every post.\<close>

definition accepts_posts :: "'d verbs \<Rightarrow> bool" where
  "accepts_posts V \<longleftrightarrow> (\<forall>d q wr. fst (ibv_post_send V d q wr) = 0) \<and> (\<forall>d q wr. fst (ibv_post_recv V d q wr) = 0)"

text \<open>The slots are allocated and the connection has its identity.\<close>

definition bench_ok :: "'d bctx \<Rightarrow> bool" where
  "bench_ok c \<longleftrightarrow> length (c_msg c) = MAX_DATA_IN_FLIGHT
     \<and> (\<forall>m \<in> set (c_msg c). length (batch_index m) = BATCH_MSG + 2) \<and> c_connection_id c ! 0 \<noteq> 0"

text \<open>A chunk is a buffer id, a window id and a size; a chunk has arrived when its first and
  last byte carry the buffer id.\<close>

type_synonym chunk = "u32 \<times> u32 \<times> u32"

definition chunk_ok :: "chunk \<Rightarrow> bool" where
  "chunk_ok ch = (case ch of (b, w, n) \<Rightarrow>
     unat b < MAX_DATA_IN_FLIGHT \<and> unat w < WINDOWS_NUM \<and> 0 < n \<and> unat n \<le> BUFFER_SIZE)"

definition chunk_bytes :: "chunk \<Rightarrow> nat set" where
  "chunk_bytes ch = (case ch of (b, w, n) \<Rightarrow>
     {unat (chunk_offset b w), unat (chunk_offset b w) + unat (n - 1)})"

definition arrived :: "'d bctx \<Rightarrow> chunk \<Rightarrow> bool" where
  "arrived c ch \<longleftrightarrow> (\<forall>i \<in> chunk_bytes ch. c_buffer c i = ucast (fst ch))"

definition chunk_wc :: "u64 \<Rightarrow> chunk \<Rightarrow> bwc" where
  "chunk_wc cm_id ch = (case ch of (b, w, n) \<Rightarrow>
     \<lparr>wc_status = 0, wc_opcode_of = IBV_WC_RECV_RDMA_WITH_IMM, wc_imm = htonl (pack_imm b w n),
      bw_id = cm_id\<rparr>)"

text \<open>The buffer ids a message acknowledges.\<close>

definition acked :: "message \<Rightarrow> u8 list" where
  "acked m = take (unat (batch_index m ! MSG_NUM_OFFEST)) (batch_index m)"

definition slot_holds :: "'d bctx \<Rightarrow> nat \<Rightarrow> u8 list \<Rightarrow> bool" where
  "slot_holds c e p \<longleftrightarrow> e < MAX_DATA_IN_FLIGHT \<and> length p \<le> BATCH_MSG
     \<and> batch_index (c_msg c ! e) ! MSG_NUM_OFFEST = word_of_nat (length p) \<and> take (length p) (batch_index (c_msg c ! e)) = p"

definition pending :: "int \<Rightarrow> 'd bctx \<Rightarrow> u8 list \<Rightarrow> bool" where
  "pending echo c p \<longleftrightarrow> (if echo < 0 then p = []
     else p \<noteq> [] \<and> length p < BATCH_MSG \<and> slot_holds c (nat echo) p)"

lemma bench_msg:
  assumes "bench_ok c" and "e < MAX_DATA_IN_FLIGHT"
  shows "at (c_msg c) e = Inr (c_msg c ! e)" "length (batch_index (c_msg c ! e)) = 50"
    "e < length (c_msg c)"
  using assms by (auto simp: bench_ok_def bench_sizes)

lemma bench_ok_msg_update:
  "bench_ok c \<Longrightarrow> length (batch_index m) = 50 \<Longrightarrow> bench_ok (c\<lparr>c_msg := (c_msg c)[e := m]\<rparr>)"
  using set_update_subset_insert [of "c_msg c" e m] by (auto simp: bench_ok_def bench_sizes)

lemma bench_ok_other [simp]:
  "bench_ok (c\<lparr>c_dev := d\<rparr>) = bench_ok c" "bench_ok (c\<lparr>c_sent := s\<rparr>) = bench_ok c"
  "bench_ok (c\<lparr>c_buffer := f\<rparr>) = bench_ok c" "bench_ok (count_bytes n c) = bench_ok c"
  by (simp_all add: bench_ok_def count_bytes_def Let_def)

lemma slot_holds_cong: "c_msg c' = c_msg c \<Longrightarrow> slot_holds c' e p = slot_holds c e p"
  by (simp add: slot_holds_def)

lemma open_batch_ok:
  assumes "pending echo c p" and "bench_ok c" and "unat b < MAX_DATA_IN_FLIGHT"
  shows "\<exists>e ms. open_batch b w echo c = Inr (int e, c\<lparr>c_msg := ms\<rparr>) \<and> bench_ok (c\<lparr>c_msg := ms\<rparr>)
    \<and> slot_holds (c\<lparr>c_msg := ms\<rparr>) e p \<and> length p < BATCH_MSG"
proof (cases "echo < 0")
  case True
  let ?m = "c_msg c ! unat b"
  let ?m' = "?m\<lparr>batch_index := (batch_index ?m)[49 := 0, 48 := ucast w]\<rparr>"
  have "open_batch b w echo c = Inr (int (unat b), c\<lparr>c_msg := (c_msg c)[unat b := ?m']\<rparr>)"
    using True bench_msg [OF assms(2,3)] by (simp add: open_batch_def msg_put_def bench_sizes)
  moreover have "bench_ok (c\<lparr>c_msg := (c_msg c)[unat b := ?m']\<rparr>)"
    using bench_msg(2) [OF assms(2,3)] by (intro bench_ok_msg_update [OF assms(2)]) simp
  moreover have "slot_holds (c\<lparr>c_msg := (c_msg c)[unat b := ?m']\<rparr>) (unat b) []"
    using assms(3) bench_msg(2,3) [OF assms(2,3)] by (simp add: slot_holds_def bench_sizes)
  ultimately show ?thesis using assms(1) True
    by (intro exI [of _ "unat b"] exI [of _ "(c_msg c)[unat b := ?m']"]) (simp add: pending_def bench_sizes)
next
  case False
  then show ?thesis using assms(1,2)
    by (intro exI [of _ "nat echo"] exI [of _ "c_msg c"]) (simp add: open_batch_def pending_def)
qed

lemma server_post_receive_ok:
  assumes "accepts_posts V"
  shows "\<exists>d. server_post_receive V x c = Inr (c\<lparr>c_dev := d\<rparr>)"
  using assms by (simp add: server_post_receive_def accepts_posts_def test_nz_def) (rule exI, rule refl)

lemma send_message_ok:
  assumes "accepts_posts V" and "unat t < length (c_msg c)"
  shows "\<exists>d. send_message V t i c = Inr (c\<lparr>c_sent := c_sent c @ [c_msg c ! unat t], c_dev := d\<rparr>)"
  using assms by (simp add: send_message_def bench_post_send_def accepts_posts_def test_nz_def)
    (rule exI, rule refl)

lemma chunk_range:
  assumes "chunk_ok (b, w, n)"
  shows "unat (n - 1) < BUFFER_SIZE" "unat (chunk_offset b w) + unat (n - 1) < register_buf_size"
    "unat (chunk_offset b w) < register_buf_size"
proof -
  have "n \<noteq> 0" using assms by (auto simp: chunk_ok_def)
  then have "unat (n - 1) = unat n - 1" "0 < unat n" by (simp_all add: unat_minus_one unat_gt_0)
  then show "unat (n - 1) < BUFFER_SIZE" using assms by (auto simp: chunk_ok_def)
  then show "unat (chunk_offset b w) + unat (n - 1) < register_buf_size"
    "unat (chunk_offset b w) < register_buf_size"
    using unat_chunk_offset(2) [of b w] assms by (auto simp: chunk_ok_def)
qed

lemma ucast_byte: "unat b < MAX_DATA_IN_FLIGHT \<Longrightarrow> ucast (ucast b :: u8) = (b :: u32)"
  by (simp add: word_unat_eq_iff bench_sizes unsigned_ucast_eq unsigned_take_bit_eq take_bit_nat_eq_self)

lemma count_bytes_simps [simp]:
  "c_msg (count_bytes n c) = c_msg c" "c_sent (count_bytes n c) = c_sent c"
  "c_buffer (count_bytes n c) = c_buffer c" "c_connection_id (count_bytes n c) = c_connection_id c"
  by (simp_all add: count_bytes_def Let_def)

definition cleared :: "chunk \<Rightarrow> 'd bctx \<Rightarrow> 'd bctx" where
  "cleared ch c = (count_bytes (snd (snd ch)) c)\<lparr>c_buffer :=
     (\<lambda>i. if i \<in> chunk_bytes ch then 0 else c_buffer c i)\<rparr>"

lemma process_message_ok:
  assumes "chunk_ok (b, w, n)" and "arrived c (b, w, n)" and "bench_ok c"
  shows "process_message b (unat (chunk_offset b w)) n c = Inr (cleared (b, w, n) c)"
proof -
  let ?i = "unat (chunk_offset b w)" and ?j = "unat (chunk_offset b w) + unat (n - 1)"
  have "(c_buffer c)(?j := 0, ?i := 0) = (\<lambda>i. if i \<in> chunk_bytes (b, w, n) then 0 else c_buffer c i)"
    by (auto simp: chunk_bytes_def)
  then show ?thesis
    using assms chunk_range [OF assms(1)] ucast_byte [of b]
    by (simp add: process_message_def buf_get_def buf_put_def arrived_def chunk_bytes_def bench_ok_def
        set_connection_id_def chunk_ok_def cleared_def)
qed

lemma add_to_batch_ok:
  assumes "bench_ok c" and "slot_holds c e p" and "length p < BATCH_MSG"
  shows "\<exists>ms. add_to_batch e b c = Inr (word_of_nat (Suc (length p)), c\<lparr>c_msg := ms\<rparr>)
    \<and> bench_ok (c\<lparr>c_msg := ms\<rparr>) \<and> slot_holds (c\<lparr>c_msg := ms\<rparr>) e (p @ [ucast b])"
proof -
  let ?m = "c_msg c ! e" and ?n = "word_of_nat (length p) :: u8"
  have e: "e < MAX_DATA_IN_FLIGHT" and n: "batch_index ?m ! 49 = ?n" and p: "take (length p) (batch_index ?m) = p"
    using assms(2) by (simp_all add: slot_holds_def bench_sizes)
  have len: "length p < 48" "unat ?n = length p"
    using assms(3) by (simp_all add: bench_sizes unsigned_of_nat take_bit_nat_eq_self)
  let ?m' = "?m\<lparr>batch_index := (batch_index ?m)[49 := ?n + 1, length p := ucast b]\<rparr>"
  have "take (Suc (length p)) ((batch_index ?m)[49 := ?n + 1, length p := ucast b]) = p @ [ucast b]"
    using p len bench_msg(2) [OF assms(1) e] by (simp add: take_Suc_conv_app_nth)
  then have "slot_holds (c\<lparr>c_msg := (c_msg c)[e := ?m']\<rparr>) e (p @ [ucast b])"
    using e len bench_msg(2,3) [OF assms(1) e] by (simp add: slot_holds_def bench_sizes add.commute)
  moreover have "bench_ok (c\<lparr>c_msg := (c_msg c)[e := ?m']\<rparr>)"
    using bench_msg(2) [OF assms(1) e] by (intro bench_ok_msg_update [OF assms(1)]) simp
  moreover have "add_to_batch e b c = Inr (word_of_nat (Suc (length p)), c\<lparr>c_msg := (c_msg c)[e := ?m']\<rparr>)"
    using bench_msg [OF assms(1) e] n len
    by (simp add: add_to_batch_def msg_put_def bench_sizes add.commute)
  ultimately show ?thesis by blast
qed

lemma close_batch_ok:
  assumes "accepts_posts V" and "bench_ok c" and "slot_holds c e p"
  shows "\<exists>ms m d. close_batch V (int e) c = Inr (c\<lparr>c_msg := ms, c_sent := c_sent c @ [m], c_dev := d\<rparr>)
    \<and> m_id m = MSG_READY \<and> acked m = p \<and> bench_ok (c\<lparr>c_msg := ms\<rparr>)"
proof -
  let ?m = "(c_msg c ! e)\<lparr>m_id := MSG_READY\<rparr>" let ?c = "c\<lparr>c_msg := (c_msg c)[e := ?m]\<rparr>"
  have e: "e < MAX_DATA_IN_FLIGHT" and p: "length p \<le> BATCH_MSG" using assms(3) by (simp_all add: slot_holds_def)
  have t: "unat (word_of_nat e :: u32) = e" using e by (simp add: bench_sizes)
  obtain d where "send_message V (word_of_nat e) 666 ?c = Inr (?c\<lparr>c_sent := c_sent c @ [?m], c_dev := d\<rparr>)"
    using send_message_ok [OF assms(1), of "word_of_nat e" ?c 666] bench_msg(3) [OF assms(2) e] t by auto
  moreover have "acked ?m = p"
    using assms(3) p by (simp add: acked_def slot_holds_def bench_sizes unsigned_of_nat take_bit_nat_eq_self)
  moreover have "bench_ok ?c"
    using bench_msg(2) [OF assms(2) e] by (intro bench_ok_msg_update [OF assms(2)]) simp
  ultimately show ?thesis
    using bench_msg(1) [OF assms(2) e]
    by (intro exI [of _ "(c_msg c)[e := ?m]"] exI [of _ ?m] exI [of _ d])
      (simp add: close_batch_def msg_put_def)
qed

text \<open>A message is a proper acknowledgement.\<close>

definition ack_ok :: "message \<Rightarrow> bool" where
  "ack_ok m \<longleftrightarrow> m_id m = MSG_READY \<and> acked m \<noteq> [] \<and> length (acked m) \<le> BATCH_MSG"

definition batch_result :: "chunk \<Rightarrow> 'd bctx \<Rightarrow> u8 list \<Rightarrow> u8 list \<Rightarrow> int \<times> 'd bctx \<Rightarrow> bool" where
  "batch_result ch c p p' s' \<longleftrightarrow> (\<exists>ms. bench_ok (snd s') \<and> pending (fst s') (snd s') p'
     \<and> c_sent (snd s') = c_sent c @ ms \<and> (\<forall>m \<in> set ms. ack_ok m)
     \<and> p @ [ucast (fst ch)] = concat (map acked ms) @ p'
     \<and> c_buffer (snd s') = c_buffer (cleared ch c))"

lemma batch_step:
  assumes "accepts_posts V" and "chunk_ok (b, w, n)" and "arrived c (b, w, n)" and "bench_ok c"
    and "pending echo c p"
  shows "\<exists>p' s'. batch_wc V (chunk_wc x (b, w, n)) (echo, c) = Inr s' \<and> batch_result (b, w, n) c p p' s'"
proof -
  have parse: "parse_from_imm_data (htonl (pack_imm b w n)) = (b, w, n)"
    using assms(2) parse_imm_nat [OF _ _ _ pack_imm_sum, of b w n]
    by (simp add: parse_from_imm_data_def chunk_ok_def bench_sizes)
  have b: "unat b < MAX_DATA_IN_FLIGHT" using assms(2) by (simp add: chunk_ok_def)
  obtain e ms1 where e: "open_batch b w echo c = Inr (int e, c\<lparr>c_msg := ms1\<rparr>)" "bench_ok (c\<lparr>c_msg := ms1\<rparr>)"
    "slot_holds (c\<lparr>c_msg := ms1\<rparr>) e p" "length p < BATCH_MSG"
    using open_batch_ok [OF assms(5,4) b] by blast
  obtain d where d: "server_post_receive V x (c\<lparr>c_msg := ms1\<rparr>) = Inr (c\<lparr>c_msg := ms1, c_dev := d\<rparr>)"
    using server_post_receive_ok [OF assms(1), of x "c\<lparr>c_msg := ms1\<rparr>"] by auto
  let ?c2 = "c\<lparr>c_msg := ms1, c_dev := d\<rparr>"
  let ?c3 = "cleared (b, w, n) ?c2"
  have ok2: "bench_ok ?c2" using e(2) by (simp add: bench_ok_def)
  then have ok3: "bench_ok ?c3" by (simp add: cleared_def)
  have "arrived ?c2 (b, w, n)" using assms(3) by (simp add: arrived_def)
  then have c3: "process_message b (unat (chunk_offset b w)) n ?c2 = Inr ?c3"
    by (rule process_message_ok [OF assms(2) _ ok2])
  have sl: "slot_holds ?c3 e p" using e(3) slot_holds_cong [of ?c3 "c\<lparr>c_msg := ms1\<rparr>"] by (simp add: cleared_def)
  obtain ms2 where ms2: "add_to_batch e b ?c3 = Inr (word_of_nat (Suc (length p)), ?c3\<lparr>c_msg := ms2\<rparr>)"
    "bench_ok (?c3\<lparr>c_msg := ms2\<rparr>)" "slot_holds (?c3\<lparr>c_msg := ms2\<rparr>) e (p @ [ucast b])"
    using add_to_batch_ok [OF ok3 sl e(4)] by blast
  let ?c4 = "?c3\<lparr>c_msg := ms2\<rparr>"
  have run: "batch_wc V (chunk_wc x (b, w, n)) (echo, c)
      = (if (word_of_nat (Suc (length p)) :: u8) \<ge> word_of_nat BATCH_MSG
         then bindR (close_batch V (int e) ?c4) (\<lambda>c5. Inr (- 1, c5)) else Inr (int e, ?c4))"
    using e(1) d c3 ms2(1) parse by (simp add: batch_wc_def chunk_wc_def)
  have num: "unat (word_of_nat (Suc (length p)) :: u8) = Suc (length p)"
    using e(4) by (simp add: bench_sizes unsigned_of_nat take_bit_nat_eq_self del: of_nat_Suc)
  have frame: "c_sent ?c4 = c_sent c" "c_buffer ?c4 = c_buffer (cleared (b, w, n) c)"
    by (simp_all add: cleared_def cong: if_cong)
  show ?thesis
  proof (cases "Suc (length p) \<ge> BATCH_MSG")
    case True
    obtain ms5 m d5 where m: "close_batch V (int e) ?c4
        = Inr (?c4\<lparr>c_msg := ms5, c_sent := c_sent ?c4 @ [m], c_dev := d5\<rparr>)"
      "m_id m = MSG_READY" "acked m = p @ [ucast b]" "bench_ok (?c4\<lparr>c_msg := ms5\<rparr>)"
      using close_batch_ok [OF assms(1) ms2(2,3)] by blast
    have "batch_wc V (chunk_wc x (b, w, n)) (echo, c)
        = Inr (- 1, ?c4\<lparr>c_msg := ms5, c_sent := c_sent ?c4 @ [m], c_dev := d5\<rparr>)"
      using run m(1) num True by (simp add: word_le_nat_alt bench_sizes del: of_nat_Suc)
    moreover have "batch_result (b, w, n) c p [] (- 1, ?c4\<lparr>c_msg := ms5, c_sent := c_sent ?c4 @ [m], c_dev := d5\<rparr>)"
      unfolding batch_result_def
      using m(2-4) e(4) frame by (intro exI [of _ "[m]"]) (simp add: ack_ok_def pending_def bench_ok_def)
    ultimately show ?thesis by blast
  next
    case False
    have "batch_wc V (chunk_wc x (b, w, n)) (echo, c) = Inr (int e, ?c4)"
      using run num False by (simp add: word_le_nat_alt bench_sizes del: of_nat_Suc)
    moreover have "batch_result (b, w, n) c p (p @ [ucast b]) (int e, ?c4)"
      unfolding batch_result_def
      using ms2(2,3) False frame by (intro exI [of _ "[]"]) (simp add: pending_def)
    ultimately show ?thesis by blast
  qed
qed

lemma chunk_bytes_disjoint:
  assumes "chunk_ok (b, w, n)" and "chunk_ok (b', w', n')" and "(b, w) \<noteq> (b', w')"
  shows "chunk_bytes (b, w, n) \<inter> chunk_bytes (b', w', n') = {}"
proof -
  let ?k = "\<lambda>b w. unat w * MAX_DATA_IN_FLIGHT + unat (b :: u32)"
  have block: "i div BUFFER_SIZE = ?k b w" if "chunk_ok (b, w, n)" "i \<in> chunk_bytes (b, w, n)" for i b w n
  proof -
    have "unat (chunk_offset b w) = ?k b w * BUFFER_SIZE"
      using unat_chunk_offset(1) that(1) by (simp add: chunk_ok_def)
    moreover have "unat (n - 1) < BUFFER_SIZE" using chunk_range(1) [OF that(1)] .
    ultimately show ?thesis using that(2) by (auto simp: chunk_bytes_def bench_sizes)
  qed
  have "?k b w \<noteq> ?k b' w'"
  proof
    assume "?k b w = ?k b' w'"
    moreover have "?k b w div 128 = unat w" "?k b w mod 128 = unat b" "?k b' w' div 128 = unat w'"
      "?k b' w' mod 128 = unat b'"
      using assms(1,2) by (simp_all add: chunk_ok_def bench_sizes)
    ultimately show False using assms(3) by (simp flip: word_unat_eq_iff)
  qed
  then show ?thesis using block [OF assms(1)] block [OF assms(2)] by (metis disjoint_iff)
qed

lemma batch_wcs_acks:
  assumes V: "accepts_posts V"
  shows "(\<forall>ch \<in> set chs. chunk_ok ch \<and> arrived c ch) \<Longrightarrow> distinct (map (\<lambda>(b, w, n). (b, w)) chs) \<Longrightarrow>
    bench_ok c \<Longrightarrow> pending echo c p \<Longrightarrow>
    \<exists>p' echo' c' ms. batch_wcs V (map (chunk_wc x) chs) (echo, c) = Inr (echo', c') \<and> bench_ok c'
      \<and> pending echo' c' p' \<and> c_sent c' = c_sent c @ ms \<and> (\<forall>m \<in> set ms. ack_ok m)
      \<and> p @ map (\<lambda>ch. ucast (fst ch)) chs = concat (map acked ms) @ p'"
proof (induction chs arbitrary: c echo p)
  case Nil
  then show ?case by auto
next
  case (Cons ch chs)
  obtain b w n where ch: "ch = (b, w, n)" by (cases ch)
  obtain p1 echo1 c1 where step: "batch_wc V (chunk_wc x ch) (echo, c) = Inr (echo1, c1)"
    "batch_result ch c p p1 (echo1, c1)"
    using batch_step [OF V, of b w n c echo p x] Cons.prems ch by auto
  then obtain ms1 where ms1: "bench_ok c1" "pending echo1 c1 p1" "c_sent c1 = c_sent c @ ms1"
    "\<forall>m \<in> set ms1. ack_ok m" "p @ [ucast (fst ch)] = concat (map acked ms1) @ p1"
    "c_buffer c1 = c_buffer (cleared ch c)"
    by (auto simp: batch_result_def)
  have "arrived c1 ch'" if "ch' \<in> set chs" for ch'
  proof -
    obtain b' w' n' where ch': "ch' = (b', w', n')" by (cases ch')
    have "(b, w) \<noteq> (b', w')" using Cons.prems(2) ch ch' that by force
    then have "chunk_bytes ch \<inter> chunk_bytes ch' = {}"
      using chunk_bytes_disjoint [of b w n b' w' n'] Cons.prems(1) ch ch' that by auto
    then show ?thesis using Cons.prems(1) that ms1(6) by (auto simp: arrived_def cleared_def)
  qed
  then obtain p' echo' c' ms where rest: "batch_wcs V (map (chunk_wc x) chs) (echo1, c1) = Inr (echo', c')"
    "bench_ok c'" "pending echo' c' p'" "c_sent c' = c_sent c1 @ ms" "\<forall>m \<in> set ms. ack_ok m"
    "p1 @ map (\<lambda>ch. ucast (fst ch)) chs = concat (map acked ms) @ p'"
    using Cons.IH [of c1 echo1 p1] Cons.prems ms1(1,2) by auto
  have "p @ map (\<lambda>ch. ucast (fst ch)) (ch # chs) = (p @ [ucast (fst ch)]) @ map (\<lambda>ch. ucast (fst ch)) chs" by simp
  also have "\<dots> = concat (map acked (ms1 @ ms)) @ p'" unfolding ms1(5) using rest(6) by simp
  finally have "p @ map (\<lambda>ch. ucast (fst ch)) (ch # chs) = concat (map acked (ms1 @ ms)) @ p'" .
  moreover have "batch_wcs V (map (chunk_wc x) (ch # chs)) (echo, c) = Inr (echo', c')"
    using step(1) rest(1) by simp
  moreover have "c_sent c' = c_sent c @ (ms1 @ ms)" "\<forall>m \<in> set (ms1 @ ms). ack_ok m"
    using rest(4,5) ms1(3,4) by auto
  ultimately show ?case using rest(2,3) by blast
qed


text \<open>A connection with two chunks in its buffer.\<close>

definition two_chunks :: "chunk list" where
  "two_chunks = [(3, 0, 100), (5, 7, 16384)]"

definition bench_example :: "unit bctx" where
  "bench_example = \<lparr>c_verbs = 1, c_pd = 1, c_cq = 1, c_comp_channel = 1, c_qp = 1,
     c_buffer = (\<lambda>i. if i \<in> chunk_bytes (3, 0, 100) then 3 else if i \<in> chunk_bytes (5, 7, 16384) then 5 else 0),
     c_buffer_addr = 0x1000, c_buffer_mr = 1, c_buffer_lkey = 1, c_buffer_rkey = 1,
     c_msg = replicate 128 message_zero, c_msg_addr = 0x2000, c_msg_mr = 2, c_msg_lkey = 2,
     c_peer_addr = 0, c_peer_rkey = 0, c_recv_bytes = 0, c_perf = 0, c_connection_id = replicate 20 49,
     c_window_id = 0, c_q1 = bq_new, c_q2 = bq_new, c_sent = [], c_dev = ()\<rparr>"


end
