(* ===== verification/Epoch.thy ===== *)
theory Epoch
  imports BenchServer
begin

text \<open>
  The lockstep of the full mesh benchmark: \<open>sync_thread_func\<close> of \<open>RDMAServer\<close>
  (rdma\_full\_mesh\_benchmark/RDMAServer.cpp) collects one block from every connection through
  the queues \<open>q2\<close> and then lets every connection thread answer through the queues \<open>q1\<close>.
  The system has \<open>N\<close> connections; a connection thread runs \<open>server_take\<close> and
  \<open>server_answer\<close>, and its client writes a block for every answer. Every queue operation is
  atomic under the queue's mutex, and the threads interleave in any order.
\<close>

section \<open>The system\<close>

text \<open>A connection: its context at the server, whether its thread waits for a signal, the
  immediate data of blocks and the answers on the wire. \<open>p_blocks\<close> counts the blocks taken.\<close>

record 'd peer =
  p_ctx :: "'d bctx"
  p_waiting :: bool
  p_data :: "u32 list"
  p_ctrl :: nat
  p_blocks :: nat

text \<open>Where \<open>sync_thread_func\<close> stands: pushing the first signals, scanning, or releasing.\<close>

datatype sync_pc = S_Init nat | S_Scan nat | S_Release nat

text \<open>\<open>y_times\<close> is the length of \<open>time_record\<close>; \<open>y_rounds\<close> counts the rounds;
  \<open>y_warned\<close> is "MUST be empty" having been logged, \<open>y_overrun\<close> an access past
  \<open>bitmap\<close> or \<open>time_record\<close>.\<close>

record 'd cluster =
  y_peer :: "nat \<Rightarrow> 'd peer"
  y_pc :: sync_pc
  y_bitmap :: "bool list"
  y_ready :: nat
  y_epoch :: nat
  y_times :: nat
  y_rounds :: nat
  y_warned :: bool
  y_overrun :: bool

definition EPOCH_ROUND :: nat where "EPOCH_ROUND = 3997"

text \<open>The block size of the clients, and the completion a write of it causes.\<close>

definition block_len :: u32 where "block_len = 1024 * 1000"

definition write_wc :: "u32 \<Rightarrow> bwc" where
  "write_wc imm = \<lparr>wc_status = 0, wc_opcode_of = IBV_WC_RECV_RDMA_WITH_IMM, wc_imm = imm, bw_id = 0\<rparr>"

text \<open>The steps of a connection: its thread takes a completion, its thread answers, its client
  answers an answer with a block.\<close>

inductive peer_step :: "'d verbs \<Rightarrow> 'd peer \<Rightarrow> 'd peer \<Rightarrow> bool" for V where
  take: "\<not> p_waiting p \<Longrightarrow> p_data p = imm # imms \<Longrightarrow> server_take V 0 (write_wc imm) (p_ctx p) = Inr (True, c) \<Longrightarrow>
     peer_step V p (p\<lparr>p_ctx := c, p_waiting := True, p_data := imms,
       p_blocks := p_blocks p + (if imm = 23 then 0 else 1)\<rparr>)"
| answer: "p_waiting p \<Longrightarrow> server_answer V (p_ctx p) = Some (Inr c) \<Longrightarrow>
     peer_step V p (p\<lparr>p_ctx := c, p_waiting := False, p_ctrl := Suc (p_ctrl p)\<rparr>)"
| client: "0 < p_ctrl p \<Longrightarrow>
     peer_step V p (p\<lparr>p_ctrl := p_ctrl p - 1, p_data := p_data p @ [block_len]\<rparr>)"

definition signal :: "'d peer \<Rightarrow> 'd peer" where
  "signal p = p\<lparr>p_ctx := (p_ctx p)\<lparr>c_q1 := bq_push 1 (c_q1 (p_ctx p))\<rparr>\<rparr>"

definition set_q2 :: "int bqueue \<Rightarrow> 'd peer \<Rightarrow> 'd peer" where
  "set_q2 q p = p\<lparr>p_ctx := (p_ctx p)\<lparr>c_q2 := q\<rparr>\<rparr>"

definition next_epoch :: "nat \<Rightarrow> nat" where
  "next_epoch e = (if e = EPOCH_ROUND then 1 else e + 1)"

inductive sync_step :: "nat \<Rightarrow> 'd cluster \<Rightarrow> 'd cluster \<Rightarrow> bool" for N where
  init_push: "y_pc y = S_Init k \<Longrightarrow> k < N \<Longrightarrow>
     sync_step N y (y\<lparr>y_peer := (y_peer y)(k := signal (y_peer y k)), y_pc := S_Init (Suc k)\<rparr>)"
| init_done: "y_pc y = S_Init N \<Longrightarrow> sync_step N y (y\<lparr>y_pc := S_Scan 0\<rparr>)"
| scan_past: "y_pc y = S_Scan k \<Longrightarrow> k < N \<Longrightarrow> length (y_bitmap y) \<le> k \<Longrightarrow>
     sync_step N y (y\<lparr>y_overrun := True\<rparr>)"
| scan_marked: "y_pc y = S_Scan k \<Longrightarrow> k < N \<Longrightarrow> k < length (y_bitmap y) \<Longrightarrow> y_bitmap y ! k \<Longrightarrow>
     sync_step N y (y\<lparr>y_pc := S_Scan (Suc k)\<rparr>)"
| scan_empty: "y_pc y = S_Scan k \<Longrightarrow> k < N \<Longrightarrow> k < length (y_bitmap y) \<Longrightarrow> \<not> y_bitmap y ! k \<Longrightarrow>
     bq_try_pop (c_q2 (p_ctx (y_peer y k))) = None \<Longrightarrow> sync_step N y (y\<lparr>y_pc := S_Scan (Suc k)\<rparr>)"
| scan_hit: "y_pc y = S_Scan k \<Longrightarrow> k < N \<Longrightarrow> k < length (y_bitmap y) \<Longrightarrow> \<not> y_bitmap y ! k \<Longrightarrow>
     bq_try_pop (c_q2 (p_ctx (y_peer y k))) = Some (v, q) \<Longrightarrow>
     sync_step N y (y\<lparr>y_peer := (y_peer y)(k := set_q2 q (y_peer y k)), y_ready := Suc (y_ready y),
       y_bitmap := (y_bitmap y)[k := True],
       y_times := y_times y + (if y_epoch y = EPOCH_ROUND then 1 else 0), y_pc := S_Scan (Suc k)\<rparr>)"
| scan_again: "y_pc y = S_Scan N \<Longrightarrow> y_ready y \<noteq> N \<Longrightarrow> sync_step N y (y\<lparr>y_pc := S_Scan 0\<rparr>)"
| scan_done: "y_pc y = S_Scan N \<Longrightarrow> y_ready y = N \<Longrightarrow>
     sync_step N y (y\<lparr>y_times := (if y_epoch y = EPOCH_ROUND - 1 then 1 else y_times y), y_pc := S_Release 0\<rparr>)"
| release: "y_pc y = S_Release k \<Longrightarrow> k < N \<Longrightarrow>
     sync_step N y (y\<lparr>y_peer := (y_peer y)(k := signal (y_peer y k)),
       y_warned := (y_warned y \<or> (case bq_nonblocking_size lock (c_q2 (p_ctx (y_peer y k))) of
          None \<Rightarrow> False | Some n \<Rightarrow> n \<noteq> 0)), y_pc := S_Release (Suc k)\<rparr>)"
| release_done: "y_pc y = S_Release N \<Longrightarrow>
     sync_step N y (y\<lparr>y_ready := 0, y_bitmap := replicate 32 False, y_epoch := next_epoch (y_epoch y),
       y_overrun := (y_overrun y \<or> y_epoch y = EPOCH_ROUND \<and> y_times y \<le> N),
       y_times := (if y_epoch y = EPOCH_ROUND then 0 else y_times y),
       y_rounds := Suc (y_rounds y), y_pc := S_Scan 0\<rparr>)"

text \<open>The start: no signal, every client has announced itself, no round yet.\<close>

definition peer_start :: "'d peer \<Rightarrow> bool" where
  "peer_start p \<longleftrightarrow> bq_queue (c_q1 (p_ctx p)) = [] \<and> bq_queue (c_q2 (p_ctx p)) = [] \<and> \<not> p_waiting p
     \<and> p_data p = [23] \<and> p_ctrl p = 0 \<and> p_blocks p = 0"

definition sync_start :: "(nat \<Rightarrow> 'd peer) \<Rightarrow> 'd cluster" where
  "sync_start P = \<lparr>y_peer = P, y_pc = S_Init 0, y_bitmap = replicate 32 False, y_ready = 0, y_epoch = 1,
     y_times = 0, y_rounds = 0, y_warned = False, y_overrun = False\<rparr>"

inductive bench_reach :: "'d verbs \<Rightarrow> nat \<Rightarrow> (nat \<Rightarrow> 'd peer) \<Rightarrow> 'd cluster \<Rightarrow> bool" for V N P where
  start: "bench_reach V N P (sync_start P)"
| peer: "bench_reach V N P y \<Longrightarrow> i < N \<Longrightarrow> peer_step V (y_peer y i) p \<Longrightarrow>
     bench_reach V N P (y\<lparr>y_peer := (y_peer y)(i := p)\<rparr>)"
| sync: "bench_reach V N P y \<Longrightarrow> sync_step N y y' \<Longrightarrow> bench_reach V N P y'"

section \<open>The invariant\<close>

definition sigs :: "'d peer \<Rightarrow> nat" where "sigs p = length (bq_queue (c_q1 (p_ctx p)))"
definition blks :: "'d peer \<Rightarrow> nat" where "blks p = length (bq_queue (c_q2 (p_ctx p)))"
definition on_wire :: "'d peer \<Rightarrow> nat" where "on_wire p = length (filter (\<lambda>d. d = block_len) (p_data p))"

text \<open>\<open>g\<close> signals have been given to the connection, and \<open>b\<close> says whether its current block
  has been collected and not yet been answered by a new signal.\<close>

definition peer_inv :: "nat \<Rightarrow> bool \<Rightarrow> 'd peer \<Rightarrow> bool" where
  "peer_inv g b p \<longleftrightarrow> set (p_data p) \<subseteq> {23, block_len}
     \<and> length (p_data p) + of_bool (p_waiting p) + p_ctrl p = 1
     \<and> sigs p + blks p + of_bool b + p_ctrl p + on_wire p = of_bool (0 < g)
     \<and> p_blocks p + sigs p + p_ctrl p + on_wire p = g"

fun grants :: "sync_pc \<Rightarrow> nat \<Rightarrow> nat \<Rightarrow> nat" where
  "grants (S_Init k) r i = of_bool (i < k)"
| "grants (S_Scan k) r i = Suc r"
| "grants (S_Release k) r i = Suc r + of_bool (i < k)"

fun held :: "sync_pc \<Rightarrow> bool list \<Rightarrow> nat \<Rightarrow> bool" where
  "held (S_Release k) bm i \<longleftrightarrow> bm ! i \<and> k \<le> i"
| "held pc bm i \<longleftrightarrow> bm ! i"

text \<open>What holds of the thread's own variables.\<close>

fun sync_inv :: "nat \<Rightarrow> sync_pc \<Rightarrow> 'd cluster \<Rightarrow> bool" where
  "sync_inv N (S_Init k) y \<longleftrightarrow> k \<le> N \<and> y_bitmap y = replicate 32 False \<and> y_ready y = 0 \<and> y_epoch y = 1 \<and> y_rounds y = 0"
| "sync_inv N (S_Scan k) y \<longleftrightarrow> k \<le> N"
| "sync_inv N (S_Release k) y \<longleftrightarrow> k \<le> N \<and> y_ready y = N \<and> (y_epoch y = EPOCH_ROUND - 1 \<longrightarrow> y_times y = 1)"

definition cluster_inv :: "nat \<Rightarrow> 'd cluster \<Rightarrow> bool" where
  "cluster_inv N y \<longleftrightarrow> length (y_bitmap y) = 32 \<and> \<not> y_overrun y \<and> \<not> y_warned y
     \<and> y_ready y = card {i. i < N \<and> y_bitmap y ! i}
     \<and> 1 \<le> y_epoch y \<and> y_epoch y \<le> EPOCH_ROUND
     \<and> (y_epoch y = EPOCH_ROUND \<longrightarrow> y_times y = Suc (y_ready y))
     \<and> sync_inv N (y_pc y) y
     \<and> (\<forall>i < N. peer_inv (grants (y_pc y) (y_rounds y) i) (held (y_pc y) (y_bitmap y) i) (y_peer y i))"

lemma server_take_queues:
  assumes "server_take V 0 (write_wc imm) c = Inr (True, c')"
  shows "bq_queue (c_q1 c') = bq_queue (c_q1 c)"
    and "length (bq_queue (c_q2 c')) = length (bq_queue (c_q2 c)) + (if imm = 23 then 0 else 1)"
  using assms
  by (auto simp: server_take_def write_wc_def bindR_eq_Inr_iff server_post_receive_def test_nz_def
      rc_die_def buf_put_def bq_push_def split: if_splits)

lemma server_answer_queues:
  assumes "server_answer V c = Some (Inr c')"
  shows "length (bq_queue (c_q1 c)) = Suc (length (bq_queue (c_q1 c')))" and "c_q2 c' = c_q2 c"
  using assms
  by (auto simp: server_answer_def send_message_def bench_post_send_def bindR_eq_Inr_iff test_nz_def
      rc_die_def bq_pop_def split: option.splits list.splits if_splits)

lemma block_len_neq: "block_len \<noteq> 23" "23 \<noteq> block_len"
  by (simp_all add: block_len_def)

lemma peer_step_inv:
  assumes "peer_step V p p'" and "peer_inv g b p"
  shows "peer_inv g b p'"
  using assms(1)
proof cases
  case (take imm imms c)
  have imm: "imm = 23 \<or> imm = block_len" using take assms(2) by (auto simp: peer_inv_def)
  have "sigs p' = sigs p" "blks p' = blks p + (if imm = 23 then 0 else 1)"
    using take(1) server_take_queues [OF take(4)] by (simp_all add: sigs_def blks_def)
  moreover have "on_wire p = on_wire p' + (if imm = 23 then 0 else 1)"
    using take(1,3) imm block_len_neq by (auto simp: on_wire_def)
  moreover have "length (p_data p) = Suc (length (p_data p'))" "set (p_data p') \<subseteq> set (p_data p)"
    "p_waiting p'" "p_ctrl p' = p_ctrl p" "p_blocks p' = p_blocks p + (if imm = 23 then 0 else 1)"
    using take(1,3) by auto
  ultimately show ?thesis using assms(2) take(2) by (auto simp: peer_inv_def)
next
  case (answer c)
  have "sigs p = Suc (sigs p')" "blks p' = blks p" "on_wire p' = on_wire p" "p_data p' = p_data p"
    "\<not> p_waiting p'" "p_ctrl p' = Suc (p_ctrl p)" "p_blocks p' = p_blocks p"
    using answer(1) server_answer_queues [OF answer(3)] by (simp_all add: sigs_def blks_def on_wire_def)
  then show ?thesis using assms(2) answer(2) by (auto simp: peer_inv_def)
next
  case client
  have "sigs p' = sigs p" "blks p' = blks p" "on_wire p' = Suc (on_wire p)"
    "p_data p' = p_data p @ [block_len]" "p_waiting p' = p_waiting p" "p_ctrl p = Suc (p_ctrl p')" "p_blocks p' = p_blocks p"
    using client by (simp_all add: sigs_def blks_def on_wire_def)
  then show ?thesis using assms(2) by (auto simp: peer_inv_def)
qed

lemma signal_simps [simp]:
  "sigs (signal p) = Suc (sigs p)" "blks (signal p) = blks p" "on_wire (signal p) = on_wire p"
  "p_data (signal p) = p_data p" "p_waiting (signal p) = p_waiting p" "p_ctrl (signal p) = p_ctrl p"
  "p_blocks (signal p) = p_blocks p"
  by (simp_all add: signal_def sigs_def blks_def on_wire_def bq_push_def)

lemma set_q2_simps [simp]:
  "sigs (set_q2 q p) = sigs p" "blks (set_q2 q p) = length (bq_queue q)" "on_wire (set_q2 q p) = on_wire p"
  "p_data (set_q2 q p) = p_data p" "p_waiting (set_q2 q p) = p_waiting p" "p_ctrl (set_q2 q p) = p_ctrl p"
  "p_blocks (set_q2 q p) = p_blocks p"
  by (simp_all add: set_q2_def sigs_def blks_def on_wire_def)

lemma signal_inv:
  assumes "peer_inv g b p" and "g = 0 \<and> \<not> b \<or> b"
  shows "peer_inv (Suc g) False (signal p)"
  using assms by (cases g; cases b) (simp_all add: peer_inv_def)

lemma collect_inv:
  assumes "peer_inv g False p" and "bq_try_pop (c_q2 (p_ctx p)) = Some (v, q)"
  shows "peer_inv g True (set_q2 q p)"
proof -
  have "blks p = Suc (length (bq_queue q))"
    using assms(2) by (auto simp: bq_try_pop_def blks_def split: list.splits)
  then show ?thesis using assms(1) by (simp add: peer_inv_def)
qed

lemma held_empty: "peer_inv g True p \<Longrightarrow> blks p = 0"
  by (cases g) (simp_all add: peer_inv_def)

lemma card_marks_update:
  assumes "k < N" and "\<not> bm ! k" and "k < length bm"
  shows "card {i. i < N \<and> bm[k := True] ! i} = Suc (card {i. i < N \<and> bm ! i})"
proof -
  have "{i. i < N \<and> bm[k := True] ! i} = insert k {i. i < N \<and> bm ! i}"
    using assms by (auto simp: nth_list_update)
  then show ?thesis using assms(2) by simp
qed

lemma all_marked: "card {i. i < N \<and> bm ! i} = N \<Longrightarrow> i < N \<Longrightarrow> bm ! i"
proof -
  assume "card {i. i < N \<and> bm ! i} = N" and "i < N"
  then have "{i. i < N \<and> bm ! i} = {i. i < N}" by (intro card_subset_eq) auto
  then show "bm ! i" using \<open>i < N\<close> by auto
qed

lemma peers_update:
  assumes "\<forall>i < N. peer_inv (g i) (b i) (P i)" and "peer_inv (g' k) (b' k) p"
    and "\<And>i. i \<noteq> k \<Longrightarrow> g' i = g i \<and> b' i = b i"
  shows "\<forall>i < N. peer_inv (g' i) (b' i) ((P(k := p)) i)"
  using assms by auto

lemma sync_step_inv:
  assumes "sync_step N y y'" and "cluster_inv N y" and "N \<le> 32"
  shows "cluster_inv N y'"
  using assms(1)
proof cases
  case (init_push k)
  then have "peer_inv 0 False (y_peer y k)" using assms(2,3) by (auto simp: cluster_inv_def)
  then have now: "peer_inv (Suc 0) False (signal (y_peer y k))" by (rule signal_inv) simp
  have "\<forall>i < N. peer_inv (grants (S_Init (Suc k)) (y_rounds y) i) (held (S_Init (Suc k)) (y_bitmap y) i)
      (((y_peer y)(k := signal (y_peer y k))) i)"
  proof (rule peers_update)
    show "\<forall>i < N. peer_inv (grants (y_pc y) (y_rounds y) i) (held (y_pc y) (y_bitmap y) i) (y_peer y i)"
      using assms(2) by (simp add: cluster_inv_def)
    show "peer_inv (grants (S_Init (Suc k)) (y_rounds y) k) (held (S_Init (Suc k)) (y_bitmap y) k) (signal (y_peer y k))"
      using init_push assms(2,3) now by (auto simp: cluster_inv_def)
  qed (use init_push in auto)
  then show ?thesis using init_push assms(2,3)
    by (simp add: cluster_inv_def EPOCH_ROUND_def split del: split_of_bool)
next
  case init_done
  then show ?thesis using assms(2,3) by (auto simp: cluster_inv_def)
next
  case (scan_past k)
  then show ?thesis using assms(2,3) by (simp add: cluster_inv_def)
next
  case (scan_marked k)
  then show ?thesis using assms(2) by (auto simp: cluster_inv_def)
next
  case (scan_empty k)
  then show ?thesis using assms(2) by (auto simp: cluster_inv_def)
next
  case (scan_hit k v q)
  then have "peer_inv (Suc (y_rounds y)) True (set_q2 q (y_peer y k))"
    using assms(2) by (intro collect_inv) (auto simp: cluster_inv_def)
  then show ?thesis using scan_hit assms(2) card_marks_update [of k N "y_bitmap y"]
    by (auto simp: cluster_inv_def nth_list_update)
next
  case scan_again
  then show ?thesis using assms(2) by (auto simp: cluster_inv_def)
next
  case scan_done
  then show ?thesis using assms(2) by (auto simp: cluster_inv_def EPOCH_ROUND_def)
next
  case (release k lock)
  then have held: "peer_inv (Suc (y_rounds y)) True (y_peer y k)"
    using assms(2) all_marked [of N "y_bitmap y" k] by (auto simp: cluster_inv_def)
  then have now: "peer_inv (Suc (Suc (y_rounds y))) False (signal (y_peer y k))" by (rule signal_inv) simp
  have "\<forall>i < N. peer_inv (grants (S_Release (Suc k)) (y_rounds y) i) (held (S_Release (Suc k)) (y_bitmap y) i)
      (((y_peer y)(k := signal (y_peer y k))) i)"
  proof (rule peers_update)
    show "\<forall>i < N. peer_inv (grants (y_pc y) (y_rounds y) i) (held (y_pc y) (y_bitmap y) i) (y_peer y i)"
      using assms(2) by (simp add: cluster_inv_def)
  qed (use release now in auto)
  moreover have "bq_queue (c_q2 (p_ctx (y_peer y k))) = []" using held_empty [OF held] by (simp add: blks_def)
  ultimately show ?thesis using release assms(2)
    by (simp add: cluster_inv_def bq_nonblocking_size_def split del: split_of_bool)
next
  case release_done
  then show ?thesis using assms(2,3)
    by (auto simp: cluster_inv_def next_epoch_def EPOCH_ROUND_def)
qed

lemma bench_reach_inv:
  assumes "bench_reach V N P y" and "\<forall>i < N. peer_start (P i)" and "N \<le> 32"
  shows "cluster_inv N y"
  using assms(1)
proof induction
  case start
  have "peer_inv 0 False (P i)" if "i < N" for i
    using assms(2) that block_len_neq
    by (simp add: peer_start_def peer_inv_def sigs_def blks_def on_wire_def)
  then show ?case using assms(3) by (auto simp: cluster_inv_def sync_start_def EPOCH_ROUND_def)
next
  case (peer y i p)
  have "peer_inv (grants (y_pc y) (y_rounds y) i) (held (y_pc y) (y_bitmap y) i) p"
    using peer by (intro peer_step_inv [OF peer.hyps(3)]) (simp add: cluster_inv_def)
  moreover have "sync_inv N (y_pc y) (y\<lparr>y_peer := (y_peer y)(i := p)\<rparr>) = sync_inv N (y_pc y) y"
    by (cases "y_pc y") simp_all
  ultimately show ?case using peer.IH by (simp add: cluster_inv_def)
next
  case (sync y y')
  then show ?case using sync_step_inv assms(3) by blast
qed

text \<open>The blocks a client has been asked for: those that have arrived and been taken, and the
  one under way.\<close>

definition asked :: "'d peer \<Rightarrow> nat" where
  "asked p = p_blocks p + p_ctrl p + on_wire p"

text \<open>
  C9. The rounds of the benchmark are in lockstep: in every interleaving of the connection
  threads, the clients and the synchronising thread, no client is asked for block \<open>k + 1\<close>
  before every connection has delivered block \<open>k\<close>.
\<close>

theorem rounds_in_lockstep:
  assumes "bench_reach V N P y" and "\<forall>i < N. peer_start (P i)" and "N \<le> 32" and "i < N" and "j < N"
  shows "asked (y_peer y i) \<le> Suc (p_blocks (y_peer y j))"
proof -
  have inv: "cluster_inv N y" using bench_reach_inv [OF assms(1-3)] .
  have one: "asked p \<le> g \<and> g \<le> Suc (p_blocks p) \<and> (b \<and> 0 < g \<longrightarrow> p_blocks p = g)"
    if "peer_inv g b p" for g b p
    using that by (cases g; cases b) (auto simp: peer_inv_def asked_def)
  have i: "peer_inv (grants (y_pc y) (y_rounds y) i) (held (y_pc y) (y_bitmap y) i) (y_peer y i)"
    and j: "peer_inv (grants (y_pc y) (y_rounds y) j) (held (y_pc y) (y_bitmap y) j) (y_peer y j)"
    using inv assms(4,5) by (simp_all add: cluster_inv_def)
  show ?thesis
  proof (cases "y_pc y")
    case (S_Init k)
    then have "asked (y_peer y i) \<le> of_bool (i < k)" using one [OF i] by (simp split del: split_of_bool)
    also have "\<dots> \<le> (1 :: nat)" by simp
    finally show ?thesis by simp
  next
    case (S_Scan k)
    then show ?thesis using one [OF i] one [OF j] by simp
  next
    case (S_Release k)
    then have "y_bitmap y ! j" using inv all_marked [of N "y_bitmap y" j] assms(5) by (auto simp: cluster_inv_def)
    then show ?thesis using one [OF i] one [OF j] S_Release by (cases "k \<le> j"; cases "i < k") auto
  qed
qed

text \<open>
  With at most 32 connections \<open>sync_thread_func\<close> never leaves the bounds of its bitmap or
  of the times it reports every 3997 rounds, and never finds a second block of a connection
  that it has already collected in this round.
\<close>

theorem sync_thread_in_bounds:
  assumes "bench_reach V N P y" and "\<forall>i < N. peer_start (P i)" and "N \<le> 32"
  shows "\<not> y_overrun y \<and> \<not> y_warned y"
  using bench_reach_inv [OF assms] by (simp add: cluster_inv_def)

text \<open>Scanning with nothing to collect, and the first signals: the thread moves on alone.\<close>

lemma init_reach:
  "bench_reach V N P (sync_start P) \<Longrightarrow> k \<le> N \<Longrightarrow>
   \<exists>y. bench_reach V N P y \<and> y_pc y = S_Init k \<and> y_bitmap y = replicate 32 False
     \<and> (\<forall>i. c_q2 (p_ctx (y_peer y i)) = c_q2 (p_ctx (P i)))"
proof (induction k)
  case 0
  then show ?case by (intro exI [of _ "sync_start P"]) (simp add: sync_start_def)
next
  case (Suc k)
  then obtain y where y: "bench_reach V N P y" "y_pc y = S_Init k" "y_bitmap y = replicate 32 False"
    "\<forall>i. c_q2 (p_ctx (y_peer y i)) = c_q2 (p_ctx (P i))" by auto
  have "bench_reach V N P (y\<lparr>y_peer := (y_peer y)(k := signal (y_peer y k)), y_pc := S_Init (Suc k)\<rparr>)"
    using y Suc.prems by (intro bench_reach.sync [OF y(1)] sync_step.init_push) auto
  then show ?case using y by (intro exI conjI) (assumption, auto simp: signal_def)
qed

lemma scan_reach:
  assumes "\<forall>i < N. bq_queue (c_q2 (p_ctx (P i))) = []" and "32 < N"
  shows "k \<le> 32 \<Longrightarrow> \<exists>y. bench_reach V N P y \<and> y_pc y = S_Scan k \<and> y_bitmap y = replicate 32 False
     \<and> (\<forall>i. c_q2 (p_ctx (y_peer y i)) = c_q2 (p_ctx (P i)))"
proof (induction k)
  case 0
  obtain y where y: "bench_reach V N P y" "y_pc y = S_Init N" "y_bitmap y = replicate 32 False"
    "\<forall>i. c_q2 (p_ctx (y_peer y i)) = c_q2 (p_ctx (P i))"
    using init_reach [OF bench_reach.start, of N] by blast
  have "bench_reach V N P (y\<lparr>y_pc := S_Scan 0\<rparr>)"
    using y by (intro bench_reach.sync [OF y(1)] sync_step.init_done)
  then show ?case using y by (intro exI conjI) (assumption, auto)
next
  case (Suc k)
  then obtain y where y: "bench_reach V N P y" "y_pc y = S_Scan k" "y_bitmap y = replicate 32 False"
    "\<forall>i. c_q2 (p_ctx (y_peer y i)) = c_q2 (p_ctx (P i))" by auto
  have "bench_reach V N P (y\<lparr>y_pc := S_Scan (Suc k)\<rparr>)"
    using y Suc.prems assms by (intro bench_reach.sync [OF y(1)] sync_step.scan_empty) (auto simp: bq_try_pop_def)
  then show ?case using y by (intro exI conjI) (assumption, auto)
qed

text \<open>
  With more than 32 connections the thread reads past its bitmap of 32 entries: the size of
  the group is read a second after the fifteenth connection and nothing bounds it.
\<close>

theorem sync_thread_overrun:
  assumes "\<forall>i < N. peer_start (P i)" and "32 < N"
  shows "\<exists>y. bench_reach V N P y \<and> y_overrun y"
proof -
  obtain y where y: "bench_reach V N P y" "y_pc y = S_Scan 32" "y_bitmap y = replicate 32 False"
    using scan_reach [of N P 32 V] assms by (auto simp: peer_start_def)
  have "bench_reach V N P (y\<lparr>y_overrun := True\<rparr>)"
    using y assms(2) by (intro bench_reach.sync [OF y(1)] sync_step.scan_past [of _ 32]) auto
  then show ?thesis by (intro exI conjI) (assumption, simp)
qed

definition start_peer :: "unit peer" where
  "start_peer = \<lparr>p_ctx = bench_example, p_waiting = False, p_data = [23], p_ctrl = 0, p_blocks = 0\<rparr>"

lemma start_peer_start: "peer_start start_peer"
  by (simp add: peer_start_def start_peer_def bench_example_def bq_new_def)

theorem rounds_in_lockstep_witness:
  "asked (y_peer (sync_start (\<lambda>i. start_peer)) 3) \<le> Suc (p_blocks (y_peer (sync_start (\<lambda>i. start_peer)) 14))"
  by (rule rounds_in_lockstep [OF bench_reach.start [of still_device 15]]) (simp_all add: start_peer_start)

theorem sync_thread_in_bounds_witness:
  "\<not> y_overrun (sync_start (\<lambda>i. start_peer)) \<and> \<not> y_warned (sync_start (\<lambda>i. start_peer))"
  by (rule sync_thread_in_bounds [OF bench_reach.start [of still_device 15]]) (simp_all add: start_peer_start)

theorem sync_thread_overrun_witness: "\<exists>y. bench_reach still_device 33 (\<lambda>i. start_peer) y \<and> y_overrun y"
  by (rule sync_thread_overrun) (simp_all add: start_peer_start)

end
