(* ===== verification/BenchCm.thy ===== *)
theory BenchCm
  imports BenchServer
begin

text \<open>
  The connection manager loops of the full mesh benchmark: \<open>RDMAClient::event_loop\<close> and
  \<open>RDMAServer::server_event_loops\<close>. librdmacm is a parameter over its own state \<open>'e\<close>; the
  device of a new context starts in \<open>d0\<close>. Printing and the read-only address lookups are left
  out; a started thread is counted.
\<close>

datatype cm_event = ADDR_RESOLVED | ROUTE_RESOLVED | CONNECT_REQUEST | ESTABLISHED | REJECTED
  | DISCONNECTED | OTHER_EVENT

record 'e rdma_cm =
  rdma_set_tos :: "'e \<Rightarrow> int \<times> 'e"
  rdma_resolve_route :: "'e \<Rightarrow> int \<times> 'e"
  rdma_connect :: "'e \<Rightarrow> conn_param \<Rightarrow> int \<times> 'e"
  rdma_accept :: "'e \<Rightarrow> conn_param \<Rightarrow> int \<times> 'e"
  rdma_destroy_qp :: "'e \<Rightarrow> nat \<Rightarrow> 'e"
  rdma_destroy_id :: "'e \<Rightarrow> 'e"
  rdma_destroy_event_channel :: "'e \<Rightarrow> 'e"
  rdma_create_event_channel :: "'e \<Rightarrow> nat \<times> 'e"
  rdma_create_id :: "'e \<Rightarrow> int \<times> 'e"
  rdma_resolve_addr :: "'e \<Rightarrow> int \<times> 'e"

text \<open>What \<open>malloc\<close> and \<open>posix_memalign\<close> hand out, and the device.\<close>

record 'd fresh_memory =
  fm_ctx :: "'d bctx"
  fm_bytes :: "nat \<Rightarrow> u8"
  fm_msgs :: "message list"
  fm_dev :: 'd

section \<open>The client\<close>

record ('d, 'e) client_loop =
  cl_id :: "'d cm_id"
  cl_connect_count :: int
  cl_threads :: nat
  cl_cm :: 'e

definition connect_timeout :: int where "connect_timeout = 300"

definition with_context :: "'d cm_id \<Rightarrow> ('d bctx \<Rightarrow> 'd bctx result) \<Rightarrow> 'd cm_id result" where
  "with_context i f = (case id_context i of
     None \<Rightarrow> Inl OutOfBounds | Some c \<Rightarrow> bindR (f c) (\<lambda>c'. Inr (i\<lparr>id_context := Some c'\<rparr>)))"

definition client_rejected :: "'e rdma_cm \<Rightarrow> ('d, 'e) client_loop \<Rightarrow> ('d, 'e) client_loop result" where
  "client_rejected M s =
     (let count = cl_connect_count s + 1;
          e3 = rdma_destroy_event_channel M (rdma_destroy_id M (rdma_destroy_qp M (cl_cm s) (id_qp (cl_id s))))
      in if count > 10 * connect_timeout then Inl (Exit (- 1))
         else test_z (rdma_create_event_channel M e3) (\<lambda>ec e4.
              test_nz (rdma_create_id M e4) (\<lambda>e5.
              test_nz (rdma_resolve_addr M e5) (\<lambda>e6.
                Inr (s\<lparr>cl_connect_count := count, cl_id := (cl_id s)\<lparr>id_qp := 0\<rparr>, cl_cm := e6\<rparr>)))))"

definition client_event ::
  "'d verbs \<Rightarrow> 'e rdma_cm \<Rightarrow> 'd fresh_memory \<Rightarrow> cm_event \<Rightarrow> ('d, 'e) client_loop \<Rightarrow> ('d, 'e) client_loop result" where
  "client_event V M mem ev s =
     (case ev of
        ADDR_RESOLVED \<Rightarrow>
          bindR (build_connection V (fm_ctx mem) (fm_dev mem) (cl_id s)) (\<lambda>i.
          let (rc, e1) = rdma_set_tos M (cl_cm s) in
          if rc \<noteq> 0 then Inl (Exit 0)
          else test_nz (rdma_resolve_route M e1) (\<lambda>e2. Inr (s\<lparr>cl_id := i, cl_cm := e2\<rparr>)))
      | ROUTE_RESOLVED \<Rightarrow> test_nz (rdma_connect M (cl_cm s) build_params) (\<lambda>e. Inr (s\<lparr>cl_cm := e\<rparr>))
      | CONNECT_REQUEST \<Rightarrow> Inl (Exit (- 1))
      | ESTABLISHED \<Rightarrow>
          bindR (with_context (cl_id s) (client_on_pre_conn V (fm_bytes mem) (fm_msgs mem))) (\<lambda>i.
          Inr (s\<lparr>cl_id := i, cl_threads := Suc (cl_threads s)\<rparr>))
      | REJECTED \<Rightarrow> client_rejected M s
      | DISCONNECTED \<Rightarrow> Inl (Exit (- 1))
      | OTHER_EVENT \<Rightarrow> Inr s)"

fun client_event_loop ::
  "'d verbs \<Rightarrow> 'e rdma_cm \<Rightarrow> 'd fresh_memory \<Rightarrow> cm_event list \<Rightarrow> ('d, 'e) client_loop \<Rightarrow> ('d, 'e) client_loop result" where
  "client_event_loop V M mem [] s = Inr s"
| "client_event_loop V M mem (ev # evs) s = bindR (client_event V M mem ev s) (client_event_loop V M mem evs)"

section \<open>The server\<close>

text \<open>\<open>sv_group\<close> is \<open>ctx_group\<close>, by connection number; \<open>sv_sync\<close> counts the started
  synchronising threads, \<open>sv_closed\<close> keeps the devices of closed connections.\<close>

record 'd server_loop =
  sv_ids :: "nat \<Rightarrow> 'd cm_id"
  sv_group :: "nat list"
  sv_established :: "nat list"
  sv_threads :: nat
  sv_sync :: nat
  sv_closed :: "'d list"

fun server_post_receives :: "'d verbs \<Rightarrow> u64 \<Rightarrow> nat \<Rightarrow> 'd bctx \<Rightarrow> 'd bctx result" where
  "server_post_receives V cm_id 0 c = Inr c"
| "server_post_receives V cm_id (Suc n) c = bindR (server_post_receive V cm_id c) (server_post_receives V cm_id n)"

definition server_on_pre_conn ::
  "'d verbs \<Rightarrow> u64 \<Rightarrow> (nat \<Rightarrow> u8) \<Rightarrow> message list \<Rightarrow> 'd bctx \<Rightarrow> 'd bctx result" where
  "server_on_pre_conn V cm_id bytes msgs c =
     register_region V register_buf_size c (\<lambda>addr mr lkey rkey c1.
     register_region V (sizeof_message * MAX_DATA_IN_FLIGHT)
       (c1\<lparr>c_buffer := bytes, c_buffer_addr := addr, c_buffer_mr := mr, c_buffer_lkey := lkey,
          c_buffer_rkey := rkey\<rparr>) (\<lambda>addr mr lkey rkey c2.
     server_post_receives V cm_id MAX_DATA_IN_FLIGHT
       (c2\<lparr>c_msg := take MAX_DATA_IN_FLIGHT msgs, c_msg_addr := addr, c_msg_mr := mr, c_msg_lkey := lkey\<rparr>)))"

text \<open>The server's \<open>build_context\<close>: the queues of a new connection, its thread, and, with the
  fifteenth connection, the thread that synchronises them. A context that the id already had is
  set up again.\<close>

definition server_build_context ::
  "'d verbs \<Rightarrow> 'd fresh_memory \<Rightarrow> nat \<Rightarrow> 'd server_loop \<Rightarrow> 'd server_loop result" where
  "server_build_context V mem n s =
     bindR (build_context V (fm_ctx mem) (fm_dev mem) (sv_ids s n)) (\<lambda>i.
     bindR (with_context i (\<lambda>c. Inr (c\<lparr>c_q1 := bq_new, c_q2 := bq_new\<rparr>))) (\<lambda>i1.
     let group = sv_group s @ [n] in
     Inr (s\<lparr>sv_ids := (sv_ids s)(n := i1), sv_group := group, sv_threads := Suc (sv_threads s),
           sv_sync := sv_sync s + (if length group = 15 then 1 else 0)\<rparr>)))"

definition server_build_connection ::
  "'d verbs \<Rightarrow> 'd fresh_memory \<Rightarrow> nat \<Rightarrow> 'd server_loop \<Rightarrow> 'd server_loop result" where
  "server_build_connection V mem n s =
     bindR (server_build_context V mem n s) (\<lambda>s1.
     bindR (build_qp_attr (sv_ids s1 n)) (\<lambda>qp_attr.
     bindR (with_context (sv_ids s1 n) (\<lambda>c.
       let (qp, qpn, d) = ibv_create_qp V (c_dev c) (c_pd c) (qi_cq qp_attr) (qi_sig_all qp_attr) in
       if qp = 0 then rc_die else Inr (c\<lparr>c_qp := qp, c_dev := d\<rparr>))) (\<lambda>i.
     Inr (s1\<lparr>sv_ids := (sv_ids s1)(n := i)\<rparr>))))"

text \<open>An event of the connection with number \<open>n\<close>.\<close>

definition server_event ::
  "'d verbs \<Rightarrow> 'e rdma_cm \<Rightarrow> 'd fresh_memory \<Rightarrow> cm_event \<times> nat \<Rightarrow> 'd server_loop \<times> 'e \<Rightarrow> ('d server_loop \<times> 'e) result" where
  "server_event V M mem ev s0 =
     (let (s, e) = s0; n = snd ev in
      case fst ev of
        CONNECT_REQUEST \<Rightarrow>
          bindR (server_build_connection V mem n s) (\<lambda>s1.
          bindR (with_context (sv_ids s1 n)
            (server_on_pre_conn V (word_of_nat n) (fm_bytes mem) (fm_msgs mem))) (\<lambda>i.
          test_nz (rdma_accept M e build_params) (\<lambda>e'. Inr (s1\<lparr>sv_ids := (sv_ids s1)(n := i)\<rparr>, e'))))
      | ESTABLISHED \<Rightarrow>
          bindR (with_context (sv_ids s n) (server_on_connection V)) (\<lambda>i.
          Inr (s\<lparr>sv_ids := (sv_ids s)(n := i), sv_established := sv_established s @ [n]\<rparr>, e))
      | DISCONNECTED \<Rightarrow>
          (case id_context (sv_ids s n) of
             None \<Rightarrow> Inl OutOfBounds
           | Some c \<Rightarrow>
               Inr (s\<lparr>sv_ids := (sv_ids s)(n := (sv_ids s n)\<lparr>id_context := None\<rparr>),
                      sv_closed := sv_closed s @ [bench_on_disconnect V c]\<rparr>,
                    rdma_destroy_id M (rdma_destroy_qp M e (id_qp (sv_ids s n)))))
      | _ \<Rightarrow> rc_die)"

fun server_event_loops ::
  "'d verbs \<Rightarrow> 'e rdma_cm \<Rightarrow> 'd fresh_memory \<Rightarrow> (cm_event \<times> nat) list \<Rightarrow> 'd server_loop \<times> 'e \<Rightarrow> ('d server_loop \<times> 'e) result" where
  "server_event_loops V M mem [] s = Inr s"
| "server_event_loops V M mem (ev # evs) s = bindR (server_event V M mem ev s) (server_event_loops V M mem evs)"

section \<open>Giving up\<close>

definition cm_works :: "'e rdma_cm \<Rightarrow> bool" where
  "cm_works M \<longleftrightarrow> (\<forall>e. fst (rdma_create_event_channel M e) \<noteq> 0) \<and> (\<forall>e. fst (rdma_create_id M e) = 0)
     \<and> (\<forall>e. fst (rdma_resolve_addr M e) = 0)"

lemma client_rejected_ok:
  assumes "cm_works M" and "cl_connect_count s < 3000"
  shows "\<exists>s'. client_rejected M s = Inr s' \<and> cl_connect_count s' = cl_connect_count s + 1"
  using assms by (simp add: client_rejected_def connect_timeout_def cm_works_def test_z_def test_nz_def Let_def
      del: neq0_conv bot_nat_0.not_eq_extremum)

lemma rejected_n:
  assumes "cm_works M"
  shows "cl_connect_count s + int n \<le> 3000 \<Longrightarrow>
    \<exists>s'. client_event_loop V M mem (replicate n REJECTED @ evs) s = client_event_loop V M mem evs s'
      \<and> cl_connect_count s' = cl_connect_count s + int n"
proof (induction n arbitrary: s)
  case (Suc n)
  obtain s1 where s1: "client_rejected M s = Inr s1" "cl_connect_count s1 = cl_connect_count s + 1"
    using client_rejected_ok [OF assms, of s] Suc.prems by auto
  then obtain s' where "client_event_loop V M mem (replicate n REJECTED @ evs) s1 = client_event_loop V M mem evs s'"
    "cl_connect_count s' = cl_connect_count s1 + int n"
    using Suc.IH [of s1] Suc.prems by auto
  with s1 show ?case by (auto simp: client_event_def)
qed auto

text \<open>
  A client that is rejected tries again for as long as it should: after up to 3000 rejections
  in a row it is still waiting for the next event, and the 3001st ends the process with status -1.
\<close>

theorem client_gives_up:
  assumes "cm_works M" and "cl_connect_count s = 0"
  shows "(n \<le> 3000 \<longleftrightarrow> (\<exists>s'. client_event_loop V M mem (replicate n REJECTED) s = Inr s'))
    \<and> (3000 < n \<longrightarrow> client_event_loop V M mem (replicate n REJECTED) s = Inl (Exit (- 1)))"
proof (cases "n \<le> 3000")
  case True
  then show ?thesis using rejected_n [OF assms(1), of s n V mem "[]"] assms(2) by auto
next
  case False
  obtain s' where s': "client_event_loop V M mem (replicate 3000 REJECTED @ replicate (n - 3000) REJECTED) s
      = client_event_loop V M mem (replicate (n - 3000) REJECTED) s'" "cl_connect_count s' = 3000"
    using rejected_n [OF assms(1), of s 3000 V mem] assms(2) by auto
  have "replicate n REJECTED = replicate 3000 REJECTED @ replicate (n - 3000) REJECTED"
    using False by (simp flip: replicate_add)
  moreover obtain m where "n - 3000 = Suc m" using False by (cases "n - 3000") auto
  ultimately show ?thesis using s' False
    by (auto simp: client_event_def client_rejected_def connect_timeout_def)
qed

definition working_cm :: "unit rdma_cm" where
  "working_cm = \<lparr>rdma_set_tos = (\<lambda>e. (0, e)), rdma_resolve_route = (\<lambda>e. (0, e)), rdma_connect = (\<lambda>e p. (0, e)),
     rdma_accept = (\<lambda>e p. (0, e)), rdma_destroy_qp = (\<lambda>e q. e), rdma_destroy_id = (\<lambda>e. e),
     rdma_destroy_event_channel = (\<lambda>e. e), rdma_create_event_channel = (\<lambda>e. (1, e)),
     rdma_create_id = (\<lambda>e. (0, e)), rdma_resolve_addr = (\<lambda>e. (0, e))\<rparr>"

definition new_client :: "(unit, unit) client_loop" where
  "new_client = \<lparr>cl_id = \<lparr>id_verbs = 1, id_context = None, id_qp = 0\<rparr>, cl_connect_count = 0, cl_threads = 0, cl_cm = ()\<rparr>"

definition new_memory :: "unit fresh_memory" where
  "new_memory = \<lparr>fm_ctx = bench_example, fm_bytes = (\<lambda>i. 0), fm_msgs = replicate 128 message_zero, fm_dev = ()\<rparr>"

theorem client_gives_up_witness:
  "client_event_loop still_device working_cm new_memory (replicate 3001 REJECTED) new_client = Inl (Exit (- 1))"
  using client_gives_up [of working_cm new_client 3001 still_device new_memory]
  by (simp add: cm_works_def working_cm_def new_client_def)

end
