(* ===== verification/NetTool.thy ===== *)
theory NetTool
  imports CString
begin

text \<open>
  \<open>NetTool\<close> (networking\_service/include/utils/net\_util.h and
  rdma\_full\_mesh\_benchmark/NetUtil.hpp, which only lacks \<open>get_token_id\<close>): the local address
  of a node, from the network it is in. The addresses of the interfaces are a parameter, in the
  order \<open>getifaddrs\<close> lists them, as the text \<open>inet_ntop\<close> makes of them.
\<close>

section \<open>Addresses\<close>

fun split_dots :: "string \<Rightarrow> string list" where
  "split_dots [] = [[]]"
| "split_dots (c # s) =
     (if c = CHR ''.'' then [] # split_dots s
      else case split_dots s of p # ps \<Rightarrow> (c # p) # ps | [] \<Rightarrow> [[c]])"

text \<open>\<open>inet_addr\<close> of four numbers, the only form RCL passes, on a little-endian host: the first
  number is the lowest byte; all bits set is the answer for what is not an address.\<close>

definition inet_addr :: "string \<Rightarrow> u32" where
  "inet_addr s = (case map strtoul0 (split_dots s) of
     [a, b, c, d] \<Rightarrow> if a < 256 \<and> b < 256 \<and> c < 256 \<and> d < 256
       then word_of_nat (a + 256 * b + 65536 * c + 16777216 * d) else - 1
   | _ \<Rightarrow> - 1)"

definition dotted :: "nat \<Rightarrow> nat \<Rightarrow> nat \<Rightarrow> nat \<Rightarrow> string" where
  "dotted a b c d = dec a @ ''.'' @ dec b @ ''.'' @ dec c @ ''.'' @ dec d"

definition inet_ntoa :: "u32 \<Rightarrow> string" where
  "inet_ntoa w = (let n = unat w in
     dotted (n mod 256) (n div 256 mod 256) (n div 65536 mod 256) (n div 16777216))"

section \<open>\<open>NetTool\<close>\<close>

text \<open>\<open>ip\_\<close>: the address of the gateway without its last character. Shifts that C leaves undefined
  are \<open>OutOfBounds\<close>.\<close>

definition gateway_text :: "string \<Rightarrow> int \<Rightarrow> string result" where
  "gateway_text ip_prefix ip_prefix_length =
     (if ip_prefix_length < 1 \<or> 30 < ip_prefix_length then Inl OutOfBounds
      else let ip = inet_addr ip_prefix; len = nat ip_prefix_length;
               ip_local = drop_bit (32 - len) (push_bit (32 - len) ip);
               gtway = ip_local + push_bit len 1 in
        Inr (butlast (inet_ntoa gtway)))"

text \<open>An interface whose address starts as the prefix does gives the node its number, the last one
  if there are several; text past the end of an address is uninitialised.\<close>

fun scan_interfaces :: "string \<Rightarrow> nat \<Rightarrow> string list \<Rightarrow> int \<Rightarrow> int result" where
  "scan_interfaces ip_prefix n [] node_id = Inr node_id"
| "scan_interfaces ip_prefix n (addr # addrs) node_id =
     (if take n addr = take n ip_prefix
      then if length addr < n then Inl OutOfBounds else scan_interfaces ip_prefix n addrs (atoi (drop n addr))
      else scan_interfaces ip_prefix n addrs node_id)"

definition get_node_id :: "string list \<Rightarrow> string \<Rightarrow> int \<Rightarrow> int result" where
  "get_node_id addrs ip_prefix ip_prefix_length =
     bindR (gateway_text ip_prefix ip_prefix_length) (\<lambda>gw. scan_interfaces ip_prefix (length gw) addrs (- 1))"

definition get_ip :: "string list \<Rightarrow> string \<Rightarrow> int \<Rightarrow> string result" where
  "get_ip addrs ip_prefix ip_prefix_length =
     bindR (gateway_text ip_prefix ip_prefix_length) (\<lambda>gw.
     bindR (get_node_id addrs ip_prefix ip_prefix_length) (\<lambda>node_id.
       if length ip_prefix < length gw - 1 then Inl OutOfBounds
       else Inr (take (length gw - 1) ip_prefix @ ''.'' @ to_string node_id)))"

text \<open>\<open>sscanf\<close> with four numbers and dots between them; if it stops before the fourth, the answer
  is uninitialised.\<close>

definition decimal_digit :: "char \<Rightarrow> bool" where
  "decimal_digit c = (case digit_val c of None \<Rightarrow> False | Some d \<Rightarrow> d < 10)"

definition scan_int :: "string \<Rightarrow> (int \<times> string) option" where
  "scan_int s = (let (neg, ds) = split_sign s in
     if ds = [] \<or> \<not> decimal_digit (hd ds) then None else Some (atoi s, dropWhile decimal_digit ds))"

definition scan_int_dot :: "string \<Rightarrow> string option" where
  "scan_int_dot s = (case scan_int s of
     Some (_, c # rest) \<Rightarrow> if c = CHR ''.'' then Some rest else None | _ \<Rightarrow> None)"

definition get_token_id :: "string \<Rightarrow> int result" where
  "get_token_id ip =
     (case Option.bind (Option.bind (Option.bind (scan_int_dot ip) scan_int_dot) scan_int_dot) scan_int of
        None \<Rightarrow> Inl OutOfBounds | Some (p4, _) \<Rightarrow> Inr p4)"

section \<open>Which address it finds\<close>

lemma dec_no_dot: "CHR ''.'' \<notin> set (dec n)"
proof (induction n rule: dec.induct)
  case (1 n)
  then show ?case using digit_char_neq [of n] digit_char_neq [of "n mod 10"] by (subst dec.simps) auto
qed

lemma split_dots_word: "CHR ''.'' \<notin> set p \<Longrightarrow> split_dots p = [p]"
  by (induction p) auto

lemma split_dots_part: "CHR ''.'' \<notin> set p \<Longrightarrow> split_dots (p @ CHR ''.'' # s) = p # split_dots s"
  by (induction p) auto

lemma dot_inj:
  "u @ CHR ''.'' # s = v @ CHR ''.'' # t \<Longrightarrow> CHR ''.'' \<notin> set u \<Longrightarrow> CHR ''.'' \<notin> set v \<Longrightarrow> u = v \<and> s = t"
proof (induction u arbitrary: v)
  case Nil
  then show ?case by (cases v) auto
next
  case (Cons c u)
  then show ?case by (cases v) auto
qed

lemma dec_inj: "dec m = dec n \<Longrightarrow> m = n"
  by (metis scan_10_dec)

lemma inet_addr_dotted:
  assumes "a < 256" "b < 256" "c < 256" "d < 256"
  shows "inet_addr (dotted a b c d) = word_of_nat (a + 256 * b + 65536 * c + 16777216 * d)"
proof -
  have "split_dots (dotted a b c d) = [dec a, dec b, dec c, dec d]"
    using dec_no_dot by (simp add: dotted_def split_dots_part split_dots_word)
  with assms show ?thesis by (simp add: inet_addr_def strtoul0_dec)
qed

definition net_text :: "nat \<Rightarrow> nat \<Rightarrow> nat \<Rightarrow> string" where
  "net_text a b c = dec a @ ''.'' @ dec b @ ''.'' @ dec c @ ''.''"

lemma dotted_net: "dotted a b c d = net_text a b c @ dec d"
  by (simp add: dotted_def net_text_def)

lemma unat_push_8: "n < 2 ^ 32 \<Longrightarrow> unat (push_bit 8 (word_of_nat n) :: u32) = n * 256 mod 2 ^ 32"
  by (simp add: push_bit_eq_mult unat_word_ariths unsigned_of_nat take_bit_nat_eq_self)

lemma unat_drop_push_8:
  "n < 2 ^ 32 \<Longrightarrow> unat (drop_bit 8 (push_bit 8 (word_of_nat n)) :: u32) = n * 256 mod 2 ^ 32 div 256"
proof -
  assume n: "n < 2 ^ 32"
  show ?thesis unfolding unat_drop_bit_eq unat_push_8 [OF n] by (simp add: drop_bit_eq_div)
qed

lemma byte_split: "a < 256 \<Longrightarrow> (a + 256 * x) mod 256 = (a :: nat) \<and> (a + 256 * x) div 256 = x"
  by simp

lemma digit_char_1: "digit_char 1 = CHR ''1''"
proof -
  have "of_char (digit_char 1) = (of_char CHR ''1'' :: nat)" using of_char_digit [of 1] by simp
  then show ?thesis by (simp only: of_char_eq_iff)
qed

lemma dec_1: "dec 1 = ''1''"
  using digit_char_1 by (simp add: dec.simps)

lemma gateway_word:
  assumes "a < 256" "b < 256" "c < 256" "d < 256"
  shows "unat (drop_bit 8 (push_bit 8 (word_of_nat (a + 256 * b + 65536 * c + 16777216 * d))) + push_bit 24 1 :: u32)
    = a + 256 * b + 65536 * c + 16777216"
proof -
  let ?n = "a + 256 * b + 65536 * c + 16777216 * d" and ?m = "a + 256 * b + 65536 * c"
  have small: "?n < 2 ^ 32" "?m < 2 ^ 24" using assms by simp_all
  have "?n * 256 = ?m * 256 + d * 2 ^ 32" by simp
  then have "?n * 256 mod 2 ^ 32 = ?m * 256" using small(2) by (simp del: distrib_right_numeral add: mod_less)
  then have "unat (drop_bit 8 (push_bit 8 (word_of_nat ?n)) :: u32) = ?m"
    by (simp only: unat_drop_push_8 [OF small(1)]) simp
  moreover have "unat (push_bit 24 1 :: u32) = 16777216" by simp
  ultimately show ?thesis using small(2) by (simp only: unat_word_ariths) simp
qed

lemma gateway_text_24:
  assumes "a < 256" "b < 256" "c < 256" "d < 256"
  shows "gateway_text (dotted a b c d) 24 = Inr (net_text a b c)"
proof -
  let ?w = "drop_bit 8 (push_bit 8 (inet_addr (dotted a b c d))) + push_bit 24 1 :: u32"
  have w: "unat ?w = a + 256 * b + 65536 * c + 16777216"
    using gateway_word [OF assms] inet_addr_dotted [OF assms] by simp
  have "inet_ntoa ?w = dotted a b c 1"
  proof -
    let ?n = "a + 256 * (b + 256 * (c + 256 * 1))"
    have "?n div 65536 = ?n div 256 div 256" "?n div 16777216 = ?n div 256 div 256 div 256"
      by (simp_all flip: div_mult2_eq)
    then have "?n mod 256 = a" "?n div 256 mod 256 = b" "?n div 65536 mod 256 = c" "?n div 16777216 = 1"
      using byte_split [OF assms(1), of "b + 256 * (c + 256 * 1)"] byte_split [OF assms(2), of "c + 256 * 1"]
        byte_split [OF assms(3), of 1] by simp_all
    moreover have "a + 256 * b + 65536 * c + 16777216 = ?n" by simp
    ultimately show ?thesis unfolding inet_ntoa_def w Let_def by (simp only:)
  qed
  then show ?thesis by (simp add: gateway_text_def dotted_net butlast_append dec_1 [simplified])
qed

lemma in_network_iff:
  "take (length (net_text a b c)) (dotted x y z w) = net_text a b c \<longleftrightarrow> x = a \<and> y = b \<and> z = c"
proof
  assume "take (length (net_text a b c)) (dotted x y z w) = net_text a b c"
  then obtain r where "dotted x y z w = net_text a b c @ r" by (metis append_take_drop_id)
  then have e: "dec x @ CHR ''.'' # dec y @ CHR ''.'' # dec z @ CHR ''.'' # dec w
      = dec a @ CHR ''.'' # dec b @ CHR ''.'' # dec c @ CHR ''.'' # r"
    by (simp add: dotted_def net_text_def)
  note e1 = dot_inj [OF e dec_no_dot dec_no_dot]
  note e2 = dot_inj [OF conjunct2 [OF e1] dec_no_dot dec_no_dot]
  note e3 = dot_inj [OF conjunct2 [OF e2] dec_no_dot dec_no_dot]
  show "x = a \<and> y = b \<and> z = c" using e1 e2 e3 by (auto dest: dec_inj)
qed (simp add: dotted_net)

type_synonym address = "nat \<times> nat \<times> nat \<times> nat"

definition text_of :: "address \<Rightarrow> string" where
  "text_of ad = (case ad of (x, y, z, w) \<Rightarrow> dotted x y z w)"

definition in_network :: "nat \<Rightarrow> nat \<Rightarrow> nat \<Rightarrow> address \<Rightarrow> bool" where
  "in_network a b c ad = (case ad of (x, y, z, w) \<Rightarrow> x = a \<and> y = b \<and> z = c)"

definition host_number :: "address \<Rightarrow> nat" where
  "host_number ad = (case ad of (x, y, z, w) \<Rightarrow> w)"

lemma atoi_dec: "n < 256 \<Longrightarrow> atoi (dec n) = int n"
  using atoi_to_string [of "int n"] by (simp add: to_string_def)

lemma scan_interfaces_finds:
  assumes "\<forall>ad \<in> set ads. host_number ad < 256" and "take (length (net_text a b c)) p = net_text a b c"
  shows "scan_interfaces p (length (net_text a b c)) (map text_of ads) k
    = Inr (if filter (in_network a b c) ads = [] then k else int (host_number (last (filter (in_network a b c) ads))))"
  using assms(1)
proof (induction ads arbitrary: k)
  case (Cons ad ads)
  obtain x y z w where ad: "ad = (x, y, z, w)" by (cases ad)
  show ?case
  proof (cases "in_network a b c ad")
    case True
    then have "text_of ad = net_text a b c @ dec w" by (simp add: ad in_network_def text_of_def dotted_net)
    then show ?thesis using True Cons assms(2) by (simp add: ad host_number_def atoi_dec)
  next
    case False
    then have "take (length (net_text a b c)) (text_of ad) \<noteq> net_text a b c"
      using in_network_iff [of a b c x y z w] by (simp add: ad in_network_def text_of_def)
    then show ?thesis using False Cons assms(2) by simp
  qed
qed simp

lemma get_ip_text:
  assumes "a < 256" "b < 256" "c < 256" "d < 256" and "\<forall>ad \<in> set ads. host_number ad < 256"
  shows "get_ip (map text_of ads) (dotted a b c d) 24
    = Inr (case filter (in_network a b c) ads of [] \<Rightarrow> net_text a b c @ ''-1''
        | own \<Rightarrow> text_of (last own))"
proof -
  let ?own = "filter (in_network a b c) ads"
  have p: "take (length (net_text a b c)) (dotted a b c d) = net_text a b c" by (simp add: dotted_net)
  have net: "net_text a b c \<noteq> []" "take (length (net_text a b c) - 1) (dotted a b c d) @ ''.'' = net_text a b c"
    by (simp_all add: net_text_def dotted_def)
  have get: "get_ip (map text_of ads) (dotted a b c d) 24
      = Inr (net_text a b c @ to_string (if ?own = [] then - 1 else int (host_number (last ?own))))"
    using scan_interfaces_finds [OF assms(5) p, of "- 1"] net gateway_text_24 [OF assms(1-4)]
    by (simp add: get_ip_def get_node_id_def) (simp add: dotted_net flip: append_assoc)
  show ?thesis
  proof (cases ?own)
    case Nil
    moreover have "to_string (- 1) = ''-1''" using dec_1 by (simp add: to_string_def)
    ultimately show ?thesis using get by simp
  next
    case (Cons ad own)
    then have "last ?own \<in> set ?own" by (metis last_in_set list.distinct(1))
    then have "in_network a b c (last ?own)" by simp
    then have "text_of (last ?own) = net_text a b c @ to_string (int (host_number (last ?own)))"
      by (cases "last ?own") (simp add: in_network_def text_of_def host_number_def dotted_net to_string_def)
    then show ?thesis using get Cons by simp
  qed
qed

text \<open>
  The local address: in a network whose first three numbers are given, \<open>get_ip\<close> answers the
  address of the node's last interface in that network, unchanged; a node without one gets the
  text of the network with \<open>-1\<close> for its number.
\<close>

theorem get_ip_finds_interface:
  assumes "a < 256" "b < 256" "c < 256" "d < 256" and "\<forall>ad \<in> set ads. host_number ad < 256"
  shows "get_ip (map text_of ads) (dotted a b c d) 24
    = Inr (case filter (in_network a b c) ads of [] \<Rightarrow> net_text a b c @ ''-1''
        | own \<Rightarrow> text_of (last own))"
  by (rule get_ip_text [OF assms])

theorem get_ip_finds_interface_witness:
  "get_ip (map text_of [(127, 0, 0, 1), (12, 12, 12, 107), (10, 0, 0, 7)]) (dotted 12 12 12 111) 24 = Inr (dotted 12 12 12 107)"
  using get_ip_finds_interface [of 12 12 12 111 "[(127, 0, 0, 1), (12, 12, 12, 107), (10, 0, 0, 7)]"]
  by (simp add: host_number_def in_network_def text_of_def)

end
