(* ===== verification/BenchMain.thy ===== *)
theory BenchMain
  imports BenchCm NetTool
begin

text \<open>
  The outside of the full mesh benchmark (rdma\_full\_mesh\_benchmark/RDMABenchmark.cpp, and the
  set-up and the completion threads of RDMAServer.cpp and RDMAClient.cpp): what the program
  starts for its arguments, how a server and a client get to their event loops, and the threads
  that poll. What the polls answer and the connection events are given as lists; the loops that
  only sleep or print are left out.
\<close>

section \<open>Completion threads\<close>

text \<open>\<open>RDMAServer::poll_cq\<close>: the loop that runs answers every block when it is told to; \<open>None\<close> while
  it waits for that. It has no end, so the loop in batches after it is never reached.\<close>

fun server_wcs :: "'d verbs \<Rightarrow> u64 \<Rightarrow> bwc list \<Rightarrow> 'd bctx \<Rightarrow> 'd bctx result option" where
  "server_wcs V cm_id [] c = Some (Inr c)"
| "server_wcs V cm_id (wc # wcs) c = (case server_wc V cm_id wc c of
     None \<Rightarrow> None | Some (Inl e) \<Rightarrow> Some (Inl e) | Some (Inr c') \<Rightarrow> server_wcs V cm_id wcs c')"

fun server_polls :: "'d verbs \<Rightarrow> u64 \<Rightarrow> (int \<times> bwc list) list \<Rightarrow> 'd bctx \<Rightarrow> 'd bctx result option" where
  "server_polls V cm_id [] c = Some (Inr c)"
| "server_polls V cm_id ((nc, wcs) # polls) c =
     (if nc < 0 then Some (Inl LogFatal)
      else if nc = 0 then server_polls V cm_id polls c
      else case server_wcs V cm_id wcs c of
        None \<Rightarrow> None | Some (Inl e) \<Rightarrow> Some (Inl e) | Some (Inr c') \<Rightarrow> server_polls V cm_id polls c')"

definition server_poll_cq :: "'d verbs \<Rightarrow> u64 \<Rightarrow> (int \<times> bwc list) list \<Rightarrow> 'd cm_id \<Rightarrow> 'd bctx result option" where
  "server_poll_cq V cm_id polls i = (case id_context i of
     None \<Rightarrow> Some (Inl (Exit (- 1)))
   | Some c \<Rightarrow> (case bench_wait_event V c of Inl e \<Rightarrow> Some (Inl e) | Inr c' \<Rightarrow> server_polls V cm_id polls c'))"

text \<open>The loop in batches: after an event, polls until one answers no completion; then the open batch
  is sent.\<close>

fun batch_polls :: "'d verbs \<Rightarrow> (int \<times> bwc list) list \<Rightarrow> int \<times> 'd bctx \<Rightarrow> (int \<times> 'd bctx) result" where
  "batch_polls V [] s = Inr s"
| "batch_polls V ((nc, wcs) # polls) s =
     bindR (batch_wcs V wcs s) (\<lambda>s'. if nc > 0 then batch_polls V polls s' else Inr s')"

definition batch_event :: "'d verbs \<Rightarrow> (int \<times> bwc list) list \<Rightarrow> 'd bctx \<Rightarrow> 'd bctx result" where
  "batch_event V polls c =
     bindR (bench_wait_event V c) (\<lambda>c1. bindR (batch_polls V polls (- 1, c1)) (\<lambda>(echo, c2).
       if echo \<ge> 0 then close_batch V echo c2 else Inr c2))"

text \<open>The loop of the client over the acknowledged chunks, which its endless first loop hides too.\<close>

fun chunk_wcs ::
  "'d verbs \<Rightarrow> ('d \<Rightarrow> 'd) \<Rightarrow> string \<Rightarrow> bwc list \<Rightarrow> 'd bctx \<Rightarrow> 'd bctx result" where
  "chunk_wcs V disconnect client_ip [] c = Inr c"
| "chunk_wcs V disconnect client_ip (wc # wcs) c =
     (if wc_status wc \<noteq> 0 then rc_die else bindR (client_on_completion V disconnect client_ip wc c) (chunk_wcs V disconnect client_ip wcs))"

fun chunk_polls ::
  "'d verbs \<Rightarrow> ('d \<Rightarrow> 'd) \<Rightarrow> string \<Rightarrow> (int \<times> bwc list) list \<Rightarrow> 'd bctx \<Rightarrow> 'd bctx result" where
  "chunk_polls V disconnect client_ip [] c = Inr c"
| "chunk_polls V disconnect client_ip ((nc, wcs) # polls) c =
     bindR (chunk_wcs V disconnect client_ip wcs c) (\<lambda>c'. if nc > 0 then chunk_polls V disconnect client_ip polls c' else Inr c')"

definition client_chunk_event ::
  "'d verbs \<Rightarrow> ('d \<Rightarrow> 'd) \<Rightarrow> string \<Rightarrow> (int \<times> bwc list) list \<Rightarrow> 'd bctx \<Rightarrow> 'd bctx result" where
  "client_chunk_event V disconnect client_ip polls c = bindR (bench_wait_event V c) (chunk_polls V disconnect client_ip polls)"

section \<open>Set-up\<close>

text \<open>\<open>RDMAAdapter\<close> of the benchmark: where to listen or connect to.\<close>

record bench_adapter =
  ba_port :: u16
  ba_server_ip :: string
  ba_client_ip :: string

definition bench_adapter_new :: bench_adapter where
  "bench_adapter_new = \<lparr>ba_port = 12345, ba_server_ip = [], ba_client_ip = []\<rparr>"

definition set_server_ip :: "string \<Rightarrow> bench_adapter \<Rightarrow> bench_adapter" where
  "set_server_ip ip a = a\<lparr>ba_server_ip := ip\<rparr>"

definition set_client_ip :: "string \<Rightarrow> bench_adapter \<Rightarrow> bench_adapter" where
  "set_client_ip ip a = a\<lparr>ba_client_ip := ip\<rparr>"

record 'e rdma_listener = "'e rdma_cm" +
  rdma_bind_addr :: "'e \<Rightarrow> u16 \<Rightarrow> int \<times> 'e"
  rdma_listen :: "'e \<Rightarrow> int \<Rightarrow> int \<times> 'e"

text \<open>The server listens and starts the thread of its event loop; the client resolves its server's
  address and runs its event loop itself.\<close>

definition bench_server_init :: "'e rdma_listener \<Rightarrow> bench_adapter \<Rightarrow> 'e \<Rightarrow> 'e result" where
  "bench_server_init L a e =
     test_z (rdma_create_event_channel L e) (\<lambda>ec e1. test_nz (rdma_create_id L e1) (\<lambda>e2.
     test_nz (rdma_bind_addr L e2 (ba_port a)) (\<lambda>e3. test_nz (rdma_listen L e3 100) Inr)))"

definition bench_client_init ::
  "'d verbs \<Rightarrow> 'e rdma_cm \<Rightarrow> 'd fresh_memory \<Rightarrow> 'd bctx option \<Rightarrow> nat \<Rightarrow> cm_event list \<Rightarrow> 'e \<Rightarrow> ('d, 'e) client_loop result" where
  "bench_client_init V M mem ctx verbs evs e =
     test_z (rdma_create_event_channel M e) (\<lambda>ec e1. test_nz (rdma_create_id M e1) (\<lambda>e2.
     test_nz (rdma_resolve_addr M e2) (\<lambda>e3.
       client_event_loop V M mem evs \<lparr>cl_id = \<lparr>id_verbs = verbs, id_context = ctx, id_qp = 0\<rparr>,
         cl_connect_count = 0, cl_threads = 0, cl_cm = e3\<rparr>)))"

section \<open>The program\<close>

text \<open>What \<open>main\<close> starts: a server, or a client with its adapter.\<close>

datatype launch = Launch_Server bench_adapter | Launch_Client bench_adapter

definition server_functions :: "string list \<Rightarrow> launch list" where
  "server_functions ip = [Launch_Server (set_server_ip ''0.0.0.0'' bench_adapter_new)]"

definition client_of :: "string \<Rightarrow> string \<Rightarrow> launch" where
  "client_of server_ip lip = Launch_Client (set_client_ip lip (set_server_ip server_ip bench_adapter_new))"

text \<open>The first address is the node's own; without one the access is undefined.\<close>

definition client_functions :: "string list \<Rightarrow> launch list result" where
  "client_functions ip = bindR (at ip 0) (\<lambda>lip. Inr (map (\<lambda>server_ip. client_of server_ip lip) (drop 1 ip)))"

text \<open>\<open>args\<close> are the arguments after the name of the program, \<open>addrs\<close> the addresses of the node.\<close>

definition bench_main :: "string list \<Rightarrow> string list \<Rightarrow> launch list result" where
  "bench_main addrs args = (case args of
     [] \<Rightarrow> Inr []
   | mode # rest \<Rightarrow>
       if mode = ''--server'' then Inr (server_functions [])
       else if mode = ''--client''
       then bindR (get_ip addrs ''12.12.12.101'' 24) (\<lambda>localip.
            bindR (at rest 0) (\<lambda>server_ip. Inr [client_of server_ip localip]))
       else if mode = ''--cluster''
       then bindR (get_ip addrs ''12.12.12.101'' 24) (\<lambda>localip.
            let ip_address = localip # filter (\<lambda>ip. localip \<noteq> ip) rest in
            bindR (client_functions ip_address) (\<lambda>clients. Inr (server_functions ip_address @ clients)))
       else Inr [])"

text \<open>\<open>single_benchmark\<close>, which nothing calls: \<open>setup\<close> does not return, so that the cases do not
  fall through.\<close>

definition single_benchmark :: "string list \<Rightarrow> launch list result" where
  "single_benchmark argv =
     (if length argv = 3 then bindR (at argv 2) (\<lambda>ip. Inr [Launch_Server (set_server_ip ip bench_adapter_new)])
      else if length argv = 5
      then bindR (at argv 2) (\<lambda>s. bindR (at argv 4) (\<lambda>c. Inr [client_of s c]))
      else Inl (Exit (- 1)))"

section \<open>The full mesh\<close>

lemma dec_two_digits: "10 \<le> n \<Longrightarrow> n < 100 \<Longrightarrow> dec n = [digit_char (n div 10), digit_char (n mod 10)]"
proof -
  assume n: "10 \<le> n" "n < 100"
  then have "n div 10 < 10" "\<not> n < 10" by (simp_all add: div_less_iff_less_mult)
  then show ?thesis by (simp add: dec.simps [of n] dec.simps [of "n div 10"])
qed

lemma digit_char_values:
  "digit_char 0 = CHR ''0''" "digit_char 1 = CHR ''1''" "digit_char 2 = CHR ''2''"
proof -
  have "of_char (digit_char 0) = (of_char CHR ''0'' :: nat)" "of_char (digit_char 2) = (of_char CHR ''2'' :: nat)"
    using of_char_digit [of 0] of_char_digit [of 2] by simp_all
  then show "digit_char 0 = CHR ''0''" "digit_char 1 = CHR ''1''" "digit_char 2 = CHR ''2''"
    using digit_char_1 by (simp_all only: of_char_eq_iff)
qed

lemma network_literal: "''12.12.12.101'' = dotted 12 12 12 101"
proof -
  have "dec 12 = ''12''" using dec_two_digits [of 12] digit_char_values by simp
  moreover have "dec 101 = ''101''"
    using digit_char_values dec_two_digits [of 10] by (simp add: dec.simps [of 101])
  ultimately show ?thesis by (simp add: dotted_def)
qed

lemma dotted_inj: "dotted a b c x = dotted a b c y \<longleftrightarrow> x = y"
  by (auto simp: dotted_net dest: dec_inj)

lemma client_of_eq: "client_of s l = client_of s' l' \<longleftrightarrow> s = s' \<and> l = l'"
  by (simp add: client_of_def set_client_ip_def set_server_ip_def bench_adapter_new_def)

lemma count_filter_map:
  "inj f \<Longrightarrow> distinct xs \<Longrightarrow> x \<in> set xs \<Longrightarrow> count_list (map f (filter P xs)) (f x) = (if P x then 1 else 0)"
  by (induction xs) (auto simp: inj_eq count_list_0_iff)

text \<open>
  C37. A cluster is a full mesh: when every node is started with the addresses of all nodes and has one
  interface in their network, each node starts one server and exactly one client towards every
  other node, under its own address, and none towards itself.
\<close>

theorem cluster_is_full_mesh:
  assumes "distinct hs" and "\<forall>h \<in> set hs. h < 256"
    and "\<forall>h \<in> set hs. filter (in_network 12 12 12) (ads h) = [(12, 12, 12, h)]"
    and "\<forall>h \<in> set hs. \<forall>ad \<in> set (ads h). host_number ad < 256" and "h \<in> set hs"
  shows "\<exists>clients. bench_main (map text_of (ads h)) (''--cluster'' # map (dotted 12 12 12) hs)
      = Inr (Launch_Server (set_server_ip ''0.0.0.0'' bench_adapter_new) # clients)
    \<and> length clients = length hs - 1
    \<and> (\<forall>h' \<in> set hs. count_list clients (client_of (dotted 12 12 12 h') (dotted 12 12 12 h)) = (if h' = h then 0 else 1))"
proof -
  let ?own = "dotted 12 12 12 h" and ?others = "filter (\<lambda>h'. h' \<noteq> h) hs"
  let ?clients = "map (\<lambda>h'. client_of (dotted 12 12 12 h') ?own) ?others"
  have ip: "get_ip (map text_of (ads h)) ''12.12.12.101'' 24 = Inr ?own"
    using get_ip_text [of 12 12 12 101 "ads h"] assms(3-5) unfolding network_literal by (simp add: text_of_def)
  have "filter (\<lambda>ip. ?own \<noteq> ip) (map (dotted 12 12 12) hs) = map (dotted 12 12 12) ?others"
    by (induction hs) (auto simp: dotted_inj)
  then have "bench_main (map text_of (ads h)) (''--cluster'' # map (dotted 12 12 12) hs)
      = Inr (Launch_Server (set_server_ip ''0.0.0.0'' bench_adapter_new) # ?clients)"
    using ip by (simp add: bench_main_def server_functions_def client_functions_def)
  moreover have "length ?clients = length hs - 1"
    using assms(1,5) distinct_remove1_removeAll [OF assms(1), of h] length_remove1 [of h hs]
    by (simp add: removeAll_filter_not_eq eq_commute)
  moreover have "inj (\<lambda>h'. client_of (dotted 12 12 12 h') ?own)" by (simp add: inj_def client_of_eq dotted_inj)
  then have "\<forall>h' \<in> set hs. count_list ?clients (client_of (dotted 12 12 12 h') ?own) = (if h' = h then 0 else 1)"
    using count_filter_map [OF _ assms(1), of "\<lambda>h'. client_of (dotted 12 12 12 h') ?own"] by auto
  ultimately show ?thesis by blast
qed

theorem cluster_is_full_mesh_witness:
  "\<exists>clients. bench_main (map text_of [(127, 0, 0, 1), (12, 12, 12, 7)]) (''--cluster'' # map (dotted 12 12 12) [5, 7, 9])
      = Inr (Launch_Server (set_server_ip ''0.0.0.0'' bench_adapter_new) # clients) \<and> length clients = 2"
  using cluster_is_full_mesh [of "[5, 7, 9]" "\<lambda>h. [(127, 0, 0, 1), (12, 12, 12, h)]" 7]
  by (auto simp: in_network_def host_number_def)

end
