(* ===== verification/DestMessage.thy ===== *)
theory DestMessage
  imports Verbs
begin

text \<open>
  The text in which two new\_rdma sessions tell each other where their queue pairs are: the
  message "LID:QPN:PSN:GID" of \<open>connect_active\<close> and \<open>connect_passive\<close> (new\_rdma/src/rdma\_session.cpp)
  with \<open>gid_to_wire_gid\<close> and \<open>wire_gid_to_gid\<close> (new\_rdma/include/rdma\_adapter.h), and the
  conversions of \<open>printf\<close> and \<open>scanf\<close> they use. A conversion that does not match leaves its
  variable uninitialised; the model stops there with \<open>OutOfBounds\<close>, its value for undefined
  behaviour.
\<close>

section \<open>Hexadecimal numbers\<close>

definition hex_char :: "nat \<Rightarrow> char" where
  "hex_char d = ''0123456789abcdef'' ! d"

function hex :: "nat \<Rightarrow> string" where
  "hex n = (if n < 16 then [hex_char n] else hex (n div 16) @ [hex_char (n mod 16)])"
  by pat_completeness auto
termination by (relation "measure id") auto

declare hex.simps [simp del]

text \<open>The conversion \<open>%0kx\<close>.\<close>

definition print_hex :: "nat \<Rightarrow> nat \<Rightarrow> string" where
  "print_hex k n = replicate (k - length (hex n)) CHR ''0'' @ hex n"

definition hex_val :: "char \<Rightarrow> nat option" where
  "hex_val c = (case digit_val c of None \<Rightarrow> None | Some d \<Rightarrow> if d < 16 then Some d else None)"

fun scan_hex :: "nat \<Rightarrow> string \<Rightarrow> nat \<times> string" where
  "scan_hex acc [] = (acc, [])"
| "scan_hex acc (c # cs) = (case hex_val c of None \<Rightarrow> (acc, c # cs) | Some d \<Rightarrow> scan_hex (acc * 16 + d) cs)"

text \<open>The conversion \<open>%x\<close> of \<open>scanf\<close>: white space, a sign and \<open>0x\<close> may come first; the value
  saturates in 64 bits and is stored in 32.\<close>

definition skip_0x :: "string \<Rightarrow> string" where
  "skip_0x s = (case s of
       z # x # h # rest \<Rightarrow> if z = CHR ''0'' \<and> (x = CHR ''x'' \<or> x = CHR ''X'') \<and> hex_val h \<noteq> None then h # rest else s
     | _ \<Rightarrow> s)"

definition scan_x :: "string \<Rightarrow> (u32 \<times> string) option" where
  "scan_x s = (let (neg, ds) = split_sign s; ds' = skip_0x ds in
     if ds' = [] \<or> hex_val (hd ds') = None then None
     else let (v, rest) = scan_hex 0 ds' in
       Some (if 2 ^ 64 \<le> v then - 1 else if neg then - word_of_nat v else word_of_nat v, rest))"

definition literal :: "char \<Rightarrow> string \<Rightarrow> string option" where
  "literal c s = (case s of [] \<Rightarrow> None | x # rest \<Rightarrow> if x = c then Some rest else None)"

section \<open>Gids\<close>

text \<open>Four numbers, each read from or stored to memory in the byte order of the host.\<close>

definition gid_word :: "u8 list \<Rightarrow> nat \<Rightarrow> u32" where
  "gid_word raw i = word_of_nat (nat_of_le (take 4 (drop (i * 4) raw)))"

definition gid_to_wire_gid :: "u8 list \<Rightarrow> string" where
  "gid_to_wire_gid raw = concat (map (\<lambda>i. print_hex 8 (unat (htonl (gid_word raw i)))) [0, 1, 2, 3])"

definition wire_word :: "string \<Rightarrow> nat \<Rightarrow> u8 list result" where
  "wire_word wgid i =
     (if length wgid < (i + 1) * 8 then Inl OutOfBounds
      else case scan_x (take 8 (drop (i * 8) wgid)) of
        None \<Rightarrow> Inl OutOfBounds
      | Some (v32, rest) \<Rightarrow> Inr (le_bytes 4 (unat (htonl v32))))"

definition wire_gid_to_gid :: "string \<Rightarrow> u8 list result" where
  "wire_gid_to_gid wgid =
     bindR (wire_word wgid 0) (\<lambda>b0. bindR (wire_word wgid 1) (\<lambda>b1.
     bindR (wire_word wgid 2) (\<lambda>b2. bindR (wire_word wgid 3) (\<lambda>b3. Inr (b0 @ b1 @ b2 @ b3)))))"

section \<open>Destinations\<close>

record dest =
  d_lid :: u32
  d_qpn :: u32
  d_psn :: u32
  d_gid :: "u8 list"

definition dest_size :: nat where "dest_size = 52"

text \<open>The array sent; a text that is too long for it is written past its end.\<close>

definition format_dest :: "dest \<Rightarrow> u8 list result" where
  "format_dest d =
     (let txt = print_hex 4 (unat (d_lid d)) @ '':'' @ print_hex 6 (unat (d_qpn d)) @ '':''
            @ print_hex 6 (unat (d_psn d)) @ '':'' @ gid_to_wire_gid (d_gid d) in
      if dest_size < length txt + 1 then Inl OutOfBounds
      else Inr (map of_char txt @ replicate (dest_size - length txt) 0))"

definition c_string :: "u8 list \<Rightarrow> string result" where
  "c_string bs = (if 0 \<in> set bs then Inr (map (\<lambda>b. char_of (unat b)) (takeWhile (\<lambda>b. b \<noteq> 0) bs)) else Inl OutOfBounds)"

definition scan_field :: "string \<Rightarrow> (u32 \<times> string) result" where
  "scan_field s = (case scan_x s of None \<Rightarrow> Inl OutOfBounds
     | Some (v, rest) \<Rightarrow> (case literal CHR '':'' rest of None \<Rightarrow> Inl OutOfBounds | Some rest' \<Rightarrow> Inr (v, rest')))"

definition parse_dest :: "u8 list \<Rightarrow> dest result" where
  "parse_dest bs =
     bindR (c_string bs) (\<lambda>s0. bindR (scan_field s0) (\<lambda>(lid, s1). bindR (scan_field s1) (\<lambda>(qpn, s2).
     bindR (scan_field s2) (\<lambda>(psn, s3).
       let wgid = takeWhile (\<lambda>c. \<not> is_space c) (dropWhile is_space s3) in
       if wgid = [] \<or> 32 < length wgid then Inl OutOfBounds
       else bindR (wire_gid_to_gid wgid) (\<lambda>gid.
         Inr \<lparr>d_lid = lid, d_qpn = qpn, d_psn = psn, d_gid = gid\<rparr>)))))"

section \<open>The message is read as it was written\<close>

fun hex_fixed :: "nat \<Rightarrow> nat \<Rightarrow> string" where
  "hex_fixed 0 n = []"
| "hex_fixed (Suc k) n = hex_fixed k (n div 16) @ [hex_char (n mod 16)]"

lemma length_hex_fixed [simp]: "length (hex_fixed k n) = k"
  by (induction k arbitrary: n) simp_all

lemma print_hex_fixed:
  assumes "n < 16 ^ k" and "0 < k"
  shows "print_hex k n = hex_fixed k n"
  using assms
proof (induction k arbitrary: n)
  case (Suc k)
  show ?case
  proof (cases "n < 16")
    case True
    have "hex_fixed k 0 = replicate k CHR ''0''"
    proof (induction k)
      case (Suc k)
      have "hex_char 0 = CHR ''0''" by (simp add: hex_char_def)
      with Suc show ?case by (simp add: replicate_append_same)
    qed simp
    with True show ?thesis by (simp add: print_hex_def hex.simps [of n])
  next
    case False
    with Suc.prems have k: "0 < k" "n div 16 < 16 ^ k"
      by (cases k; simp)+
    then have "print_hex k (n div 16) = hex_fixed k (n div 16)" by (intro Suc.IH)
    with False show ?thesis by (simp add: print_hex_def hex.simps [of n])
  qed
qed simp

lemma hex_char_facts:
  assumes "d < 16"
  shows "hex_val (hex_char d) = Some d" and "\<not> is_space (hex_char d)" and "hex_char d \<noteq> CHR ''-''"
    and "hex_char d \<noteq> CHR ''+''" and "hex_char d \<noteq> CHR ''x''" and "hex_char d \<noteq> CHR ''X''" and "of_char (hex_char d) \<noteq> (0 :: u8)"
proof -
  have d: "d \<in> {0, 1, 2, 3, 4, 5, 6, 7, 8, 9, 10, 11, 12, 13, 14, 15}" using assms by simp presburger
  then show "hex_val (hex_char d) = Some d" "\<not> is_space (hex_char d)" "hex_char d \<noteq> CHR ''-''" "hex_char d \<noteq> CHR ''+''"
    "hex_char d \<noteq> CHR ''x''" "hex_char d \<noteq> CHR ''X''" "of_char (hex_char d) \<noteq> (0 :: u8)"
    by (insert d, elim insertE emptyE; simp add: hex_char_def hex_val_def digit_val_def is_space_def)+
qed

lemma scan_hex_fixed:
  assumes "n < 16 ^ k" and "rest = [] \<or> hex_val (hd rest) = None"
  shows "scan_hex acc (hex_fixed k n @ rest) = (acc * 16 ^ k + n, rest)"
  using assms
proof (induction k arbitrary: n acc rest)
  case 0
  then show ?case by (cases rest) auto
next
  case (Suc k)
  have app: "scan_hex acc (xs @ [hex_char d] @ rest) = scan_hex (fst (scan_hex acc (xs @ [])) * 16 + d) rest"
    if "d < 16" "\<forall>x \<in> set xs. hex_val x \<noteq> None" for acc xs d
    using that
  proof (induction xs arbitrary: acc)
    case Nil
    then show ?case using hex_char_facts(1) [of d] by simp
  qed auto
  have digits: "\<forall>x \<in> set (hex_fixed j m). hex_val x \<noteq> None" for j m
    by (induction j arbitrary: m) (auto simp: hex_char_facts(1))
  have "scan_hex acc (hex_fixed k (n div 16) @ []) = (acc * 16 ^ k + n div 16, [])"
    using Suc.prems(1) by (intro Suc.IH) simp_all
  with app [OF _ digits, of "n mod 16" acc k "n div 16"] have
    "scan_hex acc (hex_fixed (Suc k) n @ rest) = scan_hex ((acc * 16 ^ k + n div 16) * 16 + n mod 16) rest"
    by simp
  also have "(acc * 16 ^ k + n div 16) * 16 + n mod 16 = acc * 16 ^ Suc k + n" by (simp add: algebra_simps)
  finally show ?case using Suc.prems(2) by (cases rest) auto
qed

lemma hex_fixed_chars: "\<forall>x \<in> set (hex_fixed k n). \<exists>d < 16. x = hex_char d"
  by (induction k arbitrary: n) (simp_all, metis mod_less_divisor zero_less_numeral)

lemma hex_text:
  assumes "\<forall>x \<in> set xs. \<exists>d < 16. x = hex_char d"
  shows "\<forall>x \<in> set xs. \<not> is_space x \<and> (of_char x :: u8) \<noteq> 0"
proof
  fix x assume "x \<in> set xs"
  then obtain d where "d < 16" "x = hex_char d" using assms by auto
  then show "\<not> is_space x \<and> (of_char x :: u8) \<noteq> 0" using hex_char_facts(2,7) [of d] by simp
qed

lemma skip_0x_other: "x \<noteq> CHR ''x'' \<Longrightarrow> x \<noteq> CHR ''X'' \<Longrightarrow> skip_0x (c # x # r) = c # x # r"
  by (cases r) (simp_all add: skip_0x_def)

lemma scan_x_print_hex:
  assumes "n < 16 ^ k" and "1 < k" and "k \<le> 8" and "rest = [] \<or> hex_val (hd rest) = None"
  shows "scan_x (print_hex k n @ rest) = Some (word_of_nat n, rest)"
proof -
  obtain j where k: "k = Suc j" using assms(2) by (cases k) auto
  obtain c cs where ccs: "hex_fixed k n = c # cs" by (cases "hex_fixed k n") (simp_all add: k)
  obtain d where d: "d < 16" "c = hex_char d" using hex_fixed_chars [of k n] by (auto simp: ccs)
  note c = hex_char_facts [OF d(1), folded d(2)]
  have "skip_0x (c # cs @ rest) = c # cs @ rest"
  proof (cases cs)
    case (Cons x xs)
    obtain e where "e < 16" "x = hex_char e" using hex_fixed_chars [of k n] by (auto simp: ccs Cons)
    then have "x \<noteq> CHR ''x'' \<and> x \<noteq> CHR ''X''" using hex_char_facts(5,6) [of e] by simp
    with Cons show ?thesis by (simp add: skip_0x_other)
  qed (use ccs assms(2) k in \<open>cases j; simp\<close>)
  moreover have "split_sign (c # cs @ rest) = (False, c # cs @ rest)"
    using c by (simp add: split_sign_def)
  moreover have "scan_hex 0 (c # cs @ rest) = (n, rest)"
    using scan_hex_fixed [OF assms(1,4), of 0] by (simp add: ccs)
  moreover have "n < 2 ^ 64"
  proof -
    have "(16 :: nat) ^ k \<le> 16 ^ 8" using assms(3) by (intro power_increasing) simp_all
    then show ?thesis using assms(1) by simp
  qed
  moreover have "print_hex k n = c # cs" using print_hex_fixed [OF assms(1)] assms(2) ccs by simp
  ultimately show ?thesis using c(1) by (simp add: scan_x_def Let_def)
qed

lemma length_print_hex: "n < 16 ^ k \<Longrightarrow> 0 < k \<Longrightarrow> length (print_hex k n) = k"
  by (simp add: print_hex_fixed)

lemma unat_u32_less: "unat (w :: u32) < 16 ^ 8"
  using unsigned_less [of w] by simp

lemma wire_word_gid:
  assumes "length raw = 16" and "i < 4"
  shows "wire_word (gid_to_wire_gid raw) i = Inr (take 4 (drop (i * 4) raw))"
proof -
  let ?p = "\<lambda>i. print_hex 8 (unat (htonl (gid_word raw i)))"
  have len: "length (?p i) = 8" for i by (simp add: length_print_hex unat_u32_less del: power_numeral)
  have i: "i \<in> {0, 1, 2, 3}" using assms(2) by auto
  then have "take 8 (drop (i * 8) (gid_to_wire_gid raw)) = ?p i" "(i + 1) * 8 \<le> length (gid_to_wire_gid raw)"
    by (elim insertE emptyE; simp add: gid_to_wire_gid_def len)+
  moreover have "scan_x (?p i) = Some (htonl (gid_word raw i), [])"
    using scan_x_print_hex [of "unat (htonl (gid_word raw i))" 8 "[]"] by (simp add: unat_u32_less del: power_numeral)
  moreover have "le_bytes 4 (unat (gid_word raw i)) = take 4 (drop (i * 4) raw)"
  proof -
    have len4: "length (take 4 (drop (i * 4) raw)) = 4" using assms i by auto
    have "unat (gid_word raw i) = nat_of_le (take 4 (drop (i * 4) raw))"
      using nat_of_le_less [of "take 4 (drop (i * 4) raw)"] len4
      by (simp add: gid_word_def unsigned_of_nat take_bit_nat_eq_self)
    then show ?thesis using le_bytes_nat_of_le [OF len4] by simp
  qed
  ultimately show ?thesis by (simp add: wire_word_def)
qed

lemma wire_gid_roundtrip:
  assumes "length raw = 16"
  shows "wire_gid_to_gid (gid_to_wire_gid raw) = Inr raw"
proof -
  have "wire_word (gid_to_wire_gid raw) 0 = Inr (take 4 raw)"
    "wire_word (gid_to_wire_gid raw) 1 = Inr (take 4 (drop 4 raw))"
    "wire_word (gid_to_wire_gid raw) 2 = Inr (take 4 (drop 8 raw))"
    "wire_word (gid_to_wire_gid raw) 3 = Inr (take 4 (drop 12 raw))"
    using wire_word_gid [OF assms] by (simp_all flip: One_nat_def)
  moreover have "take 4 raw @ take 4 (drop 4 raw) @ take 4 (drop 8 raw) @ take 4 (drop 12 raw) = raw"
    using assms append_take_drop_id [of 4 raw] append_take_drop_id [of 4 "drop 4 raw"]
      append_take_drop_id [of 4 "drop 8 raw"] by simp
  ultimately show ?thesis by (simp add: wire_gid_to_gid_def)
qed

lemma gid_text:
  assumes "length raw = 16"
  shows "length (gid_to_wire_gid raw) = 32" and "\<forall>c \<in> set (gid_to_wire_gid raw). \<exists>d < 16. c = hex_char d"
proof -
  have "print_hex 8 (unat w) = hex_fixed 8 (unat w)" for w :: u32
    by (intro print_hex_fixed unat_u32_less) simp
  then show "length (gid_to_wire_gid raw) = 32" "\<forall>c \<in> set (gid_to_wire_gid raw). \<exists>d < 16. c = hex_char d"
    using hex_fixed_chars by (auto simp: gid_to_wire_gid_def)
qed

lemma char_of_of_char: "char_of (unat (of_char c :: u8)) = c"
proof -
  have "(of_char c :: nat) = of_char c mod 256" using of_char_of [of "of_char c :: nat"] by simp
  then have "(of_char c :: nat) < 256" using mod_less_divisor [of 256 "of_char c :: nat"] by simp
  moreover have "(of_char c :: u8) = word_of_nat (of_char c)" by (rule of_nat_of_char [symmetric])
  ultimately have "unat (of_char c :: u8) = of_char c" by (simp add: unsigned_of_nat take_bit_nat_eq_self)
  then show ?thesis by simp
qed

lemma c_string_padded:
  assumes "\<forall>c \<in> set cs. (of_char c :: u8) \<noteq> 0" and "0 < k"
  shows "c_string (map of_char cs @ replicate k 0) = Inr cs"
proof -
  have "takeWhile (\<lambda>b. b \<noteq> 0) (map of_char cs @ replicate k (0 :: u8)) = map of_char cs"
    using assms(1)
  proof (induction cs)
    case Nil
    then show ?case using assms(2) by (cases k) simp_all
  qed simp
  then show ?thesis using assms(2) by (simp add: c_string_def char_of_of_char comp_def)
qed

lemma format_parse_dest:
  assumes "unat (d_lid d) < 2 ^ 16" and "unat (d_qpn d) < 2 ^ 24" and "unat (d_psn d) < 2 ^ 24"
    and "length (d_gid d) = 16"
  shows "\<exists>bs. format_dest d = Inr bs \<and> length bs = 52 \<and> parse_dest bs = Inr d"
proof -
  let ?gid = "gid_to_wire_gid (d_gid d)"
  let ?s3 = "?gid"
  let ?s2 = "print_hex 6 (unat (d_psn d)) @ CHR '':'' # ?s3"
  let ?s1 = "print_hex 6 (unat (d_qpn d)) @ CHR '':'' # ?s2"
  let ?txt = "print_hex 4 (unat (d_lid d)) @ CHR '':'' # ?s1"
  have small: "unat (d_lid d) < 16 ^ 4" "unat (d_qpn d) < 16 ^ 6" "unat (d_psn d) < 16 ^ 6" using assms by simp_all
  note len = length_print_hex [OF small(1)] length_print_hex [OF small(2)] length_print_hex [OF small(3)]
  have colon: "hex_val CHR '':'' = None" by (simp add: hex_val_def digit_val_def)
  have lentxt: "length ?txt = 51" using len gid_text(1) [OF assms(4)] by simp
  have printed: "\<forall>c \<in> set (print_hex k n). (of_char c :: u8) \<noteq> 0" if "n < 16 ^ k" "0 < k" for k n
    using hex_text [OF hex_fixed_chars [of k n]] that by (simp add: print_hex_fixed)
  have nonzero: "\<forall>c \<in> set ?txt. (of_char c :: u8) \<noteq> 0"
    using printed [OF small(1)] printed [OF small(2)] printed [OF small(3)] hex_text [OF gid_text(2) [OF assms(4)]]
    by (simp add: ball_Un)
  have bs: "format_dest d = Inr (map of_char ?txt @ replicate 1 0)"
    using lentxt by (simp add: format_dest_def dest_size_def Let_def)
  have fields: "scan_field ?txt = Inr (d_lid d, ?s1)" "scan_field ?s1 = Inr (d_qpn d, ?s2)" "scan_field ?s2 = Inr (d_psn d, ?s3)"
    using scan_x_print_hex [OF small(1), of "CHR '':'' # ?s1"] scan_x_print_hex [OF small(2), of "CHR '':'' # ?s2"]
      scan_x_print_hex [OF small(3), of "CHR '':'' # ?s3"] colon
    by (simp_all add: scan_field_def literal_def)
  have word: "takeWhile (\<lambda>c. \<not> is_space c) (dropWhile is_space ?gid) = ?gid"
  proof -
    have "\<forall>c \<in> set ?gid. \<not> is_space c" using hex_text [OF gid_text(2) [OF assms(4)]] by simp
    moreover from this have "dropWhile is_space ?gid = ?gid" by (cases ?gid) auto
    ultimately show ?thesis by simp
  qed
  have "?gid \<noteq> []" using gid_text(1) [OF assms(4)] by auto
  then have "parse_dest (map of_char ?txt @ replicate 1 0) = Inr d"
    using c_string_padded [OF nonzero, of 1] fields word gid_text(1) [OF assms(4)] wire_gid_roundtrip [OF assms(4)]
    by (simp add: parse_dest_def Let_def)
  with bs lentxt show ?thesis by (intro exI [of _ "map of_char ?txt @ replicate 1 0"]) simp
qed

text \<open>
  C27. What one session writes about its queue pair the other reads: for every lid of 16 bits,
  queue pair and packet sequence numbers of 24 bits and gid, the message fills the 52 bytes
  exactly, and parsing it gives the same lid, numbers and gid.
\<close>

theorem dest_message_roundtrip:
  assumes "unat (d_lid d) < 2 ^ 16" and "unat (d_qpn d) < 2 ^ 24" and "unat (d_psn d) < 2 ^ 24"
    and "length (d_gid d) = 16"
  shows "\<exists>bs. format_dest d = Inr bs \<and> length bs = 52 \<and> parse_dest bs = Inr d"
  using format_parse_dest [OF assms] .

theorem dest_message_roundtrip_witness:
  "\<exists>bs. format_dest \<lparr>d_lid = 7, d_qpn = 0x1a2, d_psn = 0xabcdef, d_gid = replicate 16 254\<rparr> = Inr bs
    \<and> length bs = 52 \<and> parse_dest bs = Inr \<lparr>d_lid = 7, d_qpn = 0x1a2, d_psn = 0xabcdef, d_gid = replicate 16 254\<rparr>"
  by (rule dest_message_roundtrip) simp_all

end
