(* ===== verification/NewAdapter.thy ===== *)
theory NewAdapter
  imports Ledger DestMessage
begin

text \<open>
  \<open>RDMAAdapter\<close> of new\_rdma (new\_rdma/include/rdma\_adapter.h, src/rdma\_adapter.cpp): the context
  of a channel, its creation and destruction, the work requests it posts, the checks of
  completions, and the transitions of its queue pair. Every failure while a context is created is
  fatal; the calls that post answer whether they succeeded.
\<close>

section \<open>State\<close>

text \<open>Besides the verbs: the device attributes, the inline capacity of a queue pair, the first
  line of the file that gives the type of a gid (\<open>None\<close> when it cannot be read), and the random
  numbers of \<open>lrand48\<close>.\<close>

record 'd nverbs = "'d verbs" +
  ibv_query_device :: "'d \<Rightarrow> nat \<Rightarrow> int \<times> 'd"
  qp_max_inline :: "'d \<Rightarrow> nat \<Rightarrow> u32"
  gid_type_line :: "string \<Rightarrow> int \<Rightarrow> int \<Rightarrow> string option"
  lrand48 :: "'d \<Rightarrow> u32 \<times> 'd"

definition DEFAULT_IB_PORT :: int where "DEFAULT_IB_PORT = 1"
definition DEFAULT_MSG_SIZE :: u32 where "DEFAULT_MSG_SIZE = 100000"
definition DEFAULT_CTRL_BUF_SIZE :: u32 where "DEFAULT_CTRL_BUF_SIZE = 16"
definition DEFAULT_GID_INDEX :: int where "DEFAULT_GID_INDEX = 3"
definition RECV_WRID :: u64 where "RECV_WRID = 1"
definition SEND_WRID :: u64 where "SEND_WRID = 2"
definition WRITE_WRID :: u64 where "WRITE_WRID = 3"
definition WRITE_WITH_IMM_WRID :: u64 where "WRITE_WITH_IMM_WRID = 4"

record 'd nadapter =
  x_dev_name :: string
  x_port :: int
  x_gid_index :: int
  x_ctx :: nat
  x_channel :: nat
  x_pd :: nat
  x_data_mr :: nat
  x_data_lkey :: u32
  x_data_rkey :: u32
  x_ctrl_mr :: nat
  x_ctrl_lkey :: u32
  x_cq :: nat
  x_qp :: nat
  x_qp_num :: u32
  x_lid :: u16
  x_data_buf :: u64
  x_data_buf_size :: u32
  x_ctrl_buf :: u64
  x_ctrl_buf_size :: u32
  x_inline :: bool
  x_send_inline :: bool
  x_use_event :: bool
  x_prio :: u8
  x_dev :: 'd

definition nadapter_new :: "u8 \<Rightarrow> 'd \<Rightarrow> 'd nadapter" where
  "nadapter_new prio d = \<lparr>x_dev_name = ''mlx5_0'', x_port = DEFAULT_IB_PORT, x_gid_index = DEFAULT_GID_INDEX,
     x_ctx = 0, x_channel = 0, x_pd = 0, x_data_mr = 0, x_data_lkey = 0, x_data_rkey = 0, x_ctrl_mr = 0,
     x_ctrl_lkey = 0, x_cq = 0, x_qp = 0, x_qp_num = 0, x_lid = 0, x_data_buf = 0,
     x_data_buf_size = DEFAULT_MSG_SIZE, x_ctrl_buf = 0, x_ctrl_buf_size = DEFAULT_CTRL_BUF_SIZE,
     x_inline = False, x_send_inline = False, x_use_event = False, x_prio = prio, x_dev = d\<rparr>"

section \<open>Creation and destruction\<close>

fun ib_dev_id_by_name :: "string \<Rightarrow> string list \<Rightarrow> nat \<Rightarrow> int" where
  "ib_dev_id_by_name name [] i = - 1"
| "ib_dev_id_by_name name (d # ds) i = (if d = name then int i else ib_dev_id_by_name name ds (Suc i))"

definition na_create_context :: "'d nverbs \<Rightarrow> 'd nadapter \<Rightarrow> 'd nadapter result" where
  "na_create_context V x =
     (let (dev_list, d1) = ibv_get_device_list V (x_dev x) in
      case dev_list of None \<Rightarrow> Inl LogFatal
      | Some names \<Rightarrow>
          if names = [] then Inl LogFatal
          else let i = ib_dev_id_by_name (x_dev_name x) names 0 in
            if i < 0 then Inl LogFatal
            else let (ctx, d2) = ibv_open_device V d1 (names ! nat i) in
              if ctx = 0 then Inl LogFatal else Inr (x\<lparr>x_ctx := ctx, x_dev := d2\<rparr>))"

definition na_create_event_channel :: "'d nverbs \<Rightarrow> 'd nadapter \<Rightarrow> 'd nadapter result" where
  "na_create_event_channel V x =
     (if x_use_event x
      then let (ch, d) = ibv_create_comp_channel V (x_dev x) (x_ctx x) in
        if ch = 0 then Inl LogFatal else Inr (x\<lparr>x_channel := ch, x_dev := d\<rparr>)
      else Inr (x\<lparr>x_channel := 0\<rparr>))"

definition na_create_protect_domain :: "'d nverbs \<Rightarrow> 'd nadapter \<Rightarrow> 'd nadapter result" where
  "na_create_protect_domain V x = (let (pd, d) = ibv_alloc_pd V (x_dev x) (x_ctx x) in
     if pd = 0 then Inl LogFatal else Inr (x\<lparr>x_pd := pd, x_dev := d\<rparr>))"

text \<open>\<open>memalign\<close> answers the null pointer where \<open>posix_memalign\<close> answers an error number.\<close>

definition na_create_register_mem :: "'d nverbs \<Rightarrow> nat \<Rightarrow> u32 \<Rightarrow> 'd \<Rightarrow> (nat \<times> u32 \<times> u32 \<times> u64 \<times> 'd) result" where
  "na_create_register_mem V pd buf_size d =
     (let (rc, buf, d1) = posix_memalign V d (uint buf_size) in
      if rc \<noteq> 0 then Inl LogFatal
      else let (mr, lkey, rkey, d2) = ibv_reg_mr V d1 pd buf (uint buf_size) in
        if mr = 0 then Inl LogFatal else Inr (mr, lkey, rkey, buf, d2))"

definition na_create_completion_queue :: "'d nverbs \<Rightarrow> int \<Rightarrow> 'd nadapter \<Rightarrow> 'd nadapter result" where
  "na_create_completion_queue V num_cqe x =
     (let (rc, d1) = ibv_query_device V (x_dev x) (x_ctx x) in
      if rc \<noteq> 0 then Inl LogFatal
      else let (rc, lid, d2) = ibv_query_port V d1 (x_ctx x) (x_port x) in
        if rc \<noteq> 0 then Inl LogFatal
        else let (cq, d3) = ibv_create_cq V d2 (x_ctx x) num_cqe (x_channel x);
                 x1 = x\<lparr>x_lid := lid, x_cq := cq, x_dev := d3\<rparr> in
          if cq = 0 then Inl LogFatal
          else if x_use_event x
          then let (rc, d4) = ibv_req_notify_cq V d3 cq in if rc \<noteq> 0 then Inl LogFatal else Inr (x1\<lparr>x_dev := d4\<rparr>)
          else Inr x1)"

text \<open>Every send is signaled; inline sending needs room for both kinds of message.\<close>

definition na_create_queue_pair :: "'d nverbs \<Rightarrow> 'd nadapter \<Rightarrow> 'd nadapter result" where
  "na_create_queue_pair V x =
     (let (qp, qpn, d) = ibv_create_qp V (x_dev x) (x_pd x) (x_cq x) True;
          x1 = x\<lparr>x_qp := qp, x_qp_num := qpn, x_send_inline := False, x_dev := d\<rparr> in
      if qp = 0 then Inl LogFatal
      else if x_inline x
      then if x_ctrl_buf_size x \<le> qp_max_inline V d qp \<and> x_data_buf_size x \<le> qp_max_inline V d qp
        then Inr (x1\<lparr>x_send_inline := True\<rparr>) else Inl LogFatal
      else Inr x1)"

definition na_modify_qp_to_init :: "'d nverbs \<Rightarrow> 'd nadapter \<Rightarrow> 'd nadapter result" where
  "na_modify_qp_to_init V x =
     (let (rc, d) = ibv_modify_qp V (x_dev x) (x_qp x) (qp_attr_zero\<lparr>qa_state := IBV_QPS_INIT, qa_port := x_port x\<rparr>) in
      if rc \<noteq> 0 then Inl LogFatal else Inr (x\<lparr>x_dev := d\<rparr>))"

definition na_init_ctx :: "'d nverbs \<Rightarrow> 'd nadapter \<Rightarrow> 'd nadapter result" where
  "na_init_ctx V x0 =
     bindR (na_create_context V x0) (\<lambda>x1. bindR (na_create_event_channel V x1) (\<lambda>x2.
     bindR (na_create_protect_domain V x2) (\<lambda>x3.
     bindR (na_create_register_mem V (x_pd x3) (x_ctrl_buf_size x3) (x_dev x3)) (\<lambda>(cmr, clkey, crkey, cbuf, d4).
     bindR (na_create_register_mem V (x_pd x3) (x_data_buf_size x3) d4) (\<lambda>(mr, lkey, rkey, buf, d5).
     bindR (na_create_completion_queue V 4096 (x3\<lparr>x_ctrl_mr := cmr, x_ctrl_lkey := clkey, x_ctrl_buf := cbuf,
         x_data_mr := mr, x_data_lkey := lkey, x_data_rkey := rkey, x_data_buf := buf, x_dev := d5\<rparr>)) (\<lambda>x6.
     bindR (na_create_queue_pair V x6) (na_modify_qp_to_init V)))))))"

definition na_destroy_ctx :: "'d nverbs \<Rightarrow> 'd nadapter \<Rightarrow> 'd nadapter" where
  "na_destroy_ctx V x = x\<lparr>x_dev :=
     drop_handle V (x_ctx x) (drop_handle V (x_channel x) (drop_handle V (x_pd x)
     (drop_block V (x_ctrl_buf x) (drop_block V (x_data_buf x)
     (drop_handle V (x_ctrl_mr x) (drop_handle V (x_data_mr x)
     (drop_handle V (x_cq x) (drop_handle V (x_qp x) (x_dev x)))))))))\<rparr>"

section \<open>Where a channel is\<close>

text \<open>The first gid from index 2 on whose type is RoCE v2, up to the first index without one.\<close>

fun get_rocev2_gid_index :: "nat \<Rightarrow> 'd nverbs \<Rightarrow> 'd nadapter \<Rightarrow> int \<Rightarrow> int result" where
  "get_rocev2_gid_index 0 V x gid_index = Inl OutOfFuel"
| "get_rocev2_gid_index (Suc fuel) V x gid_index =
     (case gid_type_line V (x_dev_name x) (x_port x) gid_index of
        None \<Rightarrow> Inr DEFAULT_GID_INDEX
      | Some line \<Rightarrow> if take 7 line = ''RoCE v2'' then Inr gid_index
                     else get_rocev2_gid_index fuel V x (gid_index + 1))"

text \<open>\<open>None\<close> is the answer false.\<close>

definition init_dest :: "nat \<Rightarrow> 'd nverbs \<Rightarrow> 'd nadapter \<Rightarrow> (dest option \<times> 'd nadapter) result" where
  "init_dest fuel V x =
     (let (r, d1) = lrand48 V (x_dev x) in
      bindR (get_rocev2_gid_index fuel V x 2) (\<lambda>gi.
        let (rc, gid, d2) = ibv_query_gid V d1 (x_ctx x) (x_port x) gi; x' = x\<lparr>x_gid_index := gi, x_dev := d2\<rparr> in
        if rc \<noteq> 0 then Inr (None, x')
        else Inr (Some \<lparr>d_lid = ucast (x_lid x), d_qpn = x_qp_num x, d_psn = and r 0xffffff, d_gid = gid\<rparr>, x')))"

record mem_info =
  mi_addr :: u64
  mi_key :: u32

definition init_data_mem :: "'d nadapter \<Rightarrow> mem_info" where
  "init_data_mem x = \<lparr>mi_addr = x_data_buf x, mi_key = x_data_rkey x\<rparr>"

section \<open>Work requests\<close>

definition nctrl_sge :: "'d nadapter \<Rightarrow> sge" where
  "nctrl_sge x = \<lparr>sge_addr = x_ctrl_buf x, sge_length = x_ctrl_buf_size x, sge_lkey = x_ctrl_lkey x\<rparr>"

definition ndata_sge :: "'d nadapter \<Rightarrow> sge" where
  "ndata_sge x = \<lparr>sge_addr = x_data_buf x, sge_length = x_data_buf_size x, sge_lkey = x_data_lkey x\<rparr>"

definition na_post_send :: "'d nverbs \<Rightarrow> send_wr \<Rightarrow> 'd nadapter \<Rightarrow> bool \<times> 'd nadapter" where
  "na_post_send V wr x = (let (rc, d) = ibv_post_send V (x_dev x) (x_qp x) wr in (rc = 0, x\<lparr>x_dev := d\<rparr>))"

definition na_post_ctrl_recv :: "'d nverbs \<Rightarrow> 'd nadapter \<Rightarrow> bool \<times> 'd nadapter" where
  "na_post_ctrl_recv V x =
     (let (rc, d) = ibv_post_recv V (x_dev x) (x_qp x) \<lparr>rw_id = RECV_WRID, rw_sge = nctrl_sge x\<rparr>
      in (rc = 0, x\<lparr>x_dev := d\<rparr>))"

definition na_post_ctrl_send :: "'d nverbs \<Rightarrow> 'd nadapter \<Rightarrow> bool \<times> 'd nadapter" where
  "na_post_ctrl_send V x = na_post_send V \<lparr>sw_id = SEND_WRID, sw_sge = nctrl_sge x, sw_opcode = IBV_WR_SEND,
     sw_signaled = True, sw_inline = x_send_inline x, sw_imm = 0, sw_remote_addr = 0, sw_rkey = 0\<rparr> x"

definition na_post_data_write :: "'d nverbs \<Rightarrow> mem_info \<Rightarrow> 'd nadapter \<Rightarrow> bool \<times> 'd nadapter" where
  "na_post_data_write V rem x = na_post_send V \<lparr>sw_id = WRITE_WRID, sw_sge = ndata_sge x, sw_opcode = IBV_WR_RDMA_WRITE,
     sw_signaled = True, sw_inline = x_send_inline x, sw_imm = 0, sw_remote_addr = mi_addr rem, sw_rkey = mi_key rem\<rparr> x"

definition na_post_data_write_with_imm :: "'d nverbs \<Rightarrow> mem_info \<Rightarrow> u32 \<Rightarrow> 'd nadapter \<Rightarrow> bool \<times> 'd nadapter" where
  "na_post_data_write_with_imm V rem imm x = na_post_send V \<lparr>sw_id = WRITE_WITH_IMM_WRID, sw_sge = ndata_sge x,
     sw_opcode = IBV_WR_RDMA_WRITE_WITH_IMM, sw_signaled = True, sw_inline = x_send_inline x, sw_imm = htonl imm,
     sw_remote_addr = mi_addr rem, sw_rkey = mi_key rem\<rparr> x"

section \<open>Completions\<close>

definition parse_wc :: "wc_opcode \<Rightarrow> wc \<Rightarrow> bool" where
  "parse_wc op w \<longleftrightarrow> wc_status w = 0 \<and> wc_opcode_of w = op"

definition parse_recv_wc :: "wc \<Rightarrow> bool" where "parse_recv_wc = parse_wc IBV_WC_RECV"
definition parse_recv_with_imm_wc :: "wc \<Rightarrow> bool" where "parse_recv_with_imm_wc = parse_wc IBV_WC_RECV_RDMA_WITH_IMM"
definition parse_send_wc :: "wc \<Rightarrow> bool" where "parse_send_wc = parse_wc IBV_WC_SEND"
definition parse_write_wc :: "wc \<Rightarrow> bool" where "parse_write_wc = parse_wc IBV_WC_RDMA_WRITE"

text \<open>Polling until there is a completion; \<open>None\<close> is the answer false.\<close>

fun wait_for_wc :: "nat \<Rightarrow> 'd nverbs \<Rightarrow> 'd nadapter \<Rightarrow> (wc option \<times> 'd nadapter) result" where
  "wait_for_wc 0 V x = Inl OutOfFuel"
| "wait_for_wc (Suc fuel) V x = (let (ne, w, d) = ibv_poll_cq V (x_dev x) (x_cq x); x' = x\<lparr>x_dev := d\<rparr> in
     if ne < 0 then Inr (None, x') else if ne > 0 then Inr (Some w, x') else wait_for_wc fuel V x')"

section \<open>The queue pair\<close>

definition interface_id_nonzero :: "u8 list \<Rightarrow> bool" where
  "interface_id_nonzero gid \<longleftrightarrow> (\<exists>b \<in> set (drop 8 gid). b \<noteq> 0)"

definition na_rtr_attr :: "'d nadapter \<Rightarrow> dest \<Rightarrow> qp_attr" where
  "na_rtr_attr x rem =
     (let attr = qp_attr_zero\<lparr>qa_state := IBV_QPS_RTR, qa_dest_qp_num := d_qpn rem, qa_psn := d_psn rem,
                   qa_dlid := ucast (d_lid rem), qa_port := x_port x\<rparr> in
      if interface_id_nonzero (d_gid rem)
      then attr\<lparr>qa_is_global := True, qa_dgid := d_gid rem, qa_sgid_index := x_gid_index x,
                qa_traffic_class := ucast (x_prio x)\<rparr>
      else attr)"

definition na_modify_qp_to_rtr :: "'d nverbs \<Rightarrow> dest \<Rightarrow> 'd nadapter \<Rightarrow> bool \<times> 'd nadapter" where
  "na_modify_qp_to_rtr V rem x =
     (let (rc, d) = ibv_modify_qp V (x_dev x) (x_qp x) (na_rtr_attr x rem) in (rc = 0, x\<lparr>x_dev := d\<rparr>))"

definition na_modify_qp_to_rts :: "'d nverbs \<Rightarrow> dest \<Rightarrow> 'd nadapter \<Rightarrow> bool \<times> 'd nadapter" where
  "na_modify_qp_to_rts V my x =
     (let (rc, d) = ibv_modify_qp V (x_dev x) (x_qp x) (qp_attr_zero\<lparr>qa_state := IBV_QPS_RTS, qa_psn := d_psn my\<rparr>)
      in (rc = 0, x\<lparr>x_dev := d\<rparr>))"

definition na_connect_qp :: "'d nverbs \<Rightarrow> dest \<Rightarrow> dest \<Rightarrow> 'd nadapter \<Rightarrow> 'd nadapter result" where
  "na_connect_qp V my rem x =
     (let (ok, x1) = na_modify_qp_to_rtr V rem x in
      if \<not> ok then Inl LogFatal
      else let (ok, x2) = na_modify_qp_to_rts V my x1 in if \<not> ok then Inl LogFatal else Inr x2)"

end
