(* ===== verification/NewLifecycle.thy ===== *)
theory NewLifecycle
  imports NewAdapter
begin

text \<open>
  The context of a new\_rdma channel takes what it needs from the device and gives all of it back:
  \<open>init_ctx\<close> followed by \<open>destroy_ctx\<close> (new\_rdma/src/rdma\_adapter.cpp) leaves the ledger of the
  device as it was.
\<close>

section \<open>What a context holds\<close>

definition nobjects :: "'d nadapter \<Rightarrow> (nat \<times> nat set) list" where
  "nobjects x = [(x_ctx x, {}), (x_channel x, {}), (x_pd x, {}), (x_ctrl_mr x, {x_pd x}), (x_data_mr x, {x_pd x}),
     (x_cq x, {x_channel x} - {0}), (x_qp x, {x_pd x, x_cq x})]"

definition nblocks :: "'d nadapter \<Rightarrow> u64 list" where
  "nblocks x = [x_ctrl_buf x, x_data_buf x]"

definition ncomplete :: "'d nadapter \<Rightarrow> bool" where
  "ncomplete x \<longleftrightarrow> x_ctx x \<noteq> 0 \<and> x_pd x \<noteq> 0 \<and> x_ctrl_mr x \<noteq> 0 \<and> x_data_mr x \<noteq> 0 \<and> x_cq x \<noteq> 0 \<and> x_qp x \<noteq> 0"

definition ntracked :: "'d nverbs \<Rightarrow> 'd ledger \<Rightarrow> bool" where
  "ntracked V G \<longleftrightarrow> tracked V G \<and> (\<forall>d c. kept G d (snd (ibv_query_device V d c)))"

section \<open>Creation, step by step\<close>

lemma na_create_context_created:
  assumes "ntracked V G" and "na_create_context V x = Inr x'"
  shows "\<exists>ctx d. x' = x\<lparr>x_ctx := ctx, x_dev := d\<rparr> \<and> created G {} (x_dev x) ctx d \<and> ctx \<noteq> 0"
proof -
  have t: "tracked V G" using assms(1) by (simp add: ntracked_def)
  obtain l d1 where l: "ibv_get_device_list V (x_dev x) = (l, d1)" by (metis surj_pair)
  obtain names where names: "l = Some names" using assms(2) l by (cases l) (auto simp: na_create_context_def)
  let ?i = "nat (ib_dev_id_by_name (x_dev_name x) names 0)"
  obtain ctx d2 where c: "ibv_open_device V d1 (names ! ?i) = (ctx, d2)" by (metis surj_pair)
  have "x' = x\<lparr>x_ctx := ctx, x_dev := d2\<rparr>" "ctx \<noteq> 0"
    using assms(2) l names c by (auto simp: na_create_context_def Let_def split: if_splits)
  moreover have "created G {} (x_dev x) ctx d2"
    by (rule created_kept [OF tracked_calls(1) [OF t l] tracked_calls(6) [OF t c] kept_refl])
  ultimately show ?thesis by blast
qed

lemma na_create_event_channel_created:
  assumes "ntracked V G" and "na_create_event_channel V x = Inr x'"
  shows "\<exists>ch d. x' = x\<lparr>x_channel := ch, x_dev := d\<rparr> \<and> created G {} (x_dev x) ch d"
proof (cases "x_use_event x")
  case True
  obtain ch d where call: "ibv_create_comp_channel V (x_dev x) (x_ctx x) = (ch, d)" by (metis surj_pair)
  with True assms(2) have "x' = x\<lparr>x_channel := ch, x_dev := d\<rparr>"
    by (auto simp: na_create_event_channel_def split: if_splits)
  then show ?thesis using tracked_calls(7) [OF _ call] assms(1) by (auto simp: ntracked_def)
next
  case False
  with assms(2) have "x' = x\<lparr>x_channel := 0, x_dev := x_dev x\<rparr>" by (auto simp: na_create_event_channel_def)
  then show ?thesis by (intro exI [of _ 0] exI [of _ "x_dev x"]) (simp add: created_null)
qed

lemma na_create_protect_domain_created:
  assumes "ntracked V G" and "na_create_protect_domain V x = Inr x'"
  shows "\<exists>pd d. x' = x\<lparr>x_pd := pd, x_dev := d\<rparr> \<and> created G {} (x_dev x) pd d \<and> pd \<noteq> 0"
proof -
  obtain pd d where call: "ibv_alloc_pd V (x_dev x) (x_ctx x) = (pd, d)" by (metis surj_pair)
  with assms(2) have "x' = x\<lparr>x_pd := pd, x_dev := d\<rparr>" "pd \<noteq> 0"
    by (auto simp: na_create_protect_domain_def split: if_splits)
  then show ?thesis using tracked_calls(8) [OF _ call] assms(1) by (auto simp: ntracked_def)
qed

lemma na_create_register_mem_created:
  assumes "ntracked V G" and "na_create_register_mem V pd n d = Inr (mr, lkey, rkey, buf, d')"
  shows "\<exists>d1. allocated G d 0 buf d1 \<and> created G {pd} d1 mr d' \<and> mr \<noteq> 0"
proof -
  have t: "tracked V G" using assms(1) by (simp add: ntracked_def)
  obtain rc b d1 where mem: "posix_memalign V d (uint n) = (rc, b, d1)" by (metis surj_pair)
  obtain m lk rk d2 where reg: "ibv_reg_mr V d1 pd b (uint n) = (m, lk, rk, d2)" by (metis surj_pair)
  show ?thesis
    using assms(2) mem reg tracked_calls(13) [OF t mem] tracked_calls(10) [OF t reg]
    by (auto simp: na_create_register_mem_def split: if_splits)
qed

lemma na_create_completion_queue_created:
  assumes "ntracked V G" and "na_create_completion_queue V n x = Inr x'"
  shows "\<exists>lid cq d. x' = x\<lparr>x_lid := lid, x_cq := cq, x_dev := d\<rparr>
    \<and> created G ({x_channel x} - {0}) (x_dev x) cq d \<and> cq \<noteq> 0"
proof -
  have t: "tracked V G" using assms(1) by (simp add: ntracked_def)
  obtain rc1 d1 where q: "ibv_query_device V (x_dev x) (x_ctx x) = (rc1, d1)" by (metis surj_pair)
  obtain rc2 lid d2 where p: "ibv_query_port V d1 (x_ctx x) (x_port x) = (rc2, lid, d2)" by (metis surj_pair)
  obtain cq d3 where c: "ibv_create_cq V d2 (x_ctx x) n (x_channel x) = (cq, d3)" by (metis surj_pair)
  obtain rc4 d4 where r: "ibv_req_notify_cq V d3 cq = (rc4, d4)" by (metis surj_pair)
  obtain d where x': "x' = x\<lparr>x_lid := lid, x_cq := cq, x_dev := d\<rparr>" "d = d3 \<or> d = d4" "cq \<noteq> 0"
    using assms(2) q p c r by (auto simp: na_create_completion_queue_def Let_def split: if_splits)
  have "kept G (x_dev x) d1" using assms(1) q by (metis ntracked_def snd_conv)
  then have "kept G (x_dev x) d2" by (rule kept_trans [OF _ tracked_calls(2) [OF t p]])
  moreover have "kept G d3 d" using x'(2) tracked_calls(4) [OF t r] by auto
  ultimately have "created G ({x_channel x} - {0}) (x_dev x) cq d"
    by (rule created_kept [OF _ tracked_calls(9) [OF t c]])
  with x' show ?thesis by blast
qed

lemma na_create_queue_pair_created:
  assumes "ntracked V G" and "na_create_queue_pair V x = Inr x'"
  shows "\<exists>qp qpn i d. x' = x\<lparr>x_qp := qp, x_qp_num := qpn, x_send_inline := i, x_dev := d\<rparr>
    \<and> created G {x_pd x, x_cq x} (x_dev x) qp d \<and> qp \<noteq> 0"
proof -
  obtain qp qpn d where c: "ibv_create_qp V (x_dev x) (x_pd x) (x_cq x) True = (qp, qpn, d)" by (metis surj_pair)
  have "x' = x\<lparr>x_qp := qp, x_qp_num := qpn, x_send_inline := x_inline x, x_dev := d\<rparr> \<and> qp \<noteq> 0"
    using assms(2) c by (auto simp: na_create_queue_pair_def Let_def split: if_splits)
  moreover have "created G {x_pd x, x_cq x} (x_dev x) qp d"
    using tracked_calls(11) [OF _ c] assms(1) by (simp add: ntracked_def)
  ultimately show ?thesis by blast
qed

lemma na_modify_qp_to_init_kept:
  assumes "ntracked V G" and "na_modify_qp_to_init V x = Inr x'"
  shows "\<exists>d. x' = x\<lparr>x_dev := d\<rparr> \<and> kept G (x_dev x) d"
proof -
  let ?a = "qp_attr_zero\<lparr>qa_state := IBV_QPS_INIT, qa_port := x_port x\<rparr>"
  obtain rc d where c: "ibv_modify_qp V (x_dev x) (x_qp x) ?a = (rc, d)" by (metis surj_pair)
  with assms(2) have "x' = x\<lparr>x_dev := d\<rparr>" by (auto simp: na_modify_qp_to_init_def split: if_splits)
  then show ?thesis using tracked_calls(5) [OF _ c] assms(1) by (auto simp: ntracked_def)
qed

lemma na_init_ctx_holding:
  assumes "ntracked V G" and "na_init_ctx V x0 = Inr x"
  shows "holding G (x_dev x0) (nobjects x) (nblocks x) (x_dev x) \<and> ncomplete x"
proof -
  obtain x1 x2 x3 cmr clk crk cb d4 mr lk rk b d5 x6 x7 where steps:
    "na_create_context V x0 = Inr x1" "na_create_event_channel V x1 = Inr x2" "na_create_protect_domain V x2 = Inr x3"
    "na_create_register_mem V (x_pd x3) (x_ctrl_buf_size x3) (x_dev x3) = Inr (cmr, clk, crk, cb, d4)"
    "na_create_register_mem V (x_pd x3) (x_data_buf_size x3) d4 = Inr (mr, lk, rk, b, d5)"
    "na_create_completion_queue V 4096 (x3\<lparr>x_ctrl_mr := cmr, x_ctrl_lkey := clk, x_ctrl_buf := cb,
         x_data_mr := mr, x_data_lkey := lk, x_data_rkey := rk, x_data_buf := b, x_dev := d5\<rparr>) = Inr x6"
    "na_create_queue_pair V x6 = Inr x7" "na_modify_qp_to_init V x7 = Inr x"
    using assms(2) by (auto simp: na_init_ctx_def bindR_eq_Inr_iff)
  obtain ctx d1 where s1: "x1 = x0\<lparr>x_ctx := ctx, x_dev := d1\<rparr>" "created G {} (x_dev x0) ctx d1" "ctx \<noteq> 0"
    using na_create_context_created [OF assms(1) steps(1)] by blast
  obtain ch d2 where s2: "x2 = x1\<lparr>x_channel := ch, x_dev := d2\<rparr>" "created G {} d1 ch d2"
    using na_create_event_channel_created [OF assms(1) steps(2)] s1(1) by auto
  obtain pd d3 where s3: "x3 = x2\<lparr>x_pd := pd, x_dev := d3\<rparr>" "created G {} d2 pd d3" "pd \<noteq> 0"
    using na_create_protect_domain_created [OF assms(1) steps(3)] s2(1) by auto
  obtain e4 where s4: "allocated G d3 0 cb e4" "created G {pd} e4 cmr d4" "cmr \<noteq> 0"
    using na_create_register_mem_created [OF assms(1) steps(4)] s3(1) by auto
  obtain e5 where s5: "allocated G d4 0 b e5" "created G {pd} e5 mr d5" "mr \<noteq> 0"
    using na_create_register_mem_created [OF assms(1) steps(5)] s3(1) by auto
  obtain lid cq d6 where s6: "x6 = x3\<lparr>x_ctrl_mr := cmr, x_ctrl_lkey := clk, x_ctrl_buf := cb, x_data_mr := mr,
      x_data_lkey := lk, x_data_rkey := rk, x_data_buf := b, x_lid := lid, x_cq := cq, x_dev := d6\<rparr>"
    "created G ({ch} - {0}) d5 cq d6" "cq \<noteq> 0"
    using na_create_completion_queue_created [OF assms(1) steps(6)] s2(1) s3(1) by auto
  obtain qp qpn i d7 where s7: "x7 = x6\<lparr>x_qp := qp, x_qp_num := qpn, x_send_inline := i, x_dev := d7\<rparr>"
    "created G {pd, cq} d6 qp d7" "qp \<noteq> 0"
    using na_create_queue_pair_created [OF assms(1) steps(7)] s3(1) s6(1) by auto
  obtain d8 where s8: "x = x7\<lparr>x_dev := d8\<rparr>" "kept G d7 d8"
    using na_modify_qp_to_init_kept [OF assms(1) steps(8)] s7(1) by auto
  note h3 = holding_created [OF holding_created [OF holding_created [OF holding_start s1(2)] s2(2)] s3(2)]
  note h4 = holding_created [OF holding_allocated [OF h3 s4(1)] s4(2)]
  note h5 = holding_created [OF holding_allocated [OF h4 s5(1)] s5(2)]
  note h8 = holding_kept [OF holding_created [OF holding_created [OF h5 s6(2)] s7(2)] s8(2)]
  have fields: "x_ctx x = ctx" "x_channel x = ch" "x_pd x = pd" "x_ctrl_mr x = cmr" "x_data_mr x = mr" "x_cq x = cq"
    "x_qp x = qp" "x_ctrl_buf x = cb" "x_data_buf x = b" "x_dev x = d8"
    by (simp_all add: s8(1) s7(1) s6(1) s3(1) s2(1) s1(1))
  show ?thesis
    using h8 s1(3) s3(3) s4(3) s5(3) s6(3) s7(3) by (simp add: nobjects_def nblocks_def ncomplete_def fields)
qed

section \<open>Everything is given back\<close>

lemma nobjects_differ:
  assumes "holding G d0 (nobjects x) bs d" and "ncomplete x"
  shows "x_qp x \<notin> {x_pd x, x_cq x, x_channel x} \<and> x_cq x \<notin> {x_pd x, x_channel x} \<and> x_data_mr x \<notin> {x_pd x, x_channel x}
    \<and> x_ctrl_mr x \<notin> {x_pd x, x_channel x} \<and> x_pd x \<noteq> x_channel x"
proof -
  note d = holding_differ [OF assms(1)]
  show ?thesis
    using assms(2) d [of 6 2] d [of 6 5] d [of 6 1] d [of 5 2] d [of 5 1] d [of 4 2] d [of 4 1] d [of 3 2] d [of 3 1]
      d [of 2 1]
    by (simp add: nobjects_def ncomplete_def)
qed

text \<open>The queue pair and the completion queue go first, then the two regions with their buffers.\<close>

definition queues_dropped :: "'d nverbs \<Rightarrow> 'd nadapter \<Rightarrow> 'd" where
  "queues_dropped V x = drop_handle V (x_cq x) (drop_handle V (x_qp x) (x_dev x))"

definition regions_dropped :: "'d nverbs \<Rightarrow> 'd nadapter \<Rightarrow> 'd" where
  "regions_dropped V x = drop_block V (x_ctrl_buf x) (drop_block V (x_data_buf x)
     (drop_handle V (x_ctrl_mr x) (drop_handle V (x_data_mr x) (queues_dropped V x))))"

lemma queues_dropped_holding:
  assumes "ntracked V G" and "closed_ledger G (x_dev x0)" and "na_init_ctx V x0 = Inr x"
  shows "holding G (x_dev x0) [(x_ctx x, {}), (x_channel x, {}), (x_pd x, {}), (x_ctrl_mr x, {x_pd x}), (x_data_mr x, {x_pd x})] (nblocks x) (queues_dropped V x)"
proof -
  let ?U = "[(x_ctx x, {}), (x_channel x, {}), (x_pd x, {}), (x_ctrl_mr x, {x_pd x}), (x_data_mr x, {x_pd x})]"
  have t: "tracked V G" using assms(1) by (simp add: ntracked_def)
  note h = na_init_ctx_holding [OF assms(1,3)]
  note differ = nobjects_differ [OF conjunct1 [OF h] conjunct2 [OF h]]
  note drop = drop_handle_holding [OF t assms(2)]
  have "holding G (x_dev x0) ((?U @ [(x_cq x, {x_channel x} - {0})]) @ []) (nblocks x) (drop_handle V (x_qp x) (x_dev x))"
    by (rule drop [where us = "{x_pd x, x_cq x}"]) (use h differ in \<open>auto simp: nobjects_def\<close>)
  then have "holding G (x_dev x0) (?U @ []) (nblocks x) (queues_dropped V x)"
    unfolding queues_dropped_def by (intro drop [where ?U1.0 = ?U and us = "{x_channel x} - {0}" and h = "x_cq x"]) (use differ in auto)
  then show ?thesis by simp
qed

lemma regions_dropped_holding:
  assumes "ntracked V G" and "closed_ledger G (x_dev x0)" and "na_init_ctx V x0 = Inr x"
  shows "holding G (x_dev x0) [(x_ctx x, {}), (x_channel x, {}), (x_pd x, {})] [] (regions_dropped V x)"
proof -
  let ?U = "[(x_ctx x, {}), (x_channel x, {}), (x_pd x, {})]" and ?d1 = "queues_dropped V x"
  have t: "tracked V G" using assms(1) by (simp add: ntracked_def)
  note h = na_init_ctx_holding [OF assms(1,3)]
  note differ = nobjects_differ [OF conjunct1 [OF h] conjunct2 [OF h]]
  note drop = drop_handle_holding [OF t assms(2)]
  have "holding G (x_dev x0) ((?U @ [(x_ctrl_mr x, {x_pd x})]) @ []) (nblocks x) (drop_handle V (x_data_mr x) ?d1)"
    by (rule drop [where us = "{x_pd x}"]) (use queues_dropped_holding [OF assms] differ in auto)
  then have "holding G (x_dev x0) (?U @ []) ([x_ctrl_buf x] @ x_data_buf x # []) (drop_handle V (x_ctrl_mr x) (drop_handle V (x_data_mr x) ?d1))"
    by (intro drop [where ?U1.0 = ?U and us = "{x_pd x}" and h = "x_ctrl_mr x"]) (use differ in \<open>auto simp: nblocks_def\<close>)
  note drop_block_holding [OF t this]
  then have "holding G (x_dev x0) ?U ([] @ x_ctrl_buf x # []) (drop_block V (x_data_buf x) (drop_handle V (x_ctrl_mr x) (drop_handle V (x_data_mr x) ?d1)))"
    by simp
  from drop_block_holding [OF t this] show ?thesis by (simp add: regions_dropped_def)
qed

text \<open>
  C26. A context of new\_rdma leaks nothing: whatever \<open>init_ctx\<close> has created, with or without
  events, \<open>destroy_ctx\<close> gives back, in an order in which no destruction fails, so that the
  objects and buffers live afterwards are those that were live before.
\<close>

theorem init_ctx_destroy_ctx:
  assumes "ntracked V G" and "closed_ledger G (x_dev x0)" and "na_init_ctx V x0 = Inr x"
  shows "lg_live G (x_dev (na_destroy_ctx V x)) = lg_live G (x_dev x0)
    \<and> lg_blocks G (x_dev (na_destroy_ctx V x)) = lg_blocks G (x_dev x0)"
proof -
  let ?d0 = "x_dev x0" and ?d2 = "regions_dropped V x"
  have t: "tracked V G" using assms(1) by (simp add: ntracked_def)
  note h = na_init_ctx_holding [OF assms(1,3)]
  note differ = nobjects_differ [OF conjunct1 [OF h] conjunct2 [OF h]]
  note drop = drop_handle_holding [OF t assms(2)]
  have "holding G ?d0 ([(x_ctx x, {}), (x_channel x, {})] @ []) [] (drop_handle V (x_pd x) ?d2)"
    by (rule drop [where us = "{}"]) (use regions_dropped_holding [OF assms] differ in auto)
  then have h3: "holding G ?d0 ([(x_ctx x, {})] @ []) [] (drop_handle V (x_channel x) (drop_handle V (x_pd x) ?d2))"
    by (intro drop [where ?U1.0 = "[(x_ctx x, {})]" and us = "{}" and h = "x_channel x"]) auto
  have dev: "x_dev (na_destroy_ctx V x)
      = drop_handle V (x_ctx x) (drop_handle V (x_channel x) (drop_handle V (x_pd x) ?d2))"
    by (simp add: na_destroy_ctx_def regions_dropped_def queues_dropped_def)
  have "holding G ?d0 ([] @ []) [] (x_dev (na_destroy_ctx V x))"
    unfolding dev by (rule drop [where us = "{}"]) (use h3 in auto)
  from holding_live [OF this] show ?thesis by simp
qed

text \<open>On the device that keeps the ledger, with an event channel.\<close>

definition new_ledger_device :: "ledger_state nverbs" where
  "new_ledger_device = verbs.extend ledger_device \<lparr>ibv_query_device = (\<lambda>d c. (0, d)), qp_max_inline = (\<lambda>d q. 0),
     gid_type_line = (\<lambda>name port i. if i < 4 then Some (if i = 3 then ''RoCE v2'' else ''IB/RoCE v1'') else None),
     lrand48 = (\<lambda>d. (0x12345678, d))\<rparr>"

definition new_ledger_adapter :: "ledger_state nadapter" where
  "new_ledger_adapter = (nadapter_new 96 ls_empty)\<lparr>x_use_event := True\<rparr>"

lemma new_ledger_device_tracked: "ntracked new_ledger_device ls_ledger"
  using ledger_device_tracked by (simp add: ntracked_def tracked_def new_ledger_device_def verbs.defs)

lemmas ninit_defs = na_init_ctx_def na_create_context_def na_create_event_channel_def na_create_protect_domain_def
  na_create_register_mem_def na_create_completion_queue_def na_create_queue_pair_def na_modify_qp_to_init_def
  new_ledger_adapter_def nadapter_new_def new_ledger_device_def ledger_device_def still_device_def ls_new_def
  ls_block_def ls_empty_def verbs.defs

lemma new_ledger_init: "\<exists>x. na_init_ctx new_ledger_device new_ledger_adapter = Inr x"
  by (simp add: ninit_defs Let_def)

theorem init_ctx_destroy_ctx_witness:
  "\<exists>x. na_init_ctx new_ledger_device new_ledger_adapter = Inr x
    \<and> set (ls_live (x_dev (na_destroy_ctx new_ledger_device x))) = {}"
proof -
  obtain x where x: "na_init_ctx new_ledger_device new_ledger_adapter = Inr x" using new_ledger_init by blast
  have "closed_ledger ls_ledger (x_dev new_ledger_adapter)"
    by (simp add: closed_ledger_def new_ledger_adapter_def nadapter_new_def ls_empty_def ls_ledger_def)
  from init_ctx_destroy_ctx [OF new_ledger_device_tracked this x] x show ?thesis
    by (auto simp: new_ledger_adapter_def nadapter_new_def ls_ledger_def ls_empty_def)
qed

end
