(* ===== verification/NewSession.thy ===== *)
theory NewSession
  imports NewLifecycle
begin

text \<open>
  \<open>RDMASession\<close> and \<open>RDMAChannel\<close> of new\_rdma (new\_rdma/src/rdma\_session.cpp, src/rdma\_channel.cpp):
  a session has two channels, and the client and the server connect them one after the other by
  exchanging, over the side channel of the session, where their queue pairs are. The calls of
  \<open>PreConnector\<close> are those of the model of the sockets.
\<close>

section \<open>The side channel\<close>

record 's side =
  sd_fuel :: nat
  sd_kernel :: "'s kernel"
  sd_reset :: bool
  sd_n0 :: int

text \<open>\<open>write_exact\<close> and \<open>read_exact\<close>, fatal unless the whole message goes through; a call that
  never returns is \<open>OutOfFuel\<close>.\<close>

definition exact_send :: "'s side \<Rightarrow> u8 list \<Rightarrow> 's \<Rightarrow> 's result" where
  "exact_send S data s =
     bindR (write_exact (sd_fuel S) (sd_kernel S) (sd_reset S) (sd_n0 S) data s) (\<lambda>r. case r of
       None \<Rightarrow> Inl OutOfFuel
     | Some (n, s') \<Rightarrow> if n \<noteq> length data then Inl LogFatal else Inr s')"

definition exact_recv :: "'s side \<Rightarrow> nat \<Rightarrow> 's \<Rightarrow> (u8 list \<times> 's) result" where
  "exact_recv S cnt s =
     bindR (read_exact (sd_fuel S) (sd_kernel S) (sd_reset S) (sd_n0 S) cnt s (replicate cnt 0)) (\<lambda>r. case r of
       None \<Rightarrow> Inl OutOfFuel
     | Some (n, buf, s') \<Rightarrow> if n \<noteq> cnt then Inl LogFatal else Inr (buf, s'))"

text \<open>\<open>READY_MSG\<close> with its terminator.\<close>

definition ready_msg :: "u8 list" where
  "ready_msg = map of_char ''Ready'' @ [0]"

section \<open>Connecting a channel\<close>

definition connect_active :: "nat \<Rightarrow> 'd nverbs \<Rightarrow> 's side \<Rightarrow> 'd nadapter \<Rightarrow> 's \<Rightarrow> ('d nadapter \<times> 's) result" where
  "connect_active fuel V S x s =
     bindR (init_dest fuel V x) (\<lambda>(my_dest, x1). case my_dest of None \<Rightarrow> Inl LogFatal | Some my \<Rightarrow>
     bindR (format_dest my) (\<lambda>msg. bindR (exact_send S msg s) (\<lambda>s1.
     bindR (exact_recv S dest_size s1) (\<lambda>(bs, s2). bindR (parse_dest bs) (\<lambda>rem.
     bindR (na_connect_qp V my rem x1) (\<lambda>x2.
       let (ok, x3) = na_post_ctrl_recv V x2 in
       if \<not> ok then Inl LogFatal
       else bindR (exact_send S ready_msg s2) (\<lambda>s3. Inr (x3, s3))))))))"

definition connect_passive :: "nat \<Rightarrow> 'd nverbs \<Rightarrow> 's side \<Rightarrow> 'd nadapter \<Rightarrow> 's \<Rightarrow> ('d nadapter \<times> 's) result" where
  "connect_passive fuel V S x s =
     bindR (init_dest fuel V x) (\<lambda>(my_dest, x1). case my_dest of None \<Rightarrow> Inl LogFatal | Some my \<Rightarrow>
     bindR (exact_recv S dest_size s) (\<lambda>(bs, s1). bindR (parse_dest bs) (\<lambda>rem.
     bindR (na_connect_qp V my rem x1) (\<lambda>x2.
     bindR (format_dest my) (\<lambda>msg. bindR (exact_send S msg s1) (\<lambda>s2.
     bindR (exact_recv S (length ready_msg) s2) (\<lambda>(buf, s3).
       if buf \<noteq> ready_msg then Inl LogFatal else Inr (x2, s3))))))))"

section \<open>Sessions\<close>

text \<open>A channel is a context of priority 96 that has been initialised; the control channel is made
  first, the data channel connected first.\<close>

definition channel_new :: "'d nverbs \<Rightarrow> u8 \<Rightarrow> 'd \<Rightarrow> 'd nadapter result" where
  "channel_new V prio d = na_init_ctx V (nadapter_new prio d)"

record ('d, 's) nsession =
  ns_data :: "'d nadapter option"
  ns_ctrl :: "'d nadapter option"
  ns_pre :: "'s option"

definition new_session :: "'s option \<Rightarrow> ('d, 's) nsession" where
  "new_session pre = \<lparr>ns_data = None, ns_ctrl = None, ns_pre = pre\<rparr>"

text \<open>A pre-connector is set only once.\<close>

definition set_pre_connector :: "'s \<Rightarrow> ('d, 's) nsession \<Rightarrow> bool \<times> ('d, 's) nsession" where
  "set_pre_connector pre ss = (case ns_pre ss of None \<Rightarrow> (True, ss\<lparr>ns_pre := Some pre\<rparr>) | Some p \<Rightarrow> (False, ss))"

text \<open>Both channels share one device, whose state the second context takes from the first.\<close>

definition session_connect ::
  "bool \<Rightarrow> nat \<Rightarrow> 'd nverbs \<Rightarrow> 's side \<Rightarrow> 'd \<Rightarrow> ('d, 's) nsession \<Rightarrow> (bool \<times> 'd \<times> ('d, 's) nsession) result" where
  "session_connect is_server fuel V S d ss =
     (case ns_pre ss of None \<Rightarrow> Inr (False, d, ss) | Some s0 \<Rightarrow>
     (let connect = (if is_server then connect_passive else connect_active) in
      bindR (channel_new V 96 d) (\<lambda>ctrl.
      bindR (channel_new V 96 (x_dev ctrl)) (\<lambda>data.
      bindR (connect fuel V S data s0) (\<lambda>(data', s1).
      bindR (connect fuel V S (ctrl\<lparr>x_dev := x_dev data'\<rparr>) s1) (\<lambda>(ctrl', s2).
        Inr (True, x_dev ctrl', \<lparr>ns_data = Some data', ns_ctrl = Some ctrl', ns_pre = Some s2\<rparr>)))))))"

text \<open>\<open>get_channel\<close>: 1 is the data channel, 2 the control channel.\<close>

definition get_channel :: "int \<Rightarrow> ('d, 's) nsession \<Rightarrow> 'd nadapter option result" where
  "get_channel ctype ss = (if ctype = 1 then Inr (ns_data ss) else if ctype = 2 then Inr (ns_ctrl ss) else Inl LogFatal)"

section \<open>Messages over a duplex stream\<close>

definition duplex_ok :: "'s kernel \<Rightarrow> ('s \<Rightarrow> u8 list) \<Rightarrow> ('s \<Rightarrow> u8 list) \<Rightarrow> bool" where
  "duplex_ok k sent pending \<longleftrightarrow> sink_ok k sent \<and> stream_ok k pending
     \<and> (\<forall>s data. pending (snd (sys_write k s data)) = pending s)
     \<and> (\<forall>s n. sent (snd (snd (sys_read k s n))) = sent s)"

lemma write_exact_loop_pending:
  assumes "\<forall>s data. pending (snd (sys_write k s data)) = pending s"
  shows "write_exact_loop fuel k data s done n0 = Inr (n, m, s') \<Longrightarrow> pending s' = pending s"
proof (induction fuel arbitrary: data s "done" n0)
  case (Suc fuel)
  have "pending s1 = pending s" if "sys_write k s data = (r, s1)" for r s1
    using assms that by (metis snd_conv)
  with Suc show ?case by (auto split: if_splits prod.splits)
qed (auto split: if_splits)

lemma read_exact_loop_sent:
  assumes "\<forall>s n. sent (snd (snd (sys_read k s n))) = sent s"
  shows "read_exact_loop fuel k cnt s buf done n0 = Inr (n, m, buf', s') \<Longrightarrow> sent s' = sent s"
proof (induction fuel arbitrary: cnt s buf "done" n0)
  case (Suc fuel)
  have "sent s1 = sent s" if "sys_read k s cnt = (r, bs, s1)" for r bs s1
    using assms that by (metis snd_conv)
  with Suc show ?case by (fastforce simp: bindR_eq_Inr_iff split: if_splits prod.splits)
qed (auto split: if_splits)

lemma exact_send_ok:
  assumes "duplex_ok (sd_kernel S) sent pending" and "data \<noteq> []" and "length data \<le> sd_fuel S"
  shows "\<exists>s'. exact_send S data s = Inr s' \<and> sent s' = sent s @ data \<and> pending s' = pending s"
proof -
  obtain n s' where w: "write_exact_loop (sd_fuel S) (sd_kernel S) data s 0 (sd_n0 S) = Inr (n, length data, s')"
    "0 < n" "sent s' = sent s @ data"
    using write_exact_loop_ok [of "sd_kernel S" sent data "sd_fuel S" s 0 "sd_n0 S"] assms by (auto simp: duplex_ok_def)
  then have "pending s' = pending s"
    using assms(1) by (intro write_exact_loop_pending [OF _ w(1)]) (simp add: duplex_ok_def)
  with w show ?thesis by (auto simp: exact_send_def write_exact_def)
qed

lemma exact_recv_ok:
  assumes "duplex_ok (sd_kernel S) sent pending" and "msg \<noteq> []" and "length msg \<le> sd_fuel S" and "pending s = msg @ rest"
  shows "\<exists>s'. exact_recv S (length msg) s = Inr (msg, s') \<and> pending s' = rest \<and> sent s' = sent s"
proof -
  have "stream_ok (sd_kernel S) pending" using assms(1) by (simp add: duplex_ok_def)
  from read_exact_loop_ok [OF this assms(4,3), of "[]" "replicate (length msg) 0" "sd_n0 S"] assms(2)
  obtain n s' where r: "read_exact_loop (sd_fuel S) (sd_kernel S) (length msg) s (replicate (length msg) 0) 0 (sd_n0 S)
      = Inr (n, length msg, msg, s')" "0 < n" "pending s' = rest"
    by auto
  then have "sent s' = sent s"
    using assms(1) by (intro read_exact_loop_sent [OF _ r(1)]) (simp add: duplex_ok_def)
  with r show ?thesis by (auto simp: exact_recv_def read_exact_def)
qed

section \<open>Two channels connected to each other\<close>

text \<open>What a device does with its queue pairs, as far as connecting relies on it: transitions in
  order, each recording the number of the peer and the packet sequence numbers, and no effect of
  the other calls on them. Receives are accepted.\<close>

record qp_info =
  qi_state :: qp_state
  qi_dest :: u32
  qi_rq_psn :: u32
  qi_sq_psn :: u32

definition qp_next :: "qp_info \<Rightarrow> qp_attr \<Rightarrow> qp_info" where
  "qp_next q a = (case qa_state a of
     IBV_QPS_RTR \<Rightarrow> q\<lparr>qi_state := IBV_QPS_RTR, qi_dest := qa_dest_qp_num a, qi_rq_psn := qa_psn a\<rparr>
   | IBV_QPS_RTS \<Rightarrow> q\<lparr>qi_state := IBV_QPS_RTS, qi_sq_psn := qa_psn a\<rparr>
   | st \<Rightarrow> q\<lparr>qi_state := st\<rparr>)"

fun qp_may :: "qp_state \<Rightarrow> qp_state \<Rightarrow> bool" where
  "qp_may IBV_QPS_RESET IBV_QPS_INIT = True"
| "qp_may IBV_QPS_INIT IBV_QPS_RTR = True"
| "qp_may IBV_QPS_RTR IBV_QPS_RTS = True"
| "qp_may s t = False"

definition qps_ok :: "'d nverbs \<Rightarrow> ('d \<Rightarrow> nat \<Rightarrow> qp_info) \<Rightarrow> bool" where
  "qps_ok V qps \<longleftrightarrow>
     (\<forall>d q a. qp_may (qi_state (qps d q)) (qa_state a) \<longrightarrow> fst (ibv_modify_qp V d q a) = 0
        \<and> qps (snd (ibv_modify_qp V d q a)) = (qps d)(q := qp_next (qps d q) a))
   \<and> (\<forall>d. qps (snd (lrand48 V d)) = qps d)
   \<and> (\<forall>d c p i. qps (snd (snd (ibv_query_gid V d c p i))) = qps d)
   \<and> (\<forall>d q w. fst (ibv_post_recv V d q w) = 0 \<and> qps (snd (ibv_post_recv V d q w)) = qps d)"

lemma qps_ok_modify:
  assumes "qps_ok V qps" and "qp_may (qi_state (qps d q)) (qa_state a)"
  obtains d' where "ibv_modify_qp V d q a = (0, d')" "qps d' = (qps d)(q := qp_next (qps d q) a)"
proof (rule that [of "snd (ibv_modify_qp V d q a)"])
  have "fst (ibv_modify_qp V d q a) = 0
      \<and> qps (snd (ibv_modify_qp V d q a)) = (qps d)(q := qp_next (qps d q) a)"
    using assms unfolding qps_ok_def by blast
  then show "ibv_modify_qp V d q a = (0, snd (ibv_modify_qp V d q a))"
    "qps (snd (ibv_modify_qp V d q a)) = (qps d)(q := qp_next (qps d q) a)"
    by (simp_all add: prod_eq_iff)
qed

lemma qps_ok_keeps:
  assumes "qps_ok V qps"
  shows "lrand48 V d = (r, d') \<Longrightarrow> qps d' = qps d"
    and "ibv_query_gid V d c p i = (rc, gid, d') \<Longrightarrow> qps d' = qps d"
    and "ibv_post_recv V d q w = (rc, d') \<Longrightarrow> rc = 0 \<and> qps d' = qps d"
proof -
  show "qps d' = qps d" if "lrand48 V d = (r, d')"
  proof -
    have "qps (snd (lrand48 V d)) = qps d" using assms unfolding qps_ok_def by blast
    then show ?thesis using that by simp
  qed
  show "qps d' = qps d" if "ibv_query_gid V d c p i = (rc, gid, d')"
  proof -
    have "qps (snd (snd (ibv_query_gid V d c p i))) = qps d" using assms unfolding qps_ok_def by blast
    then show ?thesis using that by simp
  qed
  show "rc = 0 \<and> qps d' = qps d" if "ibv_post_recv V d q w = (rc, d')"
  proof -
    have "fst (ibv_post_recv V d q w) = 0 \<and> qps (snd (ibv_post_recv V d q w)) = qps d"
      using assms unfolding qps_ok_def by blast
    then show ?thesis using that by simp
  qed
qed

lemma na_connect_qp_rts:
  assumes "qps_ok V qps" and "qi_state (qps (x_dev x) (x_qp x)) = IBV_QPS_INIT"
  shows "\<exists>d. na_connect_qp V my rem x = Inr (x\<lparr>x_dev := d\<rparr>) \<and> qps d (x_qp x)
    = \<lparr>qi_state = IBV_QPS_RTS, qi_dest = d_qpn rem, qi_rq_psn = d_psn rem, qi_sq_psn = d_psn my\<rparr>"
proof -
  let ?q = "x_qp x" and ?rtr = "na_rtr_attr x rem" and ?rts = "qp_attr_zero\<lparr>qa_state := IBV_QPS_RTS, qa_psn := d_psn my\<rparr>"
  have rtr: "qa_state ?rtr = IBV_QPS_RTR" "qa_dest_qp_num ?rtr = d_qpn rem" "qa_psn ?rtr = d_psn rem"
    by (simp_all add: na_rtr_attr_def Let_def)
  obtain d1 where d1: "ibv_modify_qp V (x_dev x) ?q ?rtr = (0, d1)"
    "qps d1 = (qps (x_dev x))(?q := qp_next (qps (x_dev x) ?q) ?rtr)"
    by (rule qps_ok_modify [OF assms(1), of "x_dev x" ?q ?rtr]) (use assms(2) rtr in simp_all)
  then have q1: "qps d1 ?q = (qps (x_dev x) ?q)\<lparr>qi_state := IBV_QPS_RTR, qi_dest := d_qpn rem, qi_rq_psn := d_psn rem\<rparr>"
    using rtr by (simp add: qp_next_def)
  obtain d2 where d2: "ibv_modify_qp V d1 ?q ?rts = (0, d2)" "qps d2 = (qps d1)(?q := qp_next (qps d1 ?q) ?rts)"
    by (rule qps_ok_modify [OF assms(1), of d1 ?q ?rts]) (use q1 in simp_all)
  then have "qps d2 ?q = \<lparr>qi_state = IBV_QPS_RTS, qi_dest = d_qpn rem, qi_rq_psn = d_psn rem, qi_sq_psn = d_psn my\<rparr>"
    using q1 by (simp add: qp_next_def)
  moreover have "na_connect_qp V my rem x = Inr (x\<lparr>x_dev := d2\<rparr>)"
    using d1(1) d2(1) by (simp add: na_connect_qp_def na_modify_qp_to_rtr_def na_modify_qp_to_rts_def)
  ultimately show ?thesis by blast
qed

lemma na_post_ctrl_recv_ok:
  assumes "qps_ok V qps"
  shows "\<exists>d. na_post_ctrl_recv V x = (True, x\<lparr>x_dev := d\<rparr>) \<and> qps d = qps (x_dev x)"
proof -
  obtain rc d where p: "ibv_post_recv V (x_dev x) (x_qp x) \<lparr>rw_id = RECV_WRID, rw_sge = nctrl_sge x\<rparr> = (rc, d)"
    by (metis surj_pair)
  from qps_ok_keeps(3) [OF assms this] p show ?thesis
    by (intro exI [of _ d]) (simp add: na_post_ctrl_recv_def)
qed

lemma init_dest_keeps:
  assumes "qps_ok V qps" and "init_dest fuel V x = Inr (Some my, x1)"
  shows "qps (x_dev x1) = qps (x_dev x) \<and> x_qp x1 = x_qp x \<and> d_qpn my = x_qp_num x"
proof -
  obtain r d1 where l: "lrand48 V (x_dev x) = (r, d1)" by (metis surj_pair)
  obtain gi where gi: "get_rocev2_gid_index fuel V x 2 = Inr gi" using assms(2) l
    by (auto simp: init_dest_def bindR_eq_Inr_iff)
  obtain rc gid d2 where q: "ibv_query_gid V d1 (x_ctx x) (x_port x) gi = (rc, gid, d2)" by (metis surj_pair)
  have "x1 = x\<lparr>x_gid_index := gi, x_dev := d2\<rparr> \<and> d_qpn my = x_qp_num x"
    using assms(2) l gi q by (auto simp: init_dest_def Let_def split: if_splits)
  moreover have "qps d2 = qps (x_dev x)"
    using qps_ok_keeps(1) [OF assms(1) l] qps_ok_keeps(2) [OF assms(1) q] by simp
  ultimately show ?thesis by simp
qed

definition sendable :: "dest \<Rightarrow> bool" where
  "sendable d \<longleftrightarrow> unat (d_lid d) < 2 ^ 16 \<and> unat (d_qpn d) < 2 ^ 24 \<and> unat (d_psn d) < 2 ^ 24 \<and> length (d_gid d) = 16"


definition connected_qp :: "dest \<Rightarrow> dest \<Rightarrow> qp_info" where
  "connected_qp my rem = \<lparr>qi_state = IBV_QPS_RTS, qi_dest = d_qpn rem, qi_rq_psn = d_psn rem, qi_sq_psn = d_psn my\<rparr>"

lemma sendable_format:
  assumes "sendable d"
  obtains bs where "format_dest d = Inr bs" "length bs = 52" "bs \<noteq> []" "parse_dest bs = Inr d"
proof -
  obtain bs where bs: "format_dest d = Inr bs" "length bs = 52" "parse_dest bs = Inr d"
    using format_parse_dest [of d] assms by (auto simp: sendable_def)
  then have "bs \<noteq> []" by auto
  with bs show thesis by (intro that [of bs])
qed

text \<open>What each side of a handshake starts from.\<close>

definition fresh_side ::
  "nat \<Rightarrow> 'd nverbs \<Rightarrow> ('d \<Rightarrow> nat \<Rightarrow> qp_info) \<Rightarrow> 'd nadapter \<Rightarrow> dest \<Rightarrow> 'd nadapter
    \<Rightarrow> 's side \<Rightarrow> ('s \<Rightarrow> u8 list) \<Rightarrow> ('s \<Rightarrow> u8 list) \<Rightarrow> bool" where
  "fresh_side fuel V qps x my x1 S sent pending \<longleftrightarrow>
     qps_ok V qps \<and> qi_state (qps (x_dev x) (x_qp x)) = IBV_QPS_INIT
     \<and> init_dest fuel V x = Inr (Some my, x1) \<and> sendable my
     \<and> duplex_ok (sd_kernel S) sent pending \<and> 52 \<le> sd_fuel S"

lemma fresh_sideD:
  assumes "fresh_side fuel V qps x my x1 S sent pending"
  shows "qps_ok V qps" and "qi_state (qps (x_dev x1) (x_qp x1)) = IBV_QPS_INIT" and "x_qp x1 = x_qp x"
    and "init_dest fuel V x = Inr (Some my, x1)" and "sendable my"
    and "duplex_ok (sd_kernel S) sent pending" and "52 \<le> sd_fuel S" and "d_qpn my = x_qp_num x"
  using assms init_dest_keeps [of V qps fuel x my x1] by (simp_all add: fresh_side_def)

lemma ready_msg_length: "length ready_msg = 6" "ready_msg \<noteq> []"
  by (simp_all add: ready_msg_def)

lemma connect_active_ok:
  assumes f: "fresh_side fuel V qps x my x1 S sent pending" and "sendable rem"
    and "format_dest my = Inr ma" and "format_dest rem = Inr mb" and "pending s = mb @ rest"
  shows "\<exists>d s'. connect_active fuel V S x s = Inr (x1\<lparr>x_dev := d\<rparr>, s')
    \<and> qps d (x_qp x) = connected_qp my rem \<and> sent s' = sent s @ ma @ ready_msg \<and> pending s' = rest"
proof -
  note F = fresh_sideD [OF f]
  have ma: "length ma = 52" "ma \<noteq> []" by (rule sendable_format [OF F(5)], use assms(3) in simp)+
  have mb: "length mb = 52" "mb \<noteq> []" "parse_dest mb = Inr rem" by (rule sendable_format [OF assms(2)], use assms(4) in simp)+
  obtain s1 where s1: "exact_send S ma s = Inr s1" "sent s1 = sent s @ ma" "pending s1 = pending s"
    using exact_send_ok [OF F(6), of ma s] ma F(7) by auto
  obtain s2 where s2: "exact_recv S (length mb) s1 = Inr (mb, s2)" "pending s2 = rest" "sent s2 = sent s1"
    using exact_recv_ok [OF F(6) mb(2), of s1 rest] mb(1) F(7) s1(3) assms(5) by auto
  obtain d1 where d1: "na_connect_qp V my rem x1 = Inr (x1\<lparr>x_dev := d1\<rparr>)" "qps d1 (x_qp x1) = connected_qp my rem"
    using na_connect_qp_rts [OF F(1,2)] unfolding connected_qp_def by blast
  obtain d2 where d2: "na_post_ctrl_recv V (x1\<lparr>x_dev := d1\<rparr>) = (True, x1\<lparr>x_dev := d2\<rparr>)" "qps d2 = qps d1"
    using na_post_ctrl_recv_ok [OF F(1), of "x1\<lparr>x_dev := d1\<rparr>"] by auto
  obtain s3 where s3: "exact_send S ready_msg s2 = Inr s3" "sent s3 = sent s2 @ ready_msg" "pending s3 = pending s2"
    using exact_send_ok [OF F(6), of ready_msg s2] ready_msg_length F(7) by auto
  have "connect_active fuel V S x s = Inr (x1\<lparr>x_dev := d2\<rparr>, s3)"
    using F(4) assms(3) s1(1) s2(1) mb(1,3) d1(1) d2(1) s3(1) by (simp add: connect_active_def dest_size_def)
  moreover have "qps d2 (x_qp x) = connected_qp my rem" using d1(2) d2(2) F(3) by simp
  ultimately show ?thesis using s1 s2 s3 by auto
qed

lemma connect_passive_ok:
  assumes f: "fresh_side fuel V qps x my x1 S sent pending" and "sendable rem"
    and "format_dest my = Inr mb" and "format_dest rem = Inr ma" and "pending s = ma @ ready_msg @ rest"
  shows "\<exists>d s'. connect_passive fuel V S x s = Inr (x1\<lparr>x_dev := d\<rparr>, s')
    \<and> qps d (x_qp x) = connected_qp my rem \<and> sent s' = sent s @ mb \<and> pending s' = rest"
proof -
  note F = fresh_sideD [OF f]
  have mb: "length mb = 52" "mb \<noteq> []" by (rule sendable_format [OF F(5)], use assms(3) in simp)+
  have ma: "length ma = 52" "ma \<noteq> []" "parse_dest ma = Inr rem" by (rule sendable_format [OF assms(2)], use assms(4) in simp)+
  obtain s1 where s1: "exact_recv S (length ma) s = Inr (ma, s1)" "pending s1 = ready_msg @ rest" "sent s1 = sent s"
    using exact_recv_ok [OF F(6) ma(2), of s "ready_msg @ rest"] ma(1) F(7) assms(5) by auto
  obtain d1 where d1: "na_connect_qp V my rem x1 = Inr (x1\<lparr>x_dev := d1\<rparr>)" "qps d1 (x_qp x1) = connected_qp my rem"
    using na_connect_qp_rts [OF F(1,2)] unfolding connected_qp_def by blast
  obtain s2 where s2: "exact_send S mb s1 = Inr s2" "sent s2 = sent s1 @ mb" "pending s2 = pending s1"
    using exact_send_ok [OF F(6), of mb s1] mb F(7) by auto
  obtain s3 where s3: "exact_recv S (length ready_msg) s2 = Inr (ready_msg, s3)" "pending s3 = rest" "sent s3 = sent s2"
    using exact_recv_ok [OF F(6) ready_msg_length(2), of s2 rest] ready_msg_length(1) F(7) s1(2) s2(3) by auto
  have "connect_passive fuel V S x s = Inr (x1\<lparr>x_dev := d1\<rparr>, s3)"
    using F(4) assms(3) s1(1) s2(1) ma(1,3) d1(1) s3(1) by (simp add: connect_passive_def dest_size_def)
  then show ?thesis using d1(2) F(3) s1 s2 s3 by auto
qed


text \<open>A device that keeps its queue pairs, and a kernel whose state is what was written and what is
  still to be read, at most five bytes at a time.\<close>

definition qps_device :: "(nat \<Rightarrow> qp_info) nverbs" where
  "qps_device = verbs.extend (still_device\<lparr>ibv_modify_qp := (\<lambda>d q a.
       if qp_may (qi_state (d q)) (qa_state a) then (0, d(q := qp_next (d q) a)) else (22, d))\<rparr>)
     \<lparr>ibv_query_device = (\<lambda>d c. (0, d)), qp_max_inline = (\<lambda>d q. 0),
      gid_type_line = (\<lambda>name port i. if i < 4 then Some (if i = 3 then ''RoCE v2'' else ''IB/RoCE v1'') else None),
      lrand48 = (\<lambda>d. (0x12345678, d))\<rparr>"

lemma qps_device_ok: "qps_ok qps_device (\<lambda>d. d)"
  by (simp add: qps_ok_def qps_device_def still_device_def verbs.defs)

definition duplex_kernel :: "(u8 list \<times> u8 list) kernel" where
  "duplex_kernel = \<lparr>sys_socket = (\<lambda>s. (3, s)),
     sys_read = (\<lambda>(w, r) n. (int (length (take (min n 5) r)), take (min n 5) r, w, drop (min n 5) r)),
     sys_write = (\<lambda>(w, r) data. (int (length (take 5 data)), w @ take 5 data, r))\<rparr>"

definition duplex_side :: "(u8 list \<times> u8 list) side" where
  "duplex_side = \<lparr>sd_fuel = 60, sd_kernel = duplex_kernel, sd_reset = False, sd_n0 = 0\<rparr>"

lemma duplex_kernel_ok: "duplex_ok duplex_kernel fst snd"
proof -
  have sink: "sink_ok duplex_kernel fst"
    by (auto simp: sink_ok_def duplex_kernel_def min_def intro: exI [of _ "length (take 5 _)"])
  have stream: "stream_ok duplex_kernel snd"
    by (auto simp: stream_ok_def duplex_kernel_def min_def)
  show ?thesis using sink stream by (simp add: duplex_ok_def) (simp add: duplex_kernel_def case_prod_beta)
qed

definition shaken_adapter :: "u32 \<Rightarrow> (nat \<Rightarrow> qp_info) nadapter" where
  "shaken_adapter qpn = (nadapter_new 96 (\<lambda>q. \<lparr>qi_state = IBV_QPS_INIT, qi_dest = 0, qi_rq_psn = 0, qi_sq_psn = 0\<rparr>))
     \<lparr>x_qp := 5, x_qp_num := qpn, x_lid := 7\<rparr>"

definition shaken_dest :: "u32 \<Rightarrow> dest" where
  "shaken_dest qpn = \<lparr>d_lid = 7, d_qpn = qpn, d_psn = 0x345678, d_gid = replicate 16 9\<rparr>"

lemma shaken_side:
  assumes "unat qpn < 2 ^ 24"
  shows "fresh_side 3 qps_device (\<lambda>d. d) (shaken_adapter qpn) (shaken_dest qpn)
    (shaken_adapter qpn) duplex_side fst snd"
proof -
  have "init_dest 3 qps_device (shaken_adapter qpn) = Inr (Some (shaken_dest qpn), shaken_adapter qpn)"
    by (simp add: init_dest_def numeral_3_eq_3 qps_device_def still_device_def verbs.defs shaken_adapter_def
        nadapter_new_def shaken_dest_def DEFAULT_GID_INDEX_def)
  then show ?thesis
    using assms qps_device_ok duplex_kernel_ok
    by (simp add: fresh_side_def shaken_adapter_def nadapter_new_def sendable_def shaken_dest_def duplex_side_def)
qed


end
