(* ===== verification/NewEndpoint.thy ===== *)
theory NewEndpoint
  imports NewSession Endnode
begin

text \<open>
  \<open>RDMAEndpoint\<close>, \<open>RDMAServer\<close> and \<open>RDMAClient\<close> of new\_rdma (new\_rdma/include/rdma\_endpoint.h,
  src/rdma\_endpoint.cpp, src/rdma\_server.cpp, src/rdma\_client.cpp): preparing the socket,
  accepting and making connections, and the three services, of which \<open>start_service\<close>, over two
  channels, is the one in use. The memory that both the process and the device reach is a
  parameter. The endless loops are given a number of rounds. The branches for completion events are
  left out: the constant \<open>use_event\<close> that guards them is false.
\<close>

section \<open>End points\<close>

datatype end_type = ENDPOINT_UNKNOWN | ENDPOINT_SERVER | ENDPOINT_CLIENT

record ('d, 's) rdma_endpoint =
  ep_type :: end_type
  ep_socket :: int
  ep_sessions :: "('d, 's) nsession list"
  ep_ip :: string
  ep_port :: u16
  ep_connected :: bool

text \<open>\<open>n_bind_ip\<close> binds to an address and a port.\<close>

record 'e nnetcalls = "'e netcalls" +
  n_bind_ip :: "'e \<Rightarrow> int \<Rightarrow> string \<Rightarrow> u16 \<Rightarrow> int \<times> 'e"

text \<open>The descriptor is kept in a \<open>short\<close>.\<close>

definition short_of :: "int \<Rightarrow> int" where
  "short_of n = sint (word_of_int n :: 16 word)"

definition init_endpoint :: "'e nnetcalls \<Rightarrow> ('d, 's) rdma_endpoint \<times> 'e \<Rightarrow> (('d, 's) rdma_endpoint \<times> 'e) result" where
  "init_endpoint N = (\<lambda>(ep, e).
     if ep_socket ep \<noteq> 0 then Inr (ep, e)
     else let (r, e1) = n_socket N e; fd = short_of r in
       if fd < 0 then Inl LogFatal
       else let (rc, e2) = n_setsockopt N e1 fd SO_REUSEADDR 1 in
         if rc < 0 then Inl LogFatal else Inr (ep\<lparr>ep_socket := fd\<rparr>, e2))"

definition endpoint_new ::
  "'e nnetcalls \<Rightarrow> end_type \<Rightarrow> u16 \<Rightarrow> string \<Rightarrow> 'e \<Rightarrow> (('d, 's) rdma_endpoint \<times> 'e) result" where
  "endpoint_new N type port ip e =
     bindR (init_endpoint N (\<lparr>ep_type = type, ep_socket = 0, ep_sessions = [], ep_ip = [], ep_port = 0,
         ep_connected = False\<rparr>, e))
       (\<lambda>(ep, e1). Inr (ep\<lparr>ep_ip := ip, ep_port := port\<rparr>, e1))"

definition store_session :: "('d, 's) nsession \<Rightarrow> ('d, 's) rdma_endpoint \<Rightarrow> ('d, 's) rdma_endpoint" where
  "store_session ss ep = ep\<lparr>ep_sessions := ep_sessions ep @ [ss]\<rparr>"

definition get_session :: "int \<Rightarrow> ('d, 's) rdma_endpoint \<Rightarrow> ('d, 's) nsession option" where
  "get_session index ep =
     (if index < 0 \<or> int (length (ep_sessions ep)) \<le> index then None else Some (ep_sessions ep ! nat index))"

definition get_rdma_type_str :: "int \<Rightarrow> string result" where
  "get_rdma_type_str type =
     (let names = [''Unknown Type'', ''Server'', ''Client'', ''Undefined''] in
      if type < 0 \<or> int (length names) \<le> type then Inl LogFatal else Inr (names ! nat type))"

section \<open>Connecting\<close>

definition server_before_connect ::
  "'e nnetcalls \<Rightarrow> ('d, 's) rdma_endpoint \<times> 'e \<Rightarrow> (('d, 's) rdma_endpoint \<times> 'e) result" where
  "server_before_connect N = (\<lambda>(ep, e).
     if ep_socket ep \<noteq> 0
     then let (rc, e1) = n_bind_ip N e (ep_socket ep) (ep_ip ep) (ep_port ep) in
       if rc < 0 then Inl LogFatal
       else let (rc, e2) = n_listen N e1 (ep_socket ep) 1024 in
         if rc < 0 then Inl LogFatal else Inr (ep, e2)
     else Inl LogFatal)"

text \<open>One pass of the accepting loop, and so many of them; \<open>conn\<close> is the stream of a new
  connection.\<close>

definition server_accept ::
  "'e nnetcalls \<Rightarrow> (peer_info \<Rightarrow> 's) \<Rightarrow> ('d, 's) rdma_endpoint \<times> 'e \<Rightarrow> (('d, 's) rdma_endpoint \<times> 'e) result" where
  "server_accept N conn = (\<lambda>(ep, e).
     let (fd, ip, port, e1) = n_accept N e (ep_socket ep) in
     if fd = - 1 then Inl LogFatal
     else Inr (store_session (new_session (Some (conn (fd, ip, port)))) ep, e1))"

fun server_do_connect ::
  "nat \<Rightarrow> 'e nnetcalls \<Rightarrow> (peer_info \<Rightarrow> 's) \<Rightarrow> ('d, 's) rdma_endpoint \<times> 'e \<Rightarrow> (('d, 's) rdma_endpoint \<times> 'e) result" where
  "server_do_connect 0 N conn x = Inr x"
| "server_do_connect (Suc n) N conn x = bindR (server_accept N conn x) (server_do_connect n N conn)"

text \<open>A first try and up to \<open>n\<close> more, with a pause after each failure.\<close>

fun pre_connect_tries :: "nat \<Rightarrow> 'e nnetcalls \<Rightarrow> ('d, 's) rdma_endpoint \<Rightarrow> 'e \<Rightarrow> bool \<times> 'e" where
  "pre_connect_tries n N ep e =
     (let (rc, e1) = n_connect N e (ep_socket ep) (ep_ip ep) (ucast (ep_port ep)) in
      if rc = 0 then (True, e1)
      else case n of 0 \<Rightarrow> (False, e1) | Suc n' \<Rightarrow> pre_connect_tries n' N ep e1)"

text \<open>The outcome of the tries is not looked at; \<open>None\<close> is the null pointer.\<close>

definition pre_connecting ::
  "'e nnetcalls \<Rightarrow> ('d, 's) rdma_endpoint \<times> 'e \<Rightarrow> (peer_info option \<times> ('d, 's) rdma_endpoint \<times> 'e) result" where
  "pre_connecting N = (\<lambda>(ep, e).
     if ep_connected ep then Inr (None, ep, e)
     else if ep_socket ep = 0 then Inl LogFatal
     else let (ok, e1) = pre_connect_tries 3000 N ep e in
       Inr (Some (ep_socket ep, ep_ip ep, sint (ep_port ep)), ep\<lparr>ep_connected := True\<rparr>, e1))"

section \<open>The shared memory\<close>

record 'd memory =
  load_mem :: "'d \<Rightarrow> u64 \<Rightarrow> nat \<Rightarrow> u8 list"
  store_mem :: "'d \<Rightarrow> u64 \<Rightarrow> u8 list \<Rightarrow> 'd"

definition mem_bytes :: "mem_info \<Rightarrow> u8 list" where
  "mem_bytes m = le_bytes 8 (unat (mi_addr m)) @ le_bytes 4 (unat (mi_key m))"

definition mem_of_bytes :: "u8 list \<Rightarrow> mem_info" where
  "mem_of_bytes bs = \<lparr>mi_addr = word_of_nat (nat_of_le (take 8 bs)), mi_key = word_of_nat (nat_of_le (take 4 (drop 8 bs)))\<rparr>"

definition put_mem :: "'d memory \<Rightarrow> mem_info \<Rightarrow> 'd nadapter \<Rightarrow> 'd nadapter" where
  "put_mem M m x = x\<lparr>x_dev := store_mem M (x_dev x) (x_ctrl_buf x) (mem_bytes m)\<rparr>"

definition get_mem :: "'d memory \<Rightarrow> 'd nadapter \<Rightarrow> mem_info" where
  "get_mem M x = mem_of_bytes (load_mem M (x_dev x) (x_ctrl_buf x) 12)"

section \<open>\<open>start_service_default\<close>\<close>

definition TEST_COMPLETION :: u32 where "TEST_COMPLETION = 12345"
definition DEFAULT_ITERS :: u32 where "DEFAULT_ITERS = 100000"

definition wait_parse ::
  "nat \<Rightarrow> 'd nverbs \<Rightarrow> (wc \<Rightarrow> bool) \<Rightarrow> halt \<Rightarrow> 'd nadapter \<Rightarrow> (wc \<times> 'd nadapter) result" where
  "wait_parse fuel V p h x = bindR (wait_for_wc fuel V x) (\<lambda>(w, x1).
     case w of None \<Rightarrow> Inl h | Some c \<Rightarrow> if p c then Inr (c, x1) else Inl h)"

text \<open>The bytes the server reports as invalid.\<close>

definition invalid_bytes :: "'d memory \<Rightarrow> 'd nadapter \<Rightarrow> nat list" where
  "invalid_bytes M x = (let n = unat (x_data_buf_size x); buf = load_mem M (x_dev x) (x_data_buf x) n in
     filter (\<lambda>i. buf ! i \<noteq> word_of_nat i) [0..<n])"

definition server_start_service_default ::
  "nat \<Rightarrow> 'd nverbs \<Rightarrow> 'd memory \<Rightarrow> 'd nadapter \<Rightarrow> (nat list \<times> 'd nadapter) result" where
  "server_start_service_default fuel V M x0 =
     (let (ok, x1) = na_post_ctrl_recv V x0 in
      if \<not> ok then Inl (Exit (- 1))
      else let (ok, x2) = na_post_ctrl_send V (put_mem M (init_data_mem x1) x1) in
        if \<not> ok then Inl (Exit (- 1))
        else bindR (wait_parse fuel V parse_send_wc (Exit (- 1)) x2) (\<lambda>(w, x3).
          bindR (wait_parse fuel V parse_recv_with_imm_wc (Exit (- 1)) x3) (\<lambda>(w, x4).
          if htonl (wc_imm w) \<noteq> TEST_COMPLETION then Inl (Exit (- 1))
          else Inr (invalid_bytes M x4, na_destroy_ctx V x4))))"

text \<open>The loop over the write requests; the address and key are read from the control buffer
  at every request.\<close>

fun write_loop ::
  "nat \<Rightarrow> 'd nverbs \<Rightarrow> 'd memory \<Rightarrow> u32 \<Rightarrow> u32 \<Rightarrow> 'd nadapter \<Rightarrow> 'd nadapter result" where
  "write_loop 0 V M iters cnt x = Inl OutOfFuel"
| "write_loop (Suc fuel) V M iters cnt x =
     (let (ne, w, d) = ibv_poll_cq V (x_dev x) (x_cq x); x1 = x\<lparr>x_dev := d\<rparr> in
      if ne < 0 then Inl (Exit (- 1))
      else if ne = 0 then (if cnt < iters then write_loop fuel V M iters cnt x1 else Inr x1)
      else if \<not> parse_write_wc w then Inl (Exit (- 1))
      else if cnt + 1 < iters
      then let (ok, x2) = na_post_data_write V (get_mem M x1) x1 in
        if \<not> ok then Inl (Exit (- 1)) else write_loop fuel V M iters (cnt + 1) x2
      else write_loop fuel V M iters (cnt + 1) x1)"

definition fill_data :: "'d memory \<Rightarrow> 'd nadapter \<Rightarrow> 'd nadapter" where
  "fill_data M x = x\<lparr>x_dev := store_mem M (x_dev x) (x_data_buf x) (map word_of_nat [0..<unat (x_data_buf_size x)])\<rparr>"

definition client_start_service_default ::
  "nat \<Rightarrow> 'd nverbs \<Rightarrow> 'd memory \<Rightarrow> 'd nadapter \<Rightarrow> 'd nadapter result" where
  "client_start_service_default fuel V M x0 =
     bindR (wait_parse fuel V parse_recv_wc LogFatal (fill_data M x0)) (\<lambda>(w, x1).
       let (ok, x2) = na_post_data_write V (get_mem M x1) x1 in
       if \<not> ok then Inl (Exit (- 1))
       else bindR (if 0 < DEFAULT_ITERS then write_loop fuel V M DEFAULT_ITERS 0 x2 else Inr x2) (\<lambda>x3.
         let (ok, x4) = na_post_data_write_with_imm V (get_mem M x3) TEST_COMPLETION x3 in
         if \<not> ok then Inl (Exit (- 1))
         else bindR (wait_parse fuel V parse_write_wc (Exit (- 1)) x4) (\<lambda>(w, x5). Inr (na_destroy_ctx V x5))))"

section \<open>\<open>start_service_single_channel\<close>\<close>

fun ends_round :: "wc_opcode \<Rightarrow> bool" where
  "ends_round IBV_WC_RECV = True"
| "ends_round IBV_WC_RECV_RDMA_WITH_IMM = True"
| "ends_round op = False"

fun server_single_wait :: "nat \<Rightarrow> 'd nverbs \<Rightarrow> 'd nadapter \<Rightarrow> 'd nadapter result" where
  "server_single_wait 0 V x = Inl OutOfFuel"
| "server_single_wait (Suc fuel) V x = bindR (wait_for_wc fuel V x) (\<lambda>(w, x1). case w of
     None \<Rightarrow> Inl (Exit (- 1))
   | Some c \<Rightarrow> if wc_status c \<noteq> 0 then Inl LogFatal
               else if ends_round (wc_opcode_of c) then Inr x1 else server_single_wait fuel V x1)"

fun server_single_rounds :: "nat \<Rightarrow> nat \<Rightarrow> 'd nverbs \<Rightarrow> 'd nadapter \<Rightarrow> 'd nadapter result" where
  "server_single_rounds 0 fuel V x = Inr x"
| "server_single_rounds (Suc n) fuel V x =
     (let (ok, x1) = na_post_ctrl_recv V x in
      if \<not> ok then Inl (Exit (- 1))
      else let (ok, x2) = na_post_ctrl_send V x1 in
        if \<not> ok then Inl (Exit (- 1))
        else bindR (server_single_wait fuel V x2) (server_single_rounds n fuel V))"

definition server_start_service_single_channel ::
  "nat \<Rightarrow> nat \<Rightarrow> 'd nverbs \<Rightarrow> 'd memory \<Rightarrow> 'd nadapter \<Rightarrow> 'd nadapter result" where
  "server_start_service_single_channel n fuel V M x = server_single_rounds n fuel V (put_mem M (init_data_mem x) x)"

text \<open>The client keeps a pointer to the control buffer, so every write goes where that buffer says
  at the time.\<close>

fun client_single_passes :: "nat \<Rightarrow> nat \<Rightarrow> 'd nverbs \<Rightarrow> 'd memory \<Rightarrow> 'd nadapter \<Rightarrow> 'd nadapter result" where
  "client_single_passes 0 fuel V M x = Inr x"
| "client_single_passes (Suc n) fuel V M x = bindR (wait_for_wc fuel V x) (\<lambda>(w, x1). case w of
     None \<Rightarrow> Inl (Exit (- 1))
   | Some c \<Rightarrow>
       if wc_status c \<noteq> 0 then Inl LogFatal
       else if wc_opcode_of c = IBV_WC_RECV
       then let (ok, x2) = na_post_ctrl_recv V x1 in
         if \<not> ok then Inl LogFatal
         else let (ok, x3) = na_post_data_write_with_imm V (get_mem M x2) (x_data_buf_size x2) x2 in
           if \<not> ok then Inl (Exit (- 1)) else client_single_passes n fuel V M x3
       else client_single_passes n fuel V M x1)"

definition client_start_service_single_channel ::
  "nat \<Rightarrow> nat \<Rightarrow> 'd nverbs \<Rightarrow> 'd memory \<Rightarrow> 'd nadapter \<Rightarrow> 'd nadapter result" where
  "client_start_service_single_channel n fuel V M x = client_single_passes n fuel V M x"

section \<open>A connection that was never made\<close>

declare pre_connect_tries.simps [simp del]

lemma pre_connect_tries_fail:
  assumes "\<forall>e. fst (n_connect N e (ep_socket ep) (ep_ip ep) (ucast (ep_port ep))) \<noteq> 0"
  shows "pre_connect_tries n N ep e
    = (False, ((\<lambda>e. snd (n_connect N e (ep_socket ep) (ep_ip ep) (ucast (ep_port ep)))) ^^ Suc n) e)"
proof (induction n arbitrary: e)
  case 0
  have "fst (n_connect N e (ep_socket ep) (ep_ip ep) (ucast (ep_port ep))) \<noteq> 0" using assms by blast
  then show ?case by (simp add: pre_connect_tries.simps [of 0] case_prod_beta)
next
  case (Suc n)
  let ?f = "\<lambda>e. snd (n_connect N e (ep_socket ep) (ep_ip ep) (ucast (ep_port ep)))"
  have "fst (n_connect N e (ep_socket ep) (ep_ip ep) (ucast (ep_port ep))) \<noteq> 0" using assms by blast
  then have "pre_connect_tries (Suc n) N ep e = pre_connect_tries n N ep (?f e)"
    by (simp add: pre_connect_tries.simps [of "Suc n"] case_prod_beta)
  then show ?case using Suc.IH [of "?f e"] by (simp only: funpow_Suc_right comp_apply)
qed

text \<open>
  A client of new\_rdma that never reaches its server counts as connected: after 3001 failed tries
  \<open>pre_connecting\<close> returns a connector over the unconnected socket and sets its flag, so that no
  later call tries again.
\<close>

theorem pre_connecting_ignores_failure:
  assumes "\<forall>e. fst (n_connect N e (ep_socket ep) (ep_ip ep) (ucast (ep_port ep))) \<noteq> 0"
    and "\<not> ep_connected ep" and "ep_socket ep \<noteq> 0"
  shows "\<exists>e'. pre_connecting N (ep, e) = Inr (Some (ep_socket ep, ep_ip ep, sint (ep_port ep)), ep\<lparr>ep_connected := True\<rparr>, e')
    \<and> e' = ((\<lambda>e. snd (n_connect N e (ep_socket ep) (ep_ip ep) (ucast (ep_port ep)))) ^^ 3001) e
    \<and> (\<forall>e''. pre_connecting N (ep\<lparr>ep_connected := True\<rparr>, e'') = Inr (None, ep\<lparr>ep_connected := True\<rparr>, e''))"
  using pre_connect_tries_fail [OF assms(1), of 3000 e] assms(2,3) by (simp add: pre_connecting_def)

text \<open>A network without a server.\<close>

definition dead_net :: "nat nnetcalls" where
  "dead_net = netcalls.extend \<lparr>n_socket = (\<lambda>e. (3, e)), n_getsockopt = (\<lambda>e s so. (0, 0, e)), n_setsockopt = (\<lambda>e s so v. (0, e)),
     n_bind = (\<lambda>e s p. (0, e)), n_listen = (\<lambda>e s b. (0, e)), n_accept = (\<lambda>e s. (4, ''10.0.0.2'', 2020, e)),
     n_connect = (\<lambda>e s ip p. (- 1, Suc e))\<rparr> \<lparr>n_bind_ip = (\<lambda>e s ip p. (0, e))\<rparr>"

definition dead_client :: "(unit, unit) rdma_endpoint" where
  "dead_client = \<lparr>ep_type = ENDPOINT_CLIENT, ep_socket = 3, ep_sessions = [], ep_ip = ''10.0.0.1'', ep_port = 1251, ep_connected = False\<rparr>"

lemma Suc_funpow: "(\<lambda>e. Suc e) ^^ n = (\<lambda>e. n + e)"
  by (induction n) (simp_all add: fun_eq_iff)

theorem pre_connecting_ignores_failure_witness:
  "pre_connecting dead_net (dead_client, 0) = Inr (Some (3, ''10.0.0.1'', 1251), dead_client\<lparr>ep_connected := True\<rparr>, 3001)"
  using pre_connecting_ignores_failure [of dead_net dead_client 0]
  by (simp add: dead_net_def dead_client_def netcalls.defs Suc_funpow del: funpow.simps)

end
