(* ===== verification/NewService.thy ===== *)
theory NewService
  imports NewEndpoint
begin

text \<open>
  \<open>start_service\<close> of the server and of the client of new\_rdma (new\_rdma/src/rdma\_server.cpp,
  src/rdma\_client.cpp): the server offers its data buffer over the control channel and waits for a
  block on the data channel, again and again; the client answers each offer with a write. The two
  contexts of a session share one device.
\<close>

section \<open>Two channels\<close>

text \<open>The context of the data channel, then that of the control channel.\<close>

type_synonym 'd chans = "'d nadapter \<times> 'd nadapter"

definition share :: "'d \<Rightarrow> 'd chans \<Rightarrow> 'd chans" where
  "share d c = ((fst c)\<lparr>x_dev := d\<rparr>, (snd c)\<lparr>x_dev := d\<rparr>)"

definition on_data :: "('d nadapter \<Rightarrow> 'r \<times> 'd nadapter) \<Rightarrow> 'd chans \<Rightarrow> 'r \<times> 'd chans" where
  "on_data f c = (let (r, x) = f (fst c) in (r, share (x_dev x) c))"

definition on_ctrl :: "('d nadapter \<Rightarrow> 'r \<times> 'd nadapter) \<Rightarrow> 'd chans \<Rightarrow> 'r \<times> 'd chans" where
  "on_ctrl f c = (let (r, x) = f (snd c) in (r, share (x_dev x) c))"

text \<open>The next completion of a channel; a failure to poll is fatal.\<close>

definition wait_data :: "nat \<Rightarrow> 'd nverbs \<Rightarrow> 'd chans \<Rightarrow> (wc \<times> 'd chans) result" where
  "wait_data fuel V c = bindR (wait_for_wc fuel V (fst c)) (\<lambda>(w, x).
     case w of None \<Rightarrow> Inl LogFatal | Some w' \<Rightarrow> Inr (w', share (x_dev x) c))"

definition wait_ctrl :: "nat \<Rightarrow> 'd nverbs \<Rightarrow> 'd chans \<Rightarrow> (wc \<times> 'd chans) result" where
  "wait_ctrl fuel V c = bindR (wait_for_wc fuel V (snd c)) (\<lambda>(w, x).
     case w of None \<Rightarrow> Inl LogFatal | Some w' \<Rightarrow> Inr (w', share (x_dev x) c))"

section \<open>The server\<close>

fun server_wait :: "nat \<Rightarrow> 'd nverbs \<Rightarrow> 'd chans \<Rightarrow> 'd chans result" where
  "server_wait 0 V c = Inl OutOfFuel"
| "server_wait (Suc fuel) V c =
     bindR (wait_ctrl fuel V c) (\<lambda>(w0, c1). bindR (wait_data fuel V c1) (\<lambda>(w1, c2).
       if wc_status w0 \<noteq> 0 \<or> wc_status w1 \<noteq> 0 then Inl LogFatal
       else if ends_round (wc_opcode_of w0) \<or> ends_round (wc_opcode_of w1) then Inr c2
       else server_wait fuel V c2))"

definition server_round :: "nat \<Rightarrow> 'd nverbs \<Rightarrow> 'd chans \<Rightarrow> 'd chans result" where
  "server_round fuel V c =
     (let (ok, c1) = on_data (na_post_ctrl_recv V) c in
      if \<not> ok then Inl LogFatal
      else let (ok, c2) = on_ctrl (na_post_ctrl_send V) c1 in
        if \<not> ok then Inl LogFatal else server_wait fuel V c2)"

fun server_rounds :: "nat \<Rightarrow> nat \<Rightarrow> 'd nverbs \<Rightarrow> 'd chans \<Rightarrow> 'd chans result" where
  "server_rounds 0 fuel V c = Inr c"
| "server_rounds (Suc n) fuel V c = bindR (server_round fuel V c) (server_rounds n fuel V)"

definition server_start_service :: "nat \<Rightarrow> nat \<Rightarrow> 'd nverbs \<Rightarrow> 'd memory \<Rightarrow> 'd chans \<Rightarrow> 'd chans result" where
  "server_start_service n fuel V M c =
     server_rounds n fuel V (share (x_dev (put_mem M (init_data_mem (fst c)) (snd c))) c)"

section \<open>The client\<close>

record 'd cloop =
  cl_chans :: "'d chans"
  cl_first :: bool
  cl_rem :: mem_info
  cl_inflight :: bool

text \<open>The control receive is posted again before the address of the server is taken out of the
  control buffer, the first time, and before the block is written.\<close>

definition client_handle :: "'d nverbs \<Rightarrow> 'd memory \<Rightarrow> wc_opcode \<Rightarrow> 'd cloop \<Rightarrow> 'd cloop result" where
  "client_handle V M op l =
     (if op = IBV_WC_RECV
      then let (ok, c1) = on_ctrl (na_post_ctrl_recv V) (cl_chans l) in
        if \<not> ok then Inl LogFatal
        else let l1 = l\<lparr>cl_chans := c1, cl_first := False,
                   cl_rem := if cl_first l then get_mem M (snd c1) else cl_rem l\<rparr>;
                 (ok, c2) = on_data (\<lambda>x. na_post_data_write_with_imm V (cl_rem l1) (x_data_buf_size x) x) c1 in
          if \<not> ok then Inl LogFatal else Inr (l1\<lparr>cl_chans := c2\<rparr>)
      else Inr l)"

definition client_pass :: "nat \<Rightarrow> 'd nverbs \<Rightarrow> 'd memory \<Rightarrow> 'd cloop \<Rightarrow> 'd cloop result" where
  "client_pass fuel V M l =
     bindR (if cl_inflight l
            then bindR (wait_data fuel V (cl_chans l)) (\<lambda>(w, c).
              if wc_status w \<noteq> 0 then Inl LogFatal else Inr ([wc_opcode_of w], c))
            else Inr ([], cl_chans l)) (\<lambda>(ops, c1).
     bindR (wait_ctrl fuel V c1) (\<lambda>(w, c2).
       if wc_status w \<noteq> 0 then Inl LogFatal
       else bindR (client_handle V M (wc_opcode_of w) (l\<lparr>cl_chans := c2\<rparr>)) (\<lambda>l1.
         bindR (foldl (\<lambda>r op. bindR r (client_handle V M op)) (Inr l1) ops) (\<lambda>l2.
           Inr (l2\<lparr>cl_inflight := True\<rparr>)))))"

fun client_passes :: "nat \<Rightarrow> nat \<Rightarrow> 'd nverbs \<Rightarrow> 'd memory \<Rightarrow> 'd cloop \<Rightarrow> 'd cloop result" where
  "client_passes 0 fuel V M l = Inr l"
| "client_passes (Suc n) fuel V M l = bindR (client_pass fuel V M l) (client_passes n fuel V M)"

definition client_start :: "'d chans \<Rightarrow> 'd cloop" where
  "client_start c = \<lparr>cl_chans = c, cl_first = True, cl_rem = \<lparr>mi_addr = 0, mi_key = 0\<rparr>, cl_inflight = False\<rparr>"

definition client_start_service :: "nat \<Rightarrow> nat \<Rightarrow> 'd nverbs \<Rightarrow> 'd memory \<Rightarrow> 'd chans \<Rightarrow> 'd cloop result" where
  "client_start_service n fuel V M c = client_passes n fuel V M (client_start c)"

section \<open>Sessions and services\<close>

text \<open>What the thread of a connection does on the server, and what the client does; a session
  without channels is used all the same.\<close>

definition session_chans :: "'d \<Rightarrow> ('d, 's) nsession \<Rightarrow> 'd chans result" where
  "session_chans d ss =
     bindR (get_channel 1 ss) (\<lambda>dc. bindR (get_channel 2 ss) (\<lambda>cc. case (dc, cc) of
       (Some dx, Some cx) \<Rightarrow> Inr (share d (dx, cx)) | _ \<Rightarrow> Inl OutOfBounds))"

definition server_thread ::
  "nat \<Rightarrow> nat \<Rightarrow> 'd nverbs \<Rightarrow> 'd memory \<Rightarrow> 's side \<Rightarrow> 'd \<Rightarrow> ('d, 's) nsession \<Rightarrow> 'd chans result" where
  "server_thread n fuel V M S d ss =
     bindR (session_connect True fuel V S d ss) (\<lambda>(ok, d1, ss1).
     bindR (session_chans d1 ss1) (server_start_service n fuel V M))"

definition client_do_connect ::
  "nat \<Rightarrow> nat \<Rightarrow> 'e nnetcalls \<Rightarrow> (peer_info \<Rightarrow> 's) \<Rightarrow> 'd nverbs \<Rightarrow> 'd memory \<Rightarrow> 's side \<Rightarrow> 'd
    \<Rightarrow> ('d, 's) rdma_endpoint \<times> 'e \<Rightarrow> (('d, 's) rdma_endpoint \<times> 'd cloop \<times> 'e) result" where
  "client_do_connect n fuel N conn V M S d x =
     bindR (pre_connecting N x) (\<lambda>(peer, ep, e).
       let ss = new_session (map_option conn peer) in
       bindR (session_connect False fuel V S d ss) (\<lambda>(ok, d1, ss1).
       bindR (session_chans d1 ss1) (\<lambda>c.
       bindR (client_start_service n fuel V M c) (\<lambda>l. Inr (store_session ss1 ep, l, e)))))"

text \<open>\<open>run_async\<close> of the server up to \<open>n\<close> connections, each of which gets a thread; \<open>run\<close> of the
  server only logs. \<open>run_async\<close> of the client is fatal.\<close>

definition server_run_async ::
  "nat \<Rightarrow> 'e nnetcalls \<Rightarrow> (peer_info \<Rightarrow> 's) \<Rightarrow> ('d, 's) rdma_endpoint \<times> 'e \<Rightarrow> (('d, 's) rdma_endpoint \<times> 'e) result" where
  "server_run_async n N conn x = bindR (server_before_connect N x) (server_do_connect n N conn)"

definition client_run ::
  "nat \<Rightarrow> nat \<Rightarrow> 'e nnetcalls \<Rightarrow> (peer_info \<Rightarrow> 's) \<Rightarrow> 'd nverbs \<Rightarrow> 'd memory \<Rightarrow> 's side \<Rightarrow> 'd
    \<Rightarrow> ('d, 's) rdma_endpoint \<times> 'e \<Rightarrow> (('d, 's) rdma_endpoint \<times> 'd cloop \<times> 'e) result" where
  "client_run n fuel N conn V M S d x = client_do_connect n fuel N conn V M S d x"

definition client_run_async :: "('d, 's) rdma_endpoint \<times> 'e \<Rightarrow> (('d, 's) rdma_endpoint \<times> 'e) result" where
  "client_run_async x = Inl LogFatal"

end
