(* ===== verification/NewServiceProps.thy ===== *)
theory NewServiceProps
  imports NewService
begin

text \<open>
  What the two services of new\_rdma do on a device that works: the order of their posts, and
  where the client's blocks go.
\<close>

section \<open>A device that works\<close>

text \<open>Completions are taken in order from the queue they are on, posts are accepted and logged, and
  neither changes what the process reads; what the process writes leaves the queues alone.\<close>

datatype posted = Recv nat recv_wr | Send nat send_wr

definition driven :: "'d nverbs \<Rightarrow> 'd memory \<Rightarrow> ('d \<Rightarrow> nat \<Rightarrow> wc list) \<Rightarrow> ('d \<Rightarrow> posted list) \<Rightarrow> bool" where
  "driven V M cqs log \<longleftrightarrow>
     (\<forall>d q w ws. cqs d q = w # ws \<longrightarrow> (\<exists>d'. ibv_poll_cq V d q = (1, w, d') \<and> cqs d' = (cqs d)(q := ws)
        \<and> log d' = log d \<and> load_mem M d' = load_mem M d))
   \<and> (\<forall>d q r. \<exists>d'. ibv_post_recv V d q r = (0, d') \<and> cqs d' = cqs d \<and> log d' = log d @ [Recv q r]
        \<and> load_mem M d' = load_mem M d)
   \<and> (\<forall>d q r. \<exists>d'. ibv_post_send V d q r = (0, d') \<and> cqs d' = cqs d \<and> log d' = log d @ [Send q r]
        \<and> load_mem M d' = load_mem M d)
   \<and> (\<forall>d a bs. cqs (store_mem M d a bs) = cqs d \<and> log (store_mem M d a bs) = log d)"

lemma driven_poll:
  assumes "driven V M cqs log" and "cqs d q = w # ws"
  obtains d' where "ibv_poll_cq V d q = (1, w, d')" "cqs d' = (cqs d)(q := ws)" "log d' = log d"
    "load_mem M d' = load_mem M d"
  using assms unfolding driven_def by blast

lemma driven_recv:
  assumes "driven V M cqs log"
  obtains d' where "ibv_post_recv V d q r = (0, d')" "cqs d' = cqs d" "log d' = log d @ [Recv q r]"
    "load_mem M d' = load_mem M d"
  using assms unfolding driven_def by blast

lemma driven_send:
  assumes "driven V M cqs log"
  obtains d' where "ibv_post_send V d q r = (0, d')" "cqs d' = cqs d" "log d' = log d @ [Send q r]"
    "load_mem M d' = load_mem M d"
  using assms unfolding driven_def by blast

lemma driven_store:
  assumes "driven V M cqs log"
  shows "cqs (store_mem M d a bs) = cqs d" and "log (store_mem M d a bs) = log d"
  using assms unfolding driven_def by blast+

section \<open>The shared device\<close>

lemma share_simps [simp]:
  "share d (share d' c) = share d c" "fst (share d c) = (fst c)\<lparr>x_dev := d\<rparr>" "snd (share d c) = (snd c)\<lparr>x_dev := d\<rparr>"
  by (simp_all add: share_def)

lemma share_same: "x_dev (fst c) = d \<Longrightarrow> x_dev (snd c) = d \<Longrightarrow> share d c = c"
  by (simp add: share_def prod_eq_iff)

text \<open>The work requests, which do not depend on the device.\<close>

definition offer_recv :: "'d nadapter \<Rightarrow> posted" where
  "offer_recv x = Recv (x_qp x) \<lparr>rw_id = RECV_WRID, rw_sge = nctrl_sge x\<rparr>"

definition offer_send :: "'d nadapter \<Rightarrow> posted" where
  "offer_send x = Send (x_qp x) \<lparr>sw_id = SEND_WRID, sw_sge = nctrl_sge x, sw_opcode = IBV_WR_SEND,
     sw_signaled = True, sw_inline = x_send_inline x, sw_imm = 0, sw_remote_addr = 0, sw_rkey = 0\<rparr>"

definition block_write :: "mem_info \<Rightarrow> 'd nadapter \<Rightarrow> posted" where
  "block_write rem x = Send (x_qp x) \<lparr>sw_id = WRITE_WITH_IMM_WRID, sw_sge = ndata_sge x,
     sw_opcode = IBV_WR_RDMA_WRITE_WITH_IMM, sw_signaled = True, sw_inline = x_send_inline x,
     sw_imm = htonl (x_data_buf_size x), sw_remote_addr = mi_addr rem, sw_rkey = mi_key rem\<rparr>"

lemma sges_dev [simp]: "nctrl_sge (x\<lparr>x_dev := d\<rparr>) = nctrl_sge x" "ndata_sge (x\<lparr>x_dev := d\<rparr>) = ndata_sge x"
  by (simp_all add: nctrl_sge_def ndata_sge_def)

lemma posts_data_recv:
  assumes "driven V M cqs log"
  obtains d' where "on_data (na_post_ctrl_recv V) (share d c) = (True, share d' c)" "cqs d' = cqs d"
    "log d' = log d @ [offer_recv (fst c)]" "load_mem M d' = load_mem M d"
  using driven_recv [OF assms, of d "x_qp (fst c)" "\<lparr>rw_id = RECV_WRID, rw_sge = nctrl_sge (fst c)\<rparr>"]
  by (force simp: on_data_def na_post_ctrl_recv_def offer_recv_def)

lemma posts_ctrl_recv:
  assumes "driven V M cqs log"
  obtains d' where "on_ctrl (na_post_ctrl_recv V) (share d c) = (True, share d' c)" "cqs d' = cqs d"
    "log d' = log d @ [offer_recv (snd c)]" "load_mem M d' = load_mem M d"
  using driven_recv [OF assms, of d "x_qp (snd c)" "\<lparr>rw_id = RECV_WRID, rw_sge = nctrl_sge (snd c)\<rparr>"]
  by (force simp: on_ctrl_def na_post_ctrl_recv_def offer_recv_def)

lemma posts_ctrl_send:
  assumes "driven V M cqs log"
  obtains d' where "on_ctrl (na_post_ctrl_send V) (share d c) = (True, share d' c)" "cqs d' = cqs d"
    "log d' = log d @ [offer_send (snd c)]" "load_mem M d' = load_mem M d"
proof -
  obtain d' where "ibv_post_send V d (x_qp (snd c)) \<lparr>sw_id = SEND_WRID, sw_sge = nctrl_sge (snd c), sw_opcode = IBV_WR_SEND,
     sw_signaled = True, sw_inline = x_send_inline (snd c), sw_imm = 0, sw_remote_addr = 0, sw_rkey = 0\<rparr> = (0, d')"
    "cqs d' = cqs d" "log d' = log d @ [offer_send (snd c)]" "load_mem M d' = load_mem M d"
    unfolding offer_send_def by (rule driven_send [OF assms])
  then show thesis by (intro that [of d']) (simp_all add: on_ctrl_def na_post_ctrl_send_def na_post_send_def)
qed

lemma posts_block_write:
  assumes "driven V M cqs log"
  obtains d' where "on_data (\<lambda>x. na_post_data_write_with_imm V rem (x_data_buf_size x) x) (share d c) = (True, share d' c)"
    "cqs d' = cqs d" "log d' = log d @ [block_write rem (fst c)]" "load_mem M d' = load_mem M d"
proof -
  obtain d' where "ibv_post_send V d (x_qp (fst c)) \<lparr>sw_id = WRITE_WITH_IMM_WRID, sw_sge = ndata_sge (fst c),
     sw_opcode = IBV_WR_RDMA_WRITE_WITH_IMM, sw_signaled = True, sw_inline = x_send_inline (fst c),
     sw_imm = htonl (x_data_buf_size (fst c)), sw_remote_addr = mi_addr rem, sw_rkey = mi_key rem\<rparr> = (0, d')"
    "cqs d' = cqs d" "log d' = log d @ [block_write rem (fst c)]" "load_mem M d' = load_mem M d"
    unfolding block_write_def by (rule driven_send [OF assms])
  then show thesis
    by (intro that [of d']) (simp_all add: on_data_def na_post_data_write_with_imm_def na_post_send_def)
qed

lemma waits_data:
  assumes "driven V M cqs log" and "cqs d (x_cq (fst c)) = w # ws" and "0 < fuel"
  obtains d' where "wait_data fuel V (share d c) = Inr (w, share d' c)" "cqs d' = (cqs d)(x_cq (fst c) := ws)"
    "log d' = log d" "load_mem M d' = load_mem M d"
proof -
  obtain f where f: "fuel = Suc f" using assms(3) by (cases fuel) auto
  obtain d' where "ibv_poll_cq V d (x_cq (fst c)) = (1, w, d')" "cqs d' = (cqs d)(x_cq (fst c) := ws)" "log d' = log d"
    "load_mem M d' = load_mem M d"
    by (rule driven_poll [OF assms(1,2)])
  with f show thesis by (intro that [of d']) (simp_all add: wait_data_def)
qed

lemma waits_ctrl:
  assumes "driven V M cqs log" and "cqs d (x_cq (snd c)) = w # ws" and "0 < fuel"
  obtains d' where "wait_ctrl fuel V (share d c) = Inr (w, share d' c)" "cqs d' = (cqs d)(x_cq (snd c) := ws)"
    "log d' = log d" "load_mem M d' = load_mem M d"
proof -
  obtain f where f: "fuel = Suc f" using assms(3) by (cases fuel) auto
  obtain d' where "ibv_poll_cq V d (x_cq (snd c)) = (1, w, d')" "cqs d' = (cqs d)(x_cq (snd c) := ws)" "log d' = log d"
    "load_mem M d' = load_mem M d"
    by (rule driven_poll [OF assms(1,2)])
  with f show thesis by (intro that [of d']) (simp_all add: wait_ctrl_def)
qed

section \<open>Rounds\<close>

definition ok_wc :: "wc_opcode \<Rightarrow> u32 \<Rightarrow> wc" where
  "ok_wc op imm = \<lparr>wc_status = 0, wc_opcode_of = op, wc_imm = imm\<rparr>"

lemma server_round_ok:
  assumes "driven V M cqs log" and "x_cq (fst c) \<noteq> x_cq (snd c)" and "1 < fuel"
    and "cqs d (x_cq (snd c)) = ok_wc IBV_WC_SEND i # ss"
    and "cqs d (x_cq (fst c)) = ok_wc IBV_WC_RECV_RDMA_WITH_IMM j # rs"
  obtains d' where "server_round fuel V (share d c) = Inr (share d' c)"
    "cqs d' = (cqs d)(x_cq (snd c) := ss, x_cq (fst c) := rs)"
    "log d' = log d @ [offer_recv (fst c), offer_send (snd c)]"
proof -
  obtain f where f: "fuel = Suc f" "0 < f" using assms(3) by (cases fuel) auto
  obtain d1 where d1: "on_data (na_post_ctrl_recv V) (share d c) = (True, share d1 c)" "cqs d1 = cqs d"
    "log d1 = log d @ [offer_recv (fst c)]"
    by (rule posts_data_recv [OF assms(1)])
  obtain d2 where d2: "on_ctrl (na_post_ctrl_send V) (share d1 c) = (True, share d2 c)" "cqs d2 = cqs d1"
    "log d2 = log d1 @ [offer_send (snd c)]"
    by (rule posts_ctrl_send [OF assms(1)])
  have s: "cqs d2 (x_cq (snd c)) = ok_wc IBV_WC_SEND i # ss" using d1 d2 assms(4) by simp
  obtain d3 where d3: "wait_ctrl f V (share d2 c) = Inr (ok_wc IBV_WC_SEND i, share d3 c)"
    "cqs d3 = (cqs d2)(x_cq (snd c) := ss)" "log d3 = log d2"
    by (rule waits_ctrl [OF assms(1) s f(2)])
  have r: "cqs d3 (x_cq (fst c)) = ok_wc IBV_WC_RECV_RDMA_WITH_IMM j # rs"
    using d1 d2 d3 assms(2,5) by simp
  obtain d4 where d4: "wait_data f V (share d3 c) = Inr (ok_wc IBV_WC_RECV_RDMA_WITH_IMM j, share d4 c)"
    "cqs d4 = (cqs d3)(x_cq (fst c) := rs)" "log d4 = log d3"
    by (rule waits_data [OF assms(1) r f(2)])
  show thesis
    by (rule that [of d4]) (use d1 d2 d3 d4 f(1) in \<open>simp_all add: server_round_def ok_wc_def\<close>)
qed

lemma server_rounds_ok:
  assumes "driven V M cqs log" and "x_cq (fst c) \<noteq> x_cq (snd c)" and "1 < fuel"
  shows "cqs d (x_cq (snd c)) = replicate n (ok_wc IBV_WC_SEND 0) @ ss \<Longrightarrow>
    cqs d (x_cq (fst c)) = replicate n (ok_wc IBV_WC_RECV_RDMA_WITH_IMM j) @ rs \<Longrightarrow>
    \<exists>d'. server_rounds n fuel V (share d c) = Inr (share d' c)
      \<and> log d' = log d @ concat (replicate n [offer_recv (fst c), offer_send (snd c)])"
proof (induction n arbitrary: d)
  case 0
  show ?case by (intro exI [of _ d]) simp
next
  case (Suc n)
  obtain d1 where d1: "server_round fuel V (share d c) = Inr (share d1 c)"
    "cqs d1 = (cqs d)(x_cq (snd c) := replicate n (ok_wc IBV_WC_SEND 0) @ ss,
       x_cq (fst c) := replicate n (ok_wc IBV_WC_RECV_RDMA_WITH_IMM j) @ rs)"
    "log d1 = log d @ [offer_recv (fst c), offer_send (snd c)]"
    by (rule server_round_ok [OF assms, of d 0 "replicate n (ok_wc IBV_WC_SEND 0) @ ss" j
          "replicate n (ok_wc IBV_WC_RECV_RDMA_WITH_IMM j) @ rs"]) (use Suc.prems in simp_all)
  have q: "cqs d1 (x_cq (snd c)) = replicate n (ok_wc IBV_WC_SEND 0) @ ss"
    "cqs d1 (x_cq (fst c)) = replicate n (ok_wc IBV_WC_RECV_RDMA_WITH_IMM j) @ rs"
    using d1(2) assms(2) by simp_all
  from Suc.IH [OF q] obtain d2 where d2: "server_rounds n fuel V (share d1 c) = Inr (share d2 c)"
    "log d2 = log d1 @ concat (replicate n [offer_recv (fst c), offer_send (snd c)])" by blast
  then show ?case using d1 by (intro exI [of _ d2]) simp
qed

lemma mem_of_mem_bytes: "mem_of_bytes (mem_bytes m) = m"
proof -
  have "unat (mi_addr m) < 256 ^ 8" "unat (mi_key m) < 256 ^ 4"
    using unsigned_less [of "mi_addr m"] unsigned_less [of "mi_key m"] by simp_all
  then show ?thesis
    by (simp add: mem_bytes_def mem_of_bytes_def nat_of_le_bytes del: le_bytes.simps)
qed

lemma length_mem_bytes: "length (mem_bytes m) = 12"
  by (simp add: mem_bytes_def)

definition cloop_at :: "'d \<Rightarrow> 'd chans \<Rightarrow> bool \<Rightarrow> mem_info \<Rightarrow> bool \<Rightarrow> 'd cloop" where
  "cloop_at d c fst_time rem inflight =
     \<lparr>cl_chans = share d c, cl_first = fst_time, cl_rem = rem, cl_inflight = inflight\<rparr>"

definition held_mem :: "'d memory \<Rightarrow> 'd \<Rightarrow> 'd chans \<Rightarrow> mem_info" where
  "held_mem M d c = mem_of_bytes (load_mem M d (x_ctrl_buf (snd c)) 12)"

lemma client_handle_recv:
  assumes "driven V M cqs log" and "rem' = (if first then held_mem M d c else rem)"
  obtains d' where "client_handle V M IBV_WC_RECV (cloop_at d c first rem infl) = Inr (cloop_at d' c False rem' infl)"
    "cqs d' = cqs d" "log d' = log d @ [offer_recv (snd c), block_write rem' (fst c)]" "load_mem M d' = load_mem M d"
proof -
  obtain d1 where d1: "on_ctrl (na_post_ctrl_recv V) (share d c) = (True, share d1 c)" "cqs d1 = cqs d"
    "log d1 = log d @ [offer_recv (snd c)]" "load_mem M d1 = load_mem M d"
    by (rule posts_ctrl_recv [OF assms(1)])
  obtain d2 where d2: "on_data (\<lambda>x. na_post_data_write_with_imm V rem' (x_data_buf_size x) x) (share d1 c) = (True, share d2 c)"
    "cqs d2 = cqs d1" "log d2 = log d1 @ [block_write rem' (fst c)]" "load_mem M d2 = load_mem M d1"
    by (rule posts_block_write [OF assms(1)])
  have "get_mem M (snd (share d1 c)) = held_mem M d c" using d1(4) by (simp add: get_mem_def held_mem_def)
  then have "client_handle V M IBV_WC_RECV (cloop_at d c first rem infl) = Inr (cloop_at d2 c False rem' infl)"
    using d1(1) d2(1) assms(2) by (cases first) (simp_all add: client_handle_def cloop_at_def)
  then show thesis using d1 d2 by (intro that [of d2]) simp_all
qed

lemma client_pass_ok:
  assumes "driven V M cqs log" and "x_cq (fst c) \<noteq> x_cq (snd c)" and "0 < fuel"
    and "cqs d (x_cq (snd c)) = ok_wc IBV_WC_RECV i # rs"
    and "infl \<Longrightarrow> cqs d (x_cq (fst c)) = ok_wc IBV_WC_RDMA_WRITE j # ws"
    and "\<not> infl \<Longrightarrow> cqs d (x_cq (fst c)) = ws"
    and "rem' = (if first then held_mem M d c else rem)"
  obtains d' where "client_pass fuel V M (cloop_at d c first rem infl) = Inr (cloop_at d' c False rem' True)"
    "cqs d' (x_cq (snd c)) = rs" "cqs d' (x_cq (fst c)) = ws"
    "log d' = log d @ [offer_recv (snd c), block_write rem' (fst c)]" "load_mem M d' = load_mem M d"
proof -
  obtain d1 ops where d1: "(if infl
            then bindR (wait_data fuel V (share d c)) (\<lambda>(w, c).
              if wc_status w \<noteq> 0 then Inl LogFatal else Inr ([wc_opcode_of w], c))
            else Inr ([], share d c)) = Inr (ops, share d1 c)"
    "cqs d1 (x_cq (snd c)) = cqs d (x_cq (snd c))" "cqs d1 (x_cq (fst c)) = ws" "log d1 = log d"
    "load_mem M d1 = load_mem M d" "ops = [] \<or> ops = [IBV_WC_RDMA_WRITE]"
  proof (cases infl)
    case True
    obtain d1 where "wait_data fuel V (share d c) = Inr (ok_wc IBV_WC_RDMA_WRITE j, share d1 c)"
      "cqs d1 = (cqs d)(x_cq (fst c) := ws)" "log d1 = log d" "load_mem M d1 = load_mem M d"
      by (rule waits_data [OF assms(1) assms(5) [OF True] assms(3)])
    with True assms(2) show thesis by (intro that [of "[IBV_WC_RDMA_WRITE]" d1]) (simp_all add: ok_wc_def)
  next
    case False
    with assms(6) show thesis by (intro that [of "[]" d]) simp_all
  qed
  have s: "cqs d1 (x_cq (snd c)) = ok_wc IBV_WC_RECV i # rs" using d1(2) assms(4) by simp
  obtain d2 where d2: "wait_ctrl fuel V (share d1 c) = Inr (ok_wc IBV_WC_RECV i, share d2 c)"
    "cqs d2 = (cqs d1)(x_cq (snd c) := rs)" "log d2 = log d1" "load_mem M d2 = load_mem M d1"
    by (rule waits_ctrl [OF assms(1) s assms(3)])
  have rem: "rem' = (if first then held_mem M d2 c else rem)" using assms(7) d1(5) d2(4) by (simp add: held_mem_def)
  obtain d3 where d3: "client_handle V M IBV_WC_RECV (cloop_at d2 c first rem infl) = Inr (cloop_at d3 c False rem' infl)"
    "cqs d3 = cqs d2" "log d3 = log d2 @ [offer_recv (snd c), block_write rem' (fst c)]" "load_mem M d3 = load_mem M d2"
    by (rule client_handle_recv [OF assms(1) rem])
  have "client_pass fuel V M (cloop_at d c first rem infl) = Inr (cloop_at d3 c False rem' True)"
    using d1(1,6) d2(1) d3(1)
    by (auto simp: client_pass_def cloop_at_def ok_wc_def client_handle_def [of V M IBV_WC_RDMA_WRITE])
  then show thesis using d1 d2 d3 assms(2) by (intro that [of d3]) simp_all
qed

lemma client_passes_ok:
  assumes "driven V M cqs log" and "x_cq (fst c) \<noteq> x_cq (snd c)" and "0 < fuel"
  shows "cqs d (x_cq (snd c)) = replicate n (ok_wc IBV_WC_RECV 0) @ rs \<Longrightarrow>
    cqs d (x_cq (fst c)) = replicate n (ok_wc IBV_WC_RDMA_WRITE 0) @ ws \<Longrightarrow>
    \<exists>d'. client_passes n fuel V M (cloop_at d c False rem True) = Inr (cloop_at d' c False rem True)
      \<and> log d' = log d @ concat (replicate n [offer_recv (snd c), block_write rem (fst c)])"
proof (induction n arbitrary: d)
  case 0
  show ?case by (intro exI [of _ d]) simp
next
  case (Suc n)
  obtain d1 where d1: "client_pass fuel V M (cloop_at d c False rem True) = Inr (cloop_at d1 c False rem True)"
    "cqs d1 (x_cq (snd c)) = replicate n (ok_wc IBV_WC_RECV 0) @ rs"
    "cqs d1 (x_cq (fst c)) = replicate n (ok_wc IBV_WC_RDMA_WRITE 0) @ ws"
    "log d1 = log d @ [offer_recv (snd c), block_write rem (fst c)]"
    by (rule client_pass_ok [OF assms, of d 0 "replicate n (ok_wc IBV_WC_RECV 0) @ rs" True 0
          "replicate n (ok_wc IBV_WC_RDMA_WRITE 0) @ ws" rem False rem]) (use Suc.prems in simp_all)
  from Suc.IH [OF d1(2,3)] obtain d2 where d2:
    "client_passes n fuel V M (cloop_at d1 c False rem True) = Inr (cloop_at d2 c False rem True)"
    "log d2 = log d1 @ concat (replicate n [offer_recv (snd c), block_write rem (fst c)])" by blast
  then show ?case using d1 by (intro exI [of _ d2]) simp
qed

section \<open>The two services\<close>

lemma client_service_ok:
  assumes "driven Vc Mc cqc logc" and "1 < fuel" and "x_cq (fst c) \<noteq> x_cq (snd c)" and "c = share dc c"
    and "cqc dc (x_cq (snd c)) = replicate (Suc n) (ok_wc IBV_WC_RECV 0)"
    and "cqc dc (x_cq (fst c)) = replicate n (ok_wc IBV_WC_RDMA_WRITE 0)" and "held_mem Mc dc c = m"
  shows "\<exists>dc'. client_start_service (Suc n) fuel Vc Mc c = Inr (cloop_at dc' c False m True)
    \<and> logc dc' = logc dc @ concat (replicate (Suc n) [offer_recv (snd c), block_write m (fst c)])"
proof -
  obtain d1 where d1: "client_pass fuel Vc Mc (cloop_at dc c True \<lparr>mi_addr = 0, mi_key = 0\<rparr> False) = Inr (cloop_at d1 c False m True)"
    "cqc d1 (x_cq (snd c)) = replicate n (ok_wc IBV_WC_RECV 0)"
    "cqc d1 (x_cq (fst c)) = replicate n (ok_wc IBV_WC_RDMA_WRITE 0)"
    "logc d1 = logc dc @ [offer_recv (snd c), block_write m (fst c)]"
    by (rule client_pass_ok [OF assms(1,3), of fuel dc 0 "replicate n (ok_wc IBV_WC_RECV 0)" False 0
          "replicate n (ok_wc IBV_WC_RDMA_WRITE 0)" m True]) (use assms(2,5,6,7) in simp_all)
  obtain dc' where cli: "client_passes n fuel Vc Mc (cloop_at d1 c False m True) = Inr (cloop_at dc' c False m True)"
    "logc dc' = logc d1 @ concat (replicate n [offer_recv (snd c), block_write m (fst c)])"
    using client_passes_ok [OF assms(1,3), of fuel d1 n "[]" "[]" m] d1(2,3) assms(2) by auto
  have "client_start c = cloop_at dc c True \<lparr>mi_addr = 0, mi_key = 0\<rparr> False"
    using assms(4) by (simp add: client_start_def cloop_at_def)
  then have "client_start_service (Suc n) fuel Vc Mc c = Inr (cloop_at dc' c False m True)"
    using d1(1) cli(1) by (simp add: client_start_service_def)
  then show ?thesis using d1(4) cli(2) by auto
qed


text \<open>A device of queues, a log and blocks of memory.\<close>

record queue_dev =
  qd_cq :: "nat \<Rightarrow> wc list"
  qd_log :: "posted list"
  qd_mem :: "u64 \<Rightarrow> u8 list"

definition queue_device :: "queue_dev nverbs" where
  "queue_device = verbs.extend (still_device\<lparr>
       ibv_poll_cq := (\<lambda>d q. case qd_cq d q of [] \<Rightarrow> (0, ok_wc IBV_WC_SEND 0, d)
         | w # ws \<Rightarrow> (1, w, d\<lparr>qd_cq := (qd_cq d)(q := ws)\<rparr>)),
       ibv_post_recv := (\<lambda>d q r. (0, d\<lparr>qd_log := qd_log d @ [Recv q r]\<rparr>)),
       ibv_post_send := (\<lambda>d q r. (0, d\<lparr>qd_log := qd_log d @ [Send q r]\<rparr>))\<rparr>)
     \<lparr>ibv_query_device = (\<lambda>d c. (0, d)), qp_max_inline = (\<lambda>d q. 0), gid_type_line = (\<lambda>name port i. None),
      lrand48 = (\<lambda>d. (0, d))\<rparr>"

definition queue_memory :: "queue_dev memory" where
  "queue_memory = \<lparr>load_mem = (\<lambda>d a n. take n (qd_mem d a)), store_mem = (\<lambda>d a bs. d\<lparr>qd_mem := (qd_mem d)(a := bs)\<rparr>)\<rparr>"

lemma queue_device_driven: "driven queue_device queue_memory qd_cq qd_log"
  by (simp add: driven_def queue_device_def queue_memory_def still_device_def verbs.defs fun_eq_iff)

definition queue_chans :: "queue_dev \<Rightarrow> queue_dev chans" where
  "queue_chans d = ((nadapter_new 96 d)\<lparr>x_cq := 4, x_qp := 5, x_data_buf := 0x1000, x_data_rkey := 61, x_ctrl_buf := 0x3000\<rparr>,
     (nadapter_new 96 d)\<lparr>x_cq := 6, x_qp := 7, x_ctrl_buf := 0x2000\<rparr>)"

definition queue_server_dev :: queue_dev where
  "queue_server_dev = \<lparr>qd_cq = (\<lambda>q. if q = 6 then replicate 2 (ok_wc IBV_WC_SEND 0)
       else replicate 2 (ok_wc IBV_WC_RECV_RDMA_WITH_IMM 9)), qd_log = [], qd_mem = (\<lambda>a. [])\<rparr>"

definition queue_client_dev :: queue_dev where
  "queue_client_dev = \<lparr>qd_cq = (\<lambda>q. if q = 6 then replicate 2 (ok_wc IBV_WC_RECV 0) else replicate 1 (ok_wc IBV_WC_RDMA_WRITE 0)),
     qd_log = [], qd_mem = (\<lambda>a. mem_bytes \<lparr>mi_addr = 0x1000, mi_key = 61\<rparr>)\<rparr>"


end
