(* ===== verification/NewDefault.thy ===== *)
theory NewDefault
  imports NewServiceProps
begin

text \<open>
  \<open>start_service_default\<close> of new\_rdma (new\_rdma/src/rdma\_client.cpp, src/rdma\_server.cpp): the
  latency test, in which the client writes its block a fixed number of times, each time when the
  last one has completed, and then tells the server that it has finished.
\<close>

section \<open>A device that completes every send\<close>

definition echoing :: "'d nverbs \<Rightarrow> 'd memory \<Rightarrow> nat \<Rightarrow> ('d \<Rightarrow> wc list) \<Rightarrow> ('d \<Rightarrow> posted list) \<Rightarrow> bool" where
  "echoing V M q cq log \<longleftrightarrow>
     (\<forall>d. cq d = [] \<longrightarrow> (\<exists>w d'. ibv_poll_cq V d q = (0, w, d') \<and> cq d' = [] \<and> log d' = log d \<and> load_mem M d' = load_mem M d))
   \<and> (\<forall>d w ws. cq d = w # ws \<longrightarrow> (\<exists>d'. ibv_poll_cq V d q = (1, w, d') \<and> cq d' = ws \<and> log d' = log d \<and> load_mem M d' = load_mem M d))
   \<and> (\<forall>d p r. \<exists>d'. ibv_post_send V d p r = (0, d') \<and> cq d' = cq d @ [ok_wc IBV_WC_RDMA_WRITE 0] \<and> log d' = log d @ [Send p r]
        \<and> load_mem M d' = load_mem M d)
   \<and> (\<forall>d a bs. cq (store_mem M d a bs) = cq d \<and> log (store_mem M d a bs) = log d)
   \<and> (\<forall>d h. log (snd (ibv_destroy V d h)) = log d) \<and> (\<forall>d b. log (free_mem V d b) = log d)"

lemma echo_empty:
  assumes "echoing V M q cq log" and "cq d = []"
  obtains w d' where "ibv_poll_cq V d q = (0, w, d')" "cq d' = []" "log d' = log d" "load_mem M d' = load_mem M d"
  using assms unfolding echoing_def by blast

lemma echo_poll:
  assumes "echoing V M q cq log" and "cq d = w # ws"
  obtains d' where "ibv_poll_cq V d q = (1, w, d')" "cq d' = ws" "log d' = log d" "load_mem M d' = load_mem M d"
  using assms unfolding echoing_def by blast

lemma echo_send:
  assumes "echoing V M q cq log"
  obtains d' where "ibv_post_send V d p r = (0, d')" "cq d' = cq d @ [ok_wc IBV_WC_RDMA_WRITE 0]" "log d' = log d @ [Send p r]"
    "load_mem M d' = load_mem M d"
  using assms unfolding echoing_def by blast

lemma echo_rest:
  assumes "echoing V M q cq log"
  shows "cq (store_mem M d a bs) = cq d" and "log (store_mem M d a bs) = log d"
    and "log (snd (ibv_destroy V d h)) = log d" and "log (free_mem V d b) = log d"
  using assms unfolding echoing_def by blast+

lemma destroy_keeps_log:
  assumes "echoing V M q cq log"
  shows "log (x_dev (na_destroy_ctx V x)) = log (x_dev x)"
  using echo_rest(3,4) [OF assms] by (simp add: na_destroy_ctx_def drop_handle_def drop_block_def case_prod_beta)

section \<open>The client\<close>

definition test_write :: "mem_info \<Rightarrow> 'd nadapter \<Rightarrow> posted" where
  "test_write rem x = Send (x_qp x) \<lparr>sw_id = WRITE_WRID, sw_sge = ndata_sge x, sw_opcode = IBV_WR_RDMA_WRITE,
     sw_signaled = True, sw_inline = x_send_inline x, sw_imm = 0, sw_remote_addr = mi_addr rem, sw_rkey = mi_key rem\<rparr>"

definition test_finish :: "mem_info \<Rightarrow> 'd nadapter \<Rightarrow> posted" where
  "test_finish rem x = Send (x_qp x) \<lparr>sw_id = WRITE_WITH_IMM_WRID, sw_sge = ndata_sge x,
     sw_opcode = IBV_WR_RDMA_WRITE_WITH_IMM, sw_signaled = True, sw_inline = x_send_inline x,
     sw_imm = htonl TEST_COMPLETION, sw_remote_addr = mi_addr rem, sw_rkey = mi_key rem\<rparr>"

lemma posts_test_write:
  assumes "echoing V M q cq log"
  obtains d' where "na_post_data_write V rem (x\<lparr>x_dev := d\<rparr>) = (True, x\<lparr>x_dev := d'\<rparr>)"
    "cq d' = cq d @ [ok_wc IBV_WC_RDMA_WRITE 0]" "log d' = log d @ [test_write rem x]" "load_mem M d' = load_mem M d"
proof -
  obtain d' where "ibv_post_send V d (x_qp x) \<lparr>sw_id = WRITE_WRID, sw_sge = ndata_sge x, sw_opcode = IBV_WR_RDMA_WRITE,
     sw_signaled = True, sw_inline = x_send_inline x, sw_imm = 0, sw_remote_addr = mi_addr rem, sw_rkey = mi_key rem\<rparr> = (0, d')"
    "cq d' = cq d @ [ok_wc IBV_WC_RDMA_WRITE 0]" "log d' = log d @ [test_write rem x]" "load_mem M d' = load_mem M d"
    unfolding test_write_def by (rule echo_send [OF assms])
  then show thesis by (intro that [of d']) (simp_all add: na_post_data_write_def na_post_send_def)
qed

lemma posts_test_finish:
  assumes "echoing V M q cq log"
  obtains d' where "na_post_data_write_with_imm V rem TEST_COMPLETION (x\<lparr>x_dev := d\<rparr>) = (True, x\<lparr>x_dev := d'\<rparr>)"
    "cq d' = cq d @ [ok_wc IBV_WC_RDMA_WRITE 0]" "log d' = log d @ [test_finish rem x]" "load_mem M d' = load_mem M d"
proof -
  obtain d' where "ibv_post_send V d (x_qp x) \<lparr>sw_id = WRITE_WITH_IMM_WRID, sw_sge = ndata_sge x,
     sw_opcode = IBV_WR_RDMA_WRITE_WITH_IMM, sw_signaled = True, sw_inline = x_send_inline x,
     sw_imm = htonl TEST_COMPLETION, sw_remote_addr = mi_addr rem, sw_rkey = mi_key rem\<rparr> = (0, d')"
    "cq d' = cq d @ [ok_wc IBV_WC_RDMA_WRITE 0]" "log d' = log d @ [test_finish rem x]" "load_mem M d' = load_mem M d"
    unfolding test_finish_def by (rule echo_send [OF assms])
  then show thesis by (intro that [of d']) (simp_all add: na_post_data_write_with_imm_def na_post_send_def)
qed

lemma unat_iters_next: "unat iters = unat cnt + Suc n \<Longrightarrow> unat (cnt + 1) = Suc (unat cnt)" for cnt iters :: u32
proof -
  assume n: "unat iters = unat cnt + Suc n"
  have "unat iters < 2 ^ 32" using unsigned_less [of iters] by simp
  with n show ?thesis by (simp add: unat_word_ariths)
qed

text \<open>With one write under way and \<open>cnt\<close> completed, the loop writes until \<open>iters\<close> have been posted.\<close>

lemma write_loop_ok:
  assumes "echoing V M (x_cq x) cq log"
  shows "unat iters = unat cnt + Suc n \<Longrightarrow> n + 1 < fuel \<Longrightarrow> cq d = [ok_wc IBV_WC_RDMA_WRITE 0] \<Longrightarrow>
    mem_of_bytes (load_mem M d (x_ctrl_buf x) 12) = rem \<Longrightarrow>
    \<exists>d'. write_loop fuel V M iters cnt (x\<lparr>x_dev := d\<rparr>) = Inr (x\<lparr>x_dev := d'\<rparr>) \<and> cq d' = []
      \<and> log d' = log d @ replicate n (test_write rem x) \<and> load_mem M d' = load_mem M d"
proof (induction n arbitrary: cnt fuel d)
  case 0
  obtain f where f: "fuel = Suc (Suc f)" using 0(2) by (auto elim!: less_natE)
  obtain d1 where d1: "ibv_poll_cq V d (x_cq x) = (1, ok_wc IBV_WC_RDMA_WRITE 0, d1)" "cq d1 = []" "log d1 = log d"
    "load_mem M d1 = load_mem M d"
    by (rule echo_poll [OF assms 0(3)])
  obtain w d2 where d2: "ibv_poll_cq V d1 (x_cq x) = (0, w, d2)" "cq d2 = []" "log d2 = log d1" "load_mem M d2 = load_mem M d1"
    by (rule echo_empty [OF assms d1(2)])
  have "cnt + 1 = iters" using unat_iters_next [OF 0(1)] 0(1) by (simp add: word_unat_eq_iff)
  then show ?case using f d1 d2
    by (intro exI [of _ d2]) (simp add: parse_write_wc_def parse_wc_def ok_wc_def)
next
  case (Suc n)
  obtain f where f: "fuel = Suc f" "n + 1 < f" using Suc.prems(2) by (cases fuel) auto
  obtain d1 where d1: "ibv_poll_cq V d (x_cq x) = (1, ok_wc IBV_WC_RDMA_WRITE 0, d1)" "cq d1 = []" "log d1 = log d"
    "load_mem M d1 = load_mem M d"
    by (rule echo_poll [OF assms Suc.prems(3)])
  obtain d2 where d2: "na_post_data_write V rem (x\<lparr>x_dev := d1\<rparr>) = (True, x\<lparr>x_dev := d2\<rparr>)"
    "cq d2 = cq d1 @ [ok_wc IBV_WC_RDMA_WRITE 0]" "log d2 = log d1 @ [test_write rem x]" "load_mem M d2 = load_mem M d1"
    by (rule posts_test_write [OF assms])
  have cnt: "unat (cnt + 1) = Suc (unat cnt)" by (rule unat_iters_next [OF Suc.prems(1)])
  then have less: "cnt + 1 < iters" using Suc.prems(1) by (simp add: word_less_nat_alt)
  have "\<exists>d'. write_loop f V M iters (cnt + 1) (x\<lparr>x_dev := d2\<rparr>) = Inr (x\<lparr>x_dev := d'\<rparr>) \<and> cq d' = []
      \<and> log d' = log d2 @ replicate n (test_write rem x) \<and> load_mem M d' = load_mem M d2"
    by (rule Suc.IH) (use Suc.prems cnt f d1 d2 in simp_all)
  then obtain d' where d': "write_loop f V M iters (cnt + 1) (x\<lparr>x_dev := d2\<rparr>) = Inr (x\<lparr>x_dev := d'\<rparr>)" "cq d' = []"
    "log d' = log d2 @ replicate n (test_write rem x)" "load_mem M d' = load_mem M d2" by blast
  have "get_mem M (x\<lparr>x_dev := d1\<rparr>) = rem" using Suc.prems(4) d1(4) by (simp add: get_mem_def)
  then show ?case using f(1) d1 d2 d' less
    by (intro exI [of _ d']) (simp add: parse_write_wc_def parse_wc_def ok_wc_def)
qed

lemma waits_one:
  assumes "echoing V M (x_cq x) cq log" and "cq d = [w]" and "p w" and "0 < fuel"
  obtains d' where "wait_parse fuel V p h (x\<lparr>x_dev := d\<rparr>) = Inr (w, x\<lparr>x_dev := d'\<rparr>)" "cq d' = []" "log d' = log d"
    "load_mem M d' = load_mem M d"
proof -
  obtain f where f: "fuel = Suc f" using assms(4) by (cases fuel) auto
  obtain d' where "ibv_poll_cq V d (x_cq x) = (1, w, d')" "cq d' = []" "log d' = log d" "load_mem M d' = load_mem M d"
    by (rule echo_poll [OF assms(1,2)])
  with f assms(3) show thesis by (intro that [of d']) (simp_all add: wait_parse_def)
qed

text \<open>
  The latency test of the client, on a device that completes every send at once: when the offer of
  the server has arrived it returns, having posted exactly \<open>DEFAULT_ITERS\<close> writes to the offered
  buffer, one at a time, and then the one that tells the server that it has finished.
\<close>

theorem default_client_writes:
  assumes "echoing V M (x_cq x) cq log" and "cq (x_dev x) = [ok_wc IBV_WC_RECV 0]" and "100001 < fuel"
    and "mem_of_bytes (load_mem M (x_dev (fill_data M x)) (x_ctrl_buf x) 12) = rem"
  shows "\<exists>x'. client_start_service_default fuel V M x = Inr x'
    \<and> log (x_dev x') = log (x_dev x) @ replicate (unat DEFAULT_ITERS) (test_write rem x) @ [test_finish rem x]"
proof -
  let ?d = "x_dev (fill_data M x)"
  have fill: "fill_data M x = x\<lparr>x_dev := ?d\<rparr>" "cq ?d = [ok_wc IBV_WC_RECV 0]" "log ?d = log (x_dev x)"
    using assms(2) echo_rest(1,2) [OF assms(1)] by (simp_all add: fill_data_def)
  have fuel: "0 < fuel" "99999 + 1 < fuel" using assms(3) by simp_all
  obtain d1 where d1: "wait_parse fuel V parse_recv_wc LogFatal (x\<lparr>x_dev := ?d\<rparr>) = Inr (ok_wc IBV_WC_RECV 0, x\<lparr>x_dev := d1\<rparr>)"
    "cq d1 = []" "log d1 = log ?d" "load_mem M d1 = load_mem M ?d"
    by (rule waits_one [OF assms(1) fill(2), where p = parse_recv_wc and fuel = fuel])
      (use fuel in \<open>simp_all add: parse_recv_wc_def parse_wc_def ok_wc_def\<close>)
  obtain d2 where d2: "na_post_data_write V rem (x\<lparr>x_dev := d1\<rparr>) = (True, x\<lparr>x_dev := d2\<rparr>)"
    "cq d2 = cq d1 @ [ok_wc IBV_WC_RDMA_WRITE 0]" "log d2 = log d1 @ [test_write rem x]" "load_mem M d2 = load_mem M d1"
    by (rule posts_test_write [OF assms(1)])
  have "\<exists>d'. write_loop fuel V M DEFAULT_ITERS 0 (x\<lparr>x_dev := d2\<rparr>) = Inr (x\<lparr>x_dev := d'\<rparr>) \<and> cq d' = []
      \<and> log d' = log d2 @ replicate 99999 (test_write rem x) \<and> load_mem M d' = load_mem M d2"
    by (rule write_loop_ok [OF assms(1) _ fuel(2)])
      (use d1 d2 assms(4) in \<open>simp_all add: DEFAULT_ITERS_def\<close>)
  then obtain d3 where d3: "write_loop fuel V M DEFAULT_ITERS 0 (x\<lparr>x_dev := d2\<rparr>) = Inr (x\<lparr>x_dev := d3\<rparr>)" "cq d3 = []"
    "log d3 = log d2 @ replicate 99999 (test_write rem x)" "load_mem M d3 = load_mem M d2" by blast
  obtain d4 where d4: "na_post_data_write_with_imm V rem TEST_COMPLETION (x\<lparr>x_dev := d3\<rparr>) = (True, x\<lparr>x_dev := d4\<rparr>)"
    "cq d4 = cq d3 @ [ok_wc IBV_WC_RDMA_WRITE 0]" "log d4 = log d3 @ [test_finish rem x]"
    by (rule posts_test_finish [OF assms(1)])
  have q4: "cq d4 = [ok_wc IBV_WC_RDMA_WRITE 0]" using d3(2) d4(2) by simp
  obtain d5 where d5: "wait_parse fuel V parse_write_wc (Exit (- 1)) (x\<lparr>x_dev := d4\<rparr>) = Inr (ok_wc IBV_WC_RDMA_WRITE 0, x\<lparr>x_dev := d5\<rparr>)"
    "log d5 = log d4"
    by (rule waits_one [OF assms(1) q4, where p = parse_write_wc and fuel = fuel])
      (use fuel in \<open>simp_all add: parse_write_wc_def parse_wc_def ok_wc_def\<close>)
  have rem: "get_mem M (x\<lparr>x_dev := d1\<rparr>) = rem" "get_mem M (x\<lparr>x_dev := d3\<rparr>) = rem"
    using assms(4) d1(4) d2(4) d3(4) by (simp_all add: get_mem_def)
  have "client_start_service_default fuel V M x = Inr (na_destroy_ctx V (x\<lparr>x_dev := d5\<rparr>))"
    using d1(1) d2(1) d3(1) d4(1) d5(1) rem
    by (simp add: client_start_service_default_def fill(1) [symmetric] DEFAULT_ITERS_def [symmetric])
      (simp add: DEFAULT_ITERS_def)
  moreover have "log (x_dev (na_destroy_ctx V (x\<lparr>x_dev := d5\<rparr>))) = log (x_dev x) @ [test_write rem x] @ replicate 99999 (test_write rem x) @ [test_finish rem x]"
    using destroy_keeps_log [OF assms(1)] fill(3) d1(3) d2(3) d3(3) d4(3) d5(2) by simp
  moreover have "[test_write rem x] @ replicate 99999 (test_write rem x) = replicate (unat DEFAULT_ITERS) (test_write rem x)"
  proof -
    have "unat DEFAULT_ITERS = Suc 99999" by (simp add: DEFAULT_ITERS_def)
    then show ?thesis by (simp only: replicate_Suc append.simps)
  qed
  ultimately show ?thesis by (intro exI [of _ "na_destroy_ctx V (x\<lparr>x_dev := d5\<rparr>)"]) (metis append.assoc)
qed

text \<open>A device whose only completion queue is number 4.\<close>

definition echo_device :: "queue_dev nverbs" where
  "echo_device = verbs.extend (still_device\<lparr>
       ibv_poll_cq := (\<lambda>d q. case qd_cq d q of [] \<Rightarrow> (0, ok_wc IBV_WC_SEND 0, d)
         | w # ws \<Rightarrow> (1, w, d\<lparr>qd_cq := (qd_cq d)(q := ws)\<rparr>)),
       ibv_post_send := (\<lambda>d p r. (0, d\<lparr>qd_log := qd_log d @ [Send p r],
          qd_cq := (qd_cq d)(4 := qd_cq d 4 @ [ok_wc IBV_WC_RDMA_WRITE 0])\<rparr>))\<rparr>)
     \<lparr>ibv_query_device = (\<lambda>d c. (0, d)), qp_max_inline = (\<lambda>d q. 0), gid_type_line = (\<lambda>name port i. None),
      lrand48 = (\<lambda>d. (0, d))\<rparr>"

lemma echo_device_echoing: "echoing echo_device queue_memory 4 (\<lambda>d. qd_cq d 4) qd_log"
  by (simp add: echoing_def echo_device_def queue_memory_def still_device_def verbs.defs fun_eq_iff)

definition echo_adapter :: "queue_dev nadapter" where
  "echo_adapter = (nadapter_new 96 \<lparr>qd_cq = (\<lambda>q. [ok_wc IBV_WC_RECV 0]), qd_log = [],
       qd_mem = (\<lambda>a. mem_bytes \<lparr>mi_addr = 0x1000, mi_key = 61\<rparr>)\<rparr>)
     \<lparr>x_cq := 4, x_qp := 5, x_data_buf := 0x5000, x_ctrl_buf := 0x3000\<rparr>"

theorem default_client_writes_witness:
  "\<exists>x'. client_start_service_default 100002 echo_device queue_memory echo_adapter = Inr x'
    \<and> qd_log (x_dev x') = replicate (unat DEFAULT_ITERS) (test_write \<lparr>mi_addr = 0x1000, mi_key = 61\<rparr> echo_adapter)
        @ [test_finish \<lparr>mi_addr = 0x1000, mi_key = 61\<rparr> echo_adapter]"
proof -
  let ?m = "\<lparr>mi_addr = 0x1000, mi_key = 61\<rparr> :: mem_info"
  have a: "x_cq echo_adapter = 4" "qd_cq (x_dev echo_adapter) 4 = [ok_wc IBV_WC_RECV 0]" "qd_log (x_dev echo_adapter) = []"
    by (simp_all add: echo_adapter_def nadapter_new_def)
  have "load_mem queue_memory (x_dev (fill_data queue_memory echo_adapter)) (x_ctrl_buf echo_adapter) 12 = take 12 (mem_bytes ?m)"
    by (simp add: fill_data_def queue_memory_def echo_adapter_def nadapter_new_def)
  then have m: "mem_of_bytes (load_mem queue_memory (x_dev (fill_data queue_memory echo_adapter)) (x_ctrl_buf echo_adapter) 12) = ?m"
    using mem_of_mem_bytes [of ?m] length_mem_bytes [of ?m] by simp
  show ?thesis
    using default_client_writes [of echo_device queue_memory echo_adapter "\<lambda>d. qd_cq d 4" qd_log 100002 ?m]
      echo_device_echoing a m by simp
qed

end
