(* ===== verification/NewExchange.thy ===== *)
theory NewExchange
  imports NewService Steps
begin

text \<open>
  The two services of new\_rdma against each other: \<open>RDMAServer::start_service\<close> and
  \<open>RDMAClient::start_service\<close>, interleaved with each other and with the two reliable queue pairs
  between them, after the handshake, when the client has a receive posted on the control channel.
  A message that finds no receive is "receiver not ready". The sender's completion comes at some
  time after the message has arrived.
\<close>

section \<open>Program points\<close>

text \<open>Where the server is in its loop: before its post of the receive, before its offer, and before its
  waits for the control channel and for the data channel, with what the former answered. The client
  waits for the data channel when a block is under way, then for the control channel, and then handles
  the completions, in two posts for an offer.\<close>

datatype server_pc = S_PostRecv | S_Offer | S_WaitCtrl | S_WaitData wc_opcode
datatype client_pc = C_WaitData | C_WaitCtrl "wc_opcode list" | C_Handle "wc_opcode list" | C_Write "wc_opcode list"

record exch =
  e_srv :: server_pc
  e_cli :: client_pc
  e_srv_recvs :: nat
  e_cli_recvs :: nat
  e_offers :: nat
  e_blocks :: nat
  e_offer_acks :: nat
  e_block_acks :: nat
  e_srv_ctrl :: "wc_opcode list"
  e_srv_data :: "wc_opcode list"
  e_cli_ctrl :: "wc_opcode list"
  e_cli_data :: "wc_opcode list"
  e_rem_set :: bool
  e_inflight :: bool
  e_lost :: bool
  e_blind :: bool
  e_rounds :: nat

definition exch_init :: exch where
  "exch_init = \<lparr>e_srv = S_PostRecv, e_cli = C_WaitCtrl [], e_srv_recvs = 0, e_cli_recvs = 1, e_offers = 0, e_blocks = 0,
     e_offer_acks = 0, e_block_acks = 0, e_srv_ctrl = [], e_srv_data = [], e_cli_ctrl = [], e_cli_data = [],
     e_rem_set = False, e_inflight = False, e_lost = False, e_blind = False, e_rounds = 0\<rparr>"

inductive exch_step :: "exch \<Rightarrow> exch \<Rightarrow> bool" where
  post_recv: "e_srv e = S_PostRecv \<Longrightarrow> exch_step e (e\<lparr>e_srv := S_Offer, e_srv_recvs := Suc (e_srv_recvs e)\<rparr>)"
| offer: "e_srv e = S_Offer \<Longrightarrow> exch_step e (e\<lparr>e_srv := S_WaitCtrl, e_offers := Suc (e_offers e)\<rparr>)"
| srv_ctrl: "e_srv e = S_WaitCtrl \<Longrightarrow> e_srv_ctrl e = op # ops \<Longrightarrow>
     exch_step e (e\<lparr>e_srv := S_WaitData op, e_srv_ctrl := ops\<rparr>)"
| srv_data: "e_srv e = S_WaitData op \<Longrightarrow> e_srv_data e = op' # ops \<Longrightarrow>
     exch_step e (e\<lparr>e_srv := if ends_round op \<or> ends_round op' then S_PostRecv else S_WaitCtrl, e_srv_data := ops,
       e_rounds := if ends_round op \<or> ends_round op' then Suc (e_rounds e) else e_rounds e\<rparr>)"
| cli_data: "e_cli e = C_WaitData \<Longrightarrow> e_cli_data e = op # ops \<Longrightarrow>
     exch_step e (e\<lparr>e_cli := C_WaitCtrl [op], e_cli_data := ops\<rparr>)"
| cli_ctrl: "e_cli e = C_WaitCtrl ops' \<Longrightarrow> e_cli_ctrl e = op # ops \<Longrightarrow>
     exch_step e (e\<lparr>e_cli := C_Handle (op # ops'), e_cli_ctrl := ops\<rparr>)"
| repost: "e_cli e = C_Handle (IBV_WC_RECV # ops) \<Longrightarrow>
     exch_step e (e\<lparr>e_cli := C_Write ops, e_cli_recvs := Suc (e_cli_recvs e), e_rem_set := True\<rparr>)"
| skip: "e_cli e = C_Handle (op # ops) \<Longrightarrow> op \<noteq> IBV_WC_RECV \<Longrightarrow> exch_step e (e\<lparr>e_cli := C_Handle ops\<rparr>)"
| cli_write: "e_cli e = C_Write ops \<Longrightarrow>
     exch_step e (e\<lparr>e_cli := C_Handle ops, e_blocks := Suc (e_blocks e), e_blind := (e_blind e \<or> \<not> e_rem_set e)\<rparr>)"
| again: "e_cli e = C_Handle [] \<Longrightarrow> exch_step e (e\<lparr>e_cli := C_WaitData, e_inflight := True\<rparr>)"
| offer_arrives: "0 < e_offers e \<Longrightarrow> 0 < e_cli_recvs e \<Longrightarrow>
     exch_step e (e\<lparr>e_offers := e_offers e - 1, e_cli_recvs := e_cli_recvs e - 1,
       e_cli_ctrl := e_cli_ctrl e @ [IBV_WC_RECV], e_offer_acks := Suc (e_offer_acks e)\<rparr>)"
| offer_lost: "0 < e_offers e \<Longrightarrow> e_cli_recvs e = 0 \<Longrightarrow> exch_step e (e\<lparr>e_lost := True\<rparr>)"
| offer_acked: "0 < e_offer_acks e \<Longrightarrow>
     exch_step e (e\<lparr>e_offer_acks := e_offer_acks e - 1, e_srv_ctrl := e_srv_ctrl e @ [IBV_WC_SEND]\<rparr>)"
| block_arrives: "0 < e_blocks e \<Longrightarrow> 0 < e_srv_recvs e \<Longrightarrow>
     exch_step e (e\<lparr>e_blocks := e_blocks e - 1, e_srv_recvs := e_srv_recvs e - 1,
       e_srv_data := e_srv_data e @ [IBV_WC_RECV_RDMA_WITH_IMM], e_block_acks := Suc (e_block_acks e)\<rparr>)"
| block_lost: "0 < e_blocks e \<Longrightarrow> e_srv_recvs e = 0 \<Longrightarrow> exch_step e (e\<lparr>e_lost := True\<rparr>)"
| block_acked: "0 < e_block_acks e \<Longrightarrow>
     exch_step e (e\<lparr>e_block_acks := e_block_acks e - 1, e_cli_data := e_cli_data e @ [IBV_WC_RDMA_WRITE]\<rparr>)"

inductive exch_reach :: "exch \<Rightarrow> bool" where
  init: "exch_reach exch_init"
| step: "exch_reach e \<Longrightarrow> exch_step e e' \<Longrightarrow> exch_reach e'"

section \<open>One token goes round\<close>

text \<open>How many completions are waiting, and how many of them are offers.\<close>

definition qlen :: "wc_opcode list \<Rightarrow> nat" where
  "qlen ops = length ops"

definition offers_in :: "wc_opcode list \<Rightarrow> nat" where
  "offers_in ops = length (filter (\<lambda>op. op = IBV_WC_RECV) ops)"

lemma queue_counts [simp]:
  "qlen [] = 0" "qlen (op # ops) = Suc (qlen ops)" "qlen (ops @ ops') = qlen ops + qlen ops'"
  "offers_in [] = 0" "offers_in (op # ops) = (if op = IBV_WC_RECV then 1 else 0) + offers_in ops"
  by (simp_all add: qlen_def offers_in_def)

text \<open>The token is the right to send: an offer under way, received or being answered, a block under way
  or received, or the server about to make the next offer. \<open>offer_token\<close> and \<open>block_token\<close> count
  the halves of the way.\<close>

definition handling :: "client_pc \<Rightarrow> nat" where
  "handling p = (case p of C_Handle ops \<Rightarrow> offers_in ops
     | C_Write ops \<Rightarrow> Suc (offers_in ops) | C_WaitCtrl ops \<Rightarrow> offers_in ops
     | C_WaitData \<Rightarrow> 0)"

definition offering :: "server_pc \<Rightarrow> nat" where
  "offering p = (case p of S_PostRecv \<Rightarrow> 1 | S_Offer \<Rightarrow> 1 | _ \<Rightarrow> 0)"

text \<open>Completions of the sends that the two sides still have to take.\<close>

definition sends_due :: "exch \<Rightarrow> nat" where
  "sends_due e = e_offers e + e_offer_acks e + qlen (e_srv_ctrl e)"

definition writes_due :: "exch \<Rightarrow> nat" where
  "writes_due e = e_blocks e + e_block_acks e + qlen (e_cli_data e)"

definition srv_waits :: "server_pc \<Rightarrow> nat" where
  "srv_waits p = (case p of S_WaitCtrl \<Rightarrow> 1 | _ \<Rightarrow> 0)"

definition exch_inv :: "exch \<Rightarrow> bool" where
  "exch_inv e \<longleftrightarrow> offering (e_srv e) + e_offers e + qlen (e_cli_ctrl e) + handling (e_cli e) + e_blocks e
        + qlen (e_srv_data e) = 1
     \<and> e_srv_recvs e + qlen (e_srv_data e) = (if e_srv e = S_PostRecv then 0 else 1)
     \<and> set (e_srv_ctrl e) \<subseteq> {IBV_WC_SEND} \<and> set (e_srv_data e) \<subseteq> {IBV_WC_RECV_RDMA_WITH_IMM}
     \<and> set (e_cli_ctrl e) \<subseteq> {IBV_WC_RECV} \<and> set (e_cli_data e) \<subseteq> {IBV_WC_RDMA_WRITE}
     \<and> (\<forall>op. e_srv e = S_WaitData op \<longrightarrow> op = IBV_WC_SEND)
     \<and> sends_due e = srv_waits (e_srv e)
     \<and> e_cli_recvs e + qlen (e_cli_ctrl e) + (case e_cli e of C_Handle ops \<Rightarrow> handling (C_Handle ops) | _ \<Rightarrow> 0) = 1
     \<and> (case e_cli e of
          C_WaitData \<Rightarrow> writes_due e = 1 \<and> e_inflight e
        | C_WaitCtrl ops \<Rightarrow> writes_due e = 0 \<and> ops \<in> {[], [IBV_WC_RDMA_WRITE]}
        | C_Handle ops \<Rightarrow> (ops \<in> {[IBV_WC_RECV], [IBV_WC_RECV, IBV_WC_RDMA_WRITE]} \<and> writes_due e = 0)
             \<or> (ops \<in> {[], [IBV_WC_RDMA_WRITE]} \<and> writes_due e = 1)
        | C_Write ops \<Rightarrow> ops \<in> {[], [IBV_WC_RDMA_WRITE]} \<and> writes_due e = 0 \<and> e_rem_set e)
     \<and> \<not> e_lost e \<and> \<not> e_blind e"

lemma exch_inv_init: "exch_inv exch_init"
  by (simp add: exch_inv_def exch_init_def offering_def handling_def sends_due_def srv_waits_def writes_due_def)

lemmas exch_counts = exch_inv_def offering_def handling_def sends_due_def srv_waits_def writes_due_def

lemma exch_step_inv:
  assumes "exch_step e e'" and "exch_inv e"
  shows "exch_inv e'"
  using assms
proof cases
  case (srv_data op op' ops)
  then show ?thesis using assms(2) by (auto simp: exch_counts split: client_pc.splits)
next
  case (cli_ctrl ops' op ops)
  then show ?thesis using assms(2) by (auto simp: exch_counts split: server_pc.splits)
qed (auto simp: exch_counts split: server_pc.splits client_pc.splits if_splits)

lemma exch_reach_inv: "exch_reach e \<Longrightarrow> exch_inv e"
  by (induction rule: exch_reach.induct) (auto intro: exch_inv_init exch_step_inv)

text \<open>
  C12. The exchange of new\_rdma is safe: in every interleaving of the two services and the wires, with
  completions of sends as late as one likes, every offer and every block find a posted receive, the
  client never writes a block before it knows where to, and the server has looked at a block before
  the next one is written into its buffer.
\<close>

theorem exchange_safe:
  assumes "exch_reach e"
  shows "\<not> e_lost e \<and> \<not> e_blind e \<and> (0 < e_offers e \<longrightarrow> 0 < e_cli_recvs e) \<and> (0 < e_blocks e \<longrightarrow> 0 < e_srv_recvs e)
    \<and> e_blocks e + qlen (e_srv_data e) \<le> 1"
  using exch_reach_inv [OF assms] by (auto simp: exch_counts split: client_pc.splits server_pc.splits)

definition exch_offered :: exch where
  "exch_offered = exch_init\<lparr>e_srv := S_WaitCtrl, e_srv_recvs := 1, e_offers := 1\<rparr>"

lemma exch_offered_reach: "exch_reach exch_offered"
proof -
  have "exch_step exch_init (exch_init\<lparr>e_srv := S_Offer, e_srv_recvs := 1\<rparr>)"
    using exch_step.post_recv [of exch_init] by (simp add: exch_init_def)
  moreover have "exch_step (exch_init\<lparr>e_srv := S_Offer, e_srv_recvs := 1\<rparr>) exch_offered"
    using exch_step.offer [of "exch_init\<lparr>e_srv := S_Offer, e_srv_recvs := 1\<rparr>"]
    by (simp add: exch_init_def exch_offered_def)
  ultimately show ?thesis by (blast intro: exch_reach.intros)
qed

theorem exchange_safe_witness: "\<not> e_lost exch_offered \<and> 0 < e_cli_recvs exch_offered"
  using exchange_safe [OF exch_offered_reach] by (simp add: exch_offered_def)

section \<open>Progress\<close>

definition cli_weight :: "client_pc \<Rightarrow> nat" where
  "cli_weight p = (case p of C_WaitData \<Rightarrow> 4 | C_WaitCtrl ops \<Rightarrow> 3 | C_Handle ops \<Rightarrow> 5 + qlen ops + 15 * offers_in ops
     | C_Write ops \<Rightarrow> 20 + qlen ops)"

definition srv_weight :: "server_pc \<Rightarrow> nat" where
  "srv_weight p = (case p of S_PostRecv \<Rightarrow> 50 | S_Offer \<Rightarrow> 49 | S_WaitCtrl \<Rightarrow> 1 | S_WaitData op \<Rightarrow> 0)"

definition exch_distance :: "exch \<Rightarrow> nat" where
  "exch_distance e = srv_weight (e_srv e) + cli_weight (e_cli e) + 40 * e_offers e + 30 * qlen (e_cli_ctrl e)
     + 10 * e_blocks e + 5 * qlen (e_srv_data e) + 2 * e_offer_acks e + qlen (e_srv_ctrl e) + 2 * e_block_acks e
     + qlen (e_cli_data e)"

lemmas exch_weights = exch_distance_def cli_weight_def srv_weight_def

lemma qlen_Suc: "qlen ops = Suc n \<Longrightarrow> \<exists>op ops'. ops = op # ops'"
  by (cases ops) auto

definition exch_closer :: "exch \<Rightarrow> bool" where
  "exch_closer e \<longleftrightarrow> (\<exists>e'. exch_step e e' \<and> (e_rounds e' = Suc (e_rounds e) \<or> e_rounds e' = e_rounds e \<and> exch_distance e' < exch_distance e))"

lemma closerI: "exch_step e e' \<Longrightarrow> e_rounds e' = e_rounds e \<Longrightarrow> exch_distance e' < exch_distance e \<Longrightarrow> exch_closer e"
  unfolding exch_closer_def by blast

text \<open>An offer has been received: the client comes round to take it.\<close>

lemma client_comes_round:
  assumes "exch_inv e" and "qlen (e_cli_ctrl e) = 1"
  shows "exch_closer e"
proof (cases "e_cli e")
  case C_WaitData
  then have w: "e_block_acks e + qlen (e_cli_data e) = 1" using assms by (simp add: exch_counts)
  show ?thesis
  proof (cases "e_block_acks e")
    case 0
    with w obtain op ops where "e_cli_data e = op # ops" using qlen_Suc by fastforce
    with C_WaitData show ?thesis by (intro closerI [OF exch_step.cli_data]; simp add: exch_weights; linarith)
  next
    case (Suc n)
    then show ?thesis by (intro closerI [OF exch_step.block_acked]) (simp_all add: exch_weights)
  qed
next
  case (C_WaitCtrl ops')
  obtain op ops where c: "e_cli_ctrl e = op # ops" using qlen_Suc [of "e_cli_ctrl e" 0] assms(2) by auto
  from C_WaitCtrl assms have "ops' \<in> {[], [IBV_WC_RDMA_WRITE]}" by (simp add: exch_counts)
  with C_WaitCtrl c show ?thesis
    by (intro closerI [OF exch_step.cli_ctrl [OF C_WaitCtrl c]]) (auto simp: exch_weights)
next
  case (C_Handle ops)
  with assms have "ops = [] \<or> ops = [IBV_WC_RDMA_WRITE]" by (auto simp: exch_counts)
  then show ?thesis
  proof
    assume "ops = []"
    with C_Handle show ?thesis by (intro closerI [OF exch_step.again]) (simp_all add: exch_weights)
  next
    assume "ops = [IBV_WC_RDMA_WRITE]"
    with C_Handle have h: "e_cli e = C_Handle (IBV_WC_RDMA_WRITE # [])" by simp
    show ?thesis by (intro closerI [OF exch_step.skip [OF h]]) (simp_all add: exch_weights h)
  qed
next
  case (C_Write ops)
  with assms show ?thesis by (simp add: exch_counts)
qed

text \<open>The client is handling an offer.\<close>

lemma client_answers:
  assumes "exch_inv e" and "handling (e_cli e) = 1"
  shows "exch_closer e"
proof (cases "e_cli e")
  case C_WaitData
  with assms show ?thesis by (simp add: exch_counts)
next
  case (C_WaitCtrl ops)
  with assms show ?thesis by (auto simp: exch_counts)
next
  case (C_Handle ops)
  with assms obtain ops' where "e_cli e = C_Handle (IBV_WC_RECV # ops')" by (auto simp: exch_counts)
  then show ?thesis by (intro closerI [OF exch_step.repost]; simp add: exch_weights; linarith)
next
  case (C_Write ops)
  with assms have "offers_in ops = 0" by (auto simp: exch_counts)
  then show ?thesis by (intro closerI [OF exch_step.cli_write [OF C_Write]]) (simp_all add: exch_weights C_Write)
qed

text \<open>A block has been received: the server comes round to take it.\<close>

lemma server_comes_round:
  assumes "exch_inv e" and "qlen (e_srv_data e) = 1"
  shows "exch_closer e"
proof (cases "e_srv e")
  case S_PostRecv
  with assms show ?thesis by (simp add: exch_counts)
next
  case S_Offer
  with assms show ?thesis by (simp add: exch_counts)
next
  case S_WaitCtrl
  then have w: "e_offer_acks e + qlen (e_srv_ctrl e) = 1" using assms by (simp add: exch_counts)
  show ?thesis
  proof (cases "e_offer_acks e")
    case 0
    with w obtain op ops where "e_srv_ctrl e = op # ops" using qlen_Suc by fastforce
    with S_WaitCtrl show ?thesis by (intro closerI [OF exch_step.srv_ctrl]; simp add: exch_weights; linarith)
  next
    case (Suc n)
    then show ?thesis by (intro closerI [OF exch_step.offer_acked]) (simp_all add: exch_weights)
  qed
next
  case (S_WaitData op)
  obtain op' ops where d: "e_srv_data e = op' # ops" using qlen_Suc [of "e_srv_data e" 0] assms(2) by auto
  with assms have "op' = IBV_WC_RECV_RDMA_WITH_IMM" by (simp add: exch_counts)
  with S_WaitData d exch_step.srv_data [OF S_WaitData d] show ?thesis
    unfolding exch_closer_def by (intro exI conjI) auto
qed

lemma exchange_advances:
  assumes "exch_inv e"
  shows "exch_closer e"
proof -
  have one: "offering (e_srv e) + e_offers e + qlen (e_cli_ctrl e) + handling (e_cli e) + e_blocks e + qlen (e_srv_data e) = 1"
    using assms by (simp add: exch_inv_def)
  consider "offering (e_srv e) = 1" | "e_offers e = 1" | "qlen (e_cli_ctrl e) = 1" | "handling (e_cli e) = 1"
    | "e_blocks e = 1" | "qlen (e_srv_data e) = 1"
    using one by linarith
  then show ?thesis
  proof cases
    case 1
    then consider "e_srv e = S_PostRecv" | "e_srv e = S_Offer" by (auto simp: offering_def split: server_pc.splits)
    then show ?thesis
    proof cases
      case 1
      then show ?thesis by (intro closerI [OF exch_step.post_recv]) (simp_all add: exch_weights)
    next
      case 2
      then show ?thesis by (intro closerI [OF exch_step.offer]) (simp_all add: exch_weights)
    qed
  next
    case 2
    with one assms have "0 < e_cli_recvs e" by (auto simp: exch_counts split: client_pc.splits)
    with 2 show ?thesis by (intro closerI [OF exch_step.offer_arrives]) (simp_all add: exch_weights)
  next
    case 3
    with assms show ?thesis by (rule client_comes_round)
  next
    case 4
    with assms show ?thesis by (rule client_answers)
  next
    case 5
    with one assms have "0 < e_srv_recvs e" by (auto simp: exch_counts split: server_pc.splits)
    with 5 show ?thesis by (intro closerI [OF exch_step.block_arrives]) (simp_all add: exch_weights)
  next
    case 6
    with assms show ?thesis by (rule server_comes_round)
  qed
qed

interpretation rounds: counted_progress exch_step exch_inv exch_distance e_rounds
proof
  fix e assume inv: "exch_inv e"
  show "\<exists>e'. exch_step e e' \<and> (e_rounds e' = Suc (e_rounds e) \<or>
      e_rounds e' = e_rounds e \<and> exch_inv e' \<and> exch_distance e' < exch_distance e)"
    using exchange_advances [OF inv] exch_step_inv [OF _ inv] unfolding exch_closer_def by blast
qed

text \<open>
  C13. The exchange of new\_rdma never gets stuck: from every reachable state the two services and the
  wires can go on until the server has finished one more round.
\<close>

theorem exchange_progress:
  assumes "exch_reach e"
  shows "\<exists>e'. exch_step\<^sup>*\<^sup>* e e' \<and> e_rounds e' = Suc (e_rounds e)"
  using rounds.progress [OF exch_reach_inv [OF assms]] by blast

theorem exchange_progress_witness:
  "\<exists>e'. exch_step\<^sup>*\<^sup>* exch_offered e' \<and> e_rounds e' = Suc (e_rounds exch_offered)"
  by (rule exchange_progress [OF exch_offered_reach])

end
