(* ===== verification/TimeEvents.thy ===== *)
theory TimeEvents
  imports Prelude
begin

text \<open>
  \<open>ManualEvent\<close>, \<open>AutoEvent\<close> and \<open>TimeEvent\<close> of new\_rdma (new\_rdma/include/util/time\_event.h):
  flags that threads wait for, and a thread that runs functions after, or every, so many ticks. Each
  method of the flags is atomic under its mutex; a wait that blocks is \<open>None\<close>. The functions of a
  \<open>TimeEvent\<close> change a state of type \<open>'w\<close>; functions that schedule or cancel are left out.
\<close>

section \<open>Flags\<close>

definition me_signal :: "bool \<Rightarrow> bool" where "me_signal signaled = True"
definition me_cancel :: "bool \<Rightarrow> bool" where "me_cancel signaled = True"
definition me_reset :: "bool \<Rightarrow> bool" where "me_reset signaled = False"

definition me_wait :: "bool \<Rightarrow> bool option" where
  "me_wait signaled = (if signaled then Some signaled else None)"

text \<open>\<open>wait_for\<close> and \<open>wait_until\<close>, by the flag at the time they return.\<close>

definition me_wait_for :: "bool \<Rightarrow> bool \<times> bool" where
  "me_wait_for signaled = (signaled, signaled)"

definition ae_signal :: "bool \<Rightarrow> bool" where "ae_signal signaled = True"
definition ae_cancel :: "bool \<Rightarrow> bool" where "ae_cancel signaled = True"

definition ae_wait :: "bool \<Rightarrow> bool option" where
  "ae_wait signaled = (if signaled then Some False else None)"

definition ae_wait_for :: "bool \<Rightarrow> bool \<times> bool" where
  "ae_wait_for signaled = (let result = signaled in (result, if result then False else signaled))"

section \<open>Scheduled functions\<close>

text \<open>\<open>ev_once\<close> tells the functions of \<open>set_timeout\<close> from those of \<open>set_interval\<close>.\<close>

record 'w tevent =
  ev_seq :: nat
  ev_once :: bool
  ev_fun :: "'w \<Rightarrow> 'w"
  ev_ticks :: u64
  ev_elapsed :: u64

text \<open>The events are ordered by their number. \<open>ts_sig\<close> holds the flag of each event, by its number;
  \<open>ts_log\<close> records at which tick which function ran.\<close>

record 'w tstate =
  ts_tick :: nat
  ts_ticks :: nat
  ts_events :: "'w tevent list"
  ts_next :: nat
  ts_sig :: "nat \<Rightarrow> bool"
  ts_world :: 'w
  ts_log :: "(nat \<times> nat) list"

definition ts_new :: "nat \<Rightarrow> nat \<Rightarrow> 'w \<Rightarrow> 'w tstate" where
  "ts_new tick next w = \<lparr>ts_tick = tick, ts_ticks = 0, ts_events = [], ts_next = next, ts_sig = (\<lambda>n. False),
     ts_world = w, ts_log = []\<rparr>"

text \<open>\<open>proc\<close>: whether the event is to be removed, the state, and whether the function ran.\<close>

definition ev_proc :: "(nat \<Rightarrow> bool) \<Rightarrow> 'w tevent \<Rightarrow> 'w \<Rightarrow> bool \<times> 'w \<times> bool" where
  "ev_proc sig e w =
     (let (cancelled, s) = me_wait_for (sig (ev_seq e)) in
      if cancelled then (True, w, False) else (ev_once e, ev_fun e w, True))"

text \<open>One pass over the events at tick \<open>t\<close>.\<close>

fun run_events ::
  "nat \<Rightarrow> (nat \<Rightarrow> bool) \<Rightarrow> 'w tevent list \<Rightarrow> 'w \<Rightarrow> 'w tevent list \<times> 'w \<times> (nat \<times> nat) list" where
  "run_events t sig [] w = ([], w, [])"
| "run_events t sig (e # es) w =
     (let e1 = e\<lparr>ev_elapsed := ev_elapsed e + 1\<rparr> in
      if ev_elapsed e1 = ev_ticks e1
      then let (remove, w1, ran) = ev_proc sig e1 w; (es', w2, l) = run_events t sig es w1;
               l' = (if ran then [(t, ev_seq e)] else []) @ l in
        if remove then (es', w2, l') else (e1\<lparr>ev_elapsed := 0\<rparr> # es', w2, l')
      else let (es', w2, l) = run_events t sig es w in (e1 # es', w2, l))"

definition ts_pass :: "'w tstate \<Rightarrow> 'w tstate" where
  "ts_pass s =
     (let t = Suc (ts_ticks s); (es, w, l) = run_events t (ts_sig s) (ts_events s) (ts_world s) in
      s\<lparr>ts_ticks := t, ts_events := es, ts_world := w, ts_log := ts_log s @ l\<rparr>)"

definition schedule :: "bool \<Rightarrow> nat \<Rightarrow> ('w \<Rightarrow> 'w) \<Rightarrow> 'w tstate \<Rightarrow> (nat \<times> 'w tstate) result" where
  "schedule once period f s =
     (if period < ts_tick s then Inl AssertFail
      else Inr (ts_next s, s\<lparr>ts_next := Suc (ts_next s), ts_sig := (ts_sig s)(ts_next s := False),
        ts_events := ts_events s @ [\<lparr>ev_seq = ts_next s, ev_once = once, ev_fun = f,
          ev_ticks = word_of_nat (period div ts_tick s), ev_elapsed = 0\<rparr>]\<rparr>))"

definition set_timeout :: "nat \<Rightarrow> ('w \<Rightarrow> 'w) \<Rightarrow> 'w tstate \<Rightarrow> (nat \<times> 'w tstate) result" where
  "set_timeout timeout f s = schedule True timeout f s"

definition set_interval :: "nat \<Rightarrow> ('w \<Rightarrow> 'w) \<Rightarrow> 'w tstate \<Rightarrow> (nat \<times> 'w tstate) result" where
  "set_interval interval f s = schedule False interval f s"

definition cancel_event :: "nat \<Rightarrow> 'w tstate \<Rightarrow> 'w tstate" where
  "cancel_event n s = s\<lparr>ts_sig := (ts_sig s)(n := me_cancel (ts_sig s n))\<rparr>"

section \<open>Every event for itself\<close>

definition next_event :: "(nat \<Rightarrow> bool) \<Rightarrow> 'w tevent \<Rightarrow> 'w tevent list" where
  "next_event sig e =
     (if ev_elapsed e + 1 = ev_ticks e
      then if sig (ev_seq e) \<or> ev_once e then [] else [e\<lparr>ev_elapsed := 0\<rparr>]
      else [e\<lparr>ev_elapsed := ev_elapsed e + 1\<rparr>])"

definition event_runs :: "nat \<Rightarrow> (nat \<Rightarrow> bool) \<Rightarrow> 'w tevent \<Rightarrow> (nat \<times> nat) list" where
  "event_runs t sig e = (if ev_elapsed e + 1 = ev_ticks e \<and> \<not> sig (ev_seq e) then [(t, ev_seq e)] else [])"

lemma run_events_each:
  "\<exists>w'. run_events t sig es w = (concat (map (next_event sig) es), w', concat (map (event_runs t sig) es))"
proof (induction es arbitrary: w)
  case (Cons e es)
  have "\<exists>w'. run_events t sig es w1 = (concat (map (next_event sig) es), w', concat (map (event_runs t sig) es))" for w1
    by (rule Cons.IH)
  then obtain g where g: "\<And>w1. run_events t sig es w1
      = (concat (map (next_event sig) es), g w1, concat (map (event_runs t sig) es))"
    by metis
  show ?case
    by (simp add: g next_event_def [of sig e] event_runs_def [of t sig e] ev_proc_def me_wait_for_def Let_def)
qed simp

definition of_event :: "nat \<Rightarrow> 'w tevent list \<Rightarrow> 'w tevent list" where
  "of_event n es = filter (\<lambda>e. ev_seq e = n) es"

definition runs_of :: "nat \<Rightarrow> (nat \<times> nat) list \<Rightarrow> nat list" where
  "runs_of n l = map fst (filter (\<lambda>(t, q). q = n) l)"

lemma runs_of_simps [simp]: "runs_of n [] = []" "runs_of n (l @ l') = runs_of n l @ runs_of n l'"
  by (simp_all add: runs_of_def)

lemma runs_of_one [simp]: "runs_of n [(t, n)] = [t]"
  by (simp add: runs_of_def)

lemma of_event_next: "of_event n (concat (map (next_event sig) es)) = concat (map (next_event sig) (of_event n es))"
  by (induction es) (auto simp: of_event_def next_event_def)

lemma runs_of_event: "runs_of n (concat (map (event_runs t sig) es)) = runs_of n (concat (map (event_runs t sig) (of_event n es)))"
  by (induction es) (auto simp: of_event_def event_runs_def runs_of_def)

lemma ts_pass_event:
  "of_event n (ts_events (ts_pass s)) = concat (map (next_event (ts_sig s)) (of_event n (ts_events s)))"
  "runs_of n (ts_log (ts_pass s)) = runs_of n (ts_log s)
     @ runs_of n (concat (map (event_runs (Suc (ts_ticks s)) (ts_sig s)) (of_event n (ts_events s))))"
  "ts_ticks (ts_pass s) = Suc (ts_ticks s)" "ts_sig (ts_pass s) = ts_sig s"
proof -
  obtain w' where "run_events (Suc (ts_ticks s)) (ts_sig s) (ts_events s) (ts_world s)
      = (concat (map (next_event (ts_sig s)) (ts_events s)), w', concat (map (event_runs (Suc (ts_ticks s)) (ts_sig s)) (ts_events s)))"
    using run_events_each [of "Suc (ts_ticks s)" "ts_sig s" "ts_events s" "ts_world s"] by blast
  then show "of_event n (ts_events (ts_pass s)) = concat (map (next_event (ts_sig s)) (of_event n (ts_events s)))"
    "runs_of n (ts_log (ts_pass s)) = runs_of n (ts_log s)
     @ runs_of n (concat (map (event_runs (Suc (ts_ticks s)) (ts_sig s)) (of_event n (ts_events s))))"
    "ts_ticks (ts_pass s) = Suc (ts_ticks s)" "ts_sig (ts_pass s) = ts_sig s"
    by (simp_all add: ts_pass_def of_event_next runs_of_event [of n _ _ "ts_events s"])
qed

lemma ts_passes_ticks [simp]: "ts_ticks ((ts_pass ^^ n) s) = ts_ticks s + n" "ts_sig ((ts_pass ^^ n) s) = ts_sig s"
  by (induction n) (simp_all add: ts_pass_event)

section \<open>On schedule\<close>

lemma unat_of_nat_64: "n < 2 ^ 64 \<Longrightarrow> unat (word_of_nat n :: u64) = n"
  by (simp add: unsigned_of_nat take_bit_nat_eq_self)

lemma word_at_period:
  assumes "m < k" and "k < 2 ^ 64"
  shows "(word_of_nat m :: u64) + 1 = word_of_nat k \<longleftrightarrow> Suc m = k"
proof
  assume "(word_of_nat m :: u64) + 1 = word_of_nat k"
  then have "(word_of_nat (Suc m) :: u64) = word_of_nat k" by (simp add: add.commute)
  moreover have "unat (word_of_nat (Suc m) :: u64) = Suc m" "unat (word_of_nat k :: u64) = k"
    by (rule unat_of_nat_64, use assms in linarith)+
  ultimately show "Suc m = k" by metis
qed (metis of_nat_Suc add.commute)

text \<open>The event \<open>n\<close> alone, scheduled with a period of \<open>k\<close> ticks.\<close>

definition fresh_event :: "nat \<Rightarrow> bool \<Rightarrow> ('w \<Rightarrow> 'w) \<Rightarrow> nat \<Rightarrow> nat \<Rightarrow> 'w tevent" where
  "fresh_event n once f k j = \<lparr>ev_seq = n, ev_once = once, ev_fun = f, ev_ticks = word_of_nat k, ev_elapsed = word_of_nat j\<rparr>"

lemma fresh_event_steps:
  assumes "j < k" and "k < 2 ^ 64" and "\<not> sig n"
  shows "next_event sig (fresh_event n once f k j)
      = (if Suc j = k then if once then [] else [fresh_event n once f k 0] else [fresh_event n once f k (Suc j)])"
    and "event_runs t sig (fresh_event n once f k j) = (if Suc j = k then [(t, n)] else [])"
  using word_at_period [OF assms(1,2)] assms(3)
  by (simp_all add: next_event_def event_runs_def fresh_event_def add.commute)

lemma timeout_passes:
  assumes "0 < k" and "k < 2 ^ 64" and "\<not> ts_sig s n" and "of_event n (ts_events s) = [fresh_event n True f k 0]"
  shows "of_event n (ts_events ((ts_pass ^^ m) s)) = (if m < k then [fresh_event n True f k m] else [])
    \<and> runs_of n (ts_log ((ts_pass ^^ m) s)) = runs_of n (ts_log s) @ (if m < k then [] else [ts_ticks s + k])"
proof (induction m)
  case 0
  show ?case using assms by simp
next
  case (Suc m)
  let ?s = "(ts_pass ^^ m) s"
  consider "m < k" | "k \<le> m" by linarith
  then show ?case
  proof cases
    case 1
    with Suc have "of_event n (ts_events ?s) = [fresh_event n True f k m]" "runs_of n (ts_log ?s) = runs_of n (ts_log s)" by simp_all
    with 1 show ?thesis
      using assms(3) by (auto simp: ts_pass_event fresh_event_steps [OF 1 assms(2)])
  next
    case 2
    with Suc have "of_event n (ts_events ?s) = []" "runs_of n (ts_log ?s) = runs_of n (ts_log s) @ [ts_ticks s + k]" by simp_all
    with 2 show ?thesis by (simp add: ts_pass_event)
  qed
qed

lemma interval_passes:
  assumes "0 < k" and "k < 2 ^ 64" and "\<not> ts_sig s n" and "of_event n (ts_events s) = [fresh_event n False f k 0]"
  shows "of_event n (ts_events ((ts_pass ^^ m) s)) = [fresh_event n False f k (m mod k)]
    \<and> runs_of n (ts_log ((ts_pass ^^ m) s)) = runs_of n (ts_log s) @ map (\<lambda>i. ts_ticks s + Suc i * k) [0..<m div k]"
proof (induction m)
  case 0
  show ?case using assms by simp
next
  case (Suc m)
  let ?s = "(ts_pass ^^ m) s" and ?j = "m mod k"
  have j: "?j < k" using assms(1) by simp
  note step = fresh_event_steps [OF j assms(2)]
  show ?case
  proof (cases "Suc ?j = k")
    case True
    then have "Suc m mod k = 0" "Suc m div k = Suc (m div k)" by (simp_all add: mod_Suc div_Suc)
    moreover have "Suc (ts_ticks s + m) = ts_ticks s + Suc (m div k) * k"
    proof -
      have "m div k * k + ?j = m" by (rule div_mult_mod_eq)
      with True show ?thesis by (simp only: mult_Suc)
    qed
    moreover have "of_event n (ts_events (ts_pass ?s)) = [fresh_event n False f k 0]"
      "runs_of n (ts_log (ts_pass ?s)) = runs_of n (ts_log ?s) @ [Suc (ts_ticks s + m)]"
      using Suc assms(3) True by (simp_all add: ts_pass_event step)
    ultimately show ?thesis using Suc by (simp only: funpow.simps comp_apply) simp
  next
    case False
    then have "Suc m mod k = Suc ?j" "Suc m div k = m div k" by (simp_all add: mod_Suc div_Suc)
    then show ?thesis using Suc assms(3) False by (simp add: ts_pass_event step)
  qed
qed

text \<open>The numbers given out so far are in use at most once, and the next one is not.\<close>

definition ts_fresh :: "'w tstate \<Rightarrow> bool" where
  "ts_fresh s \<longleftrightarrow> (\<forall>e \<in> set (ts_events s). ev_seq e < ts_next s) \<and> (\<forall>(t, q) \<in> set (ts_log s). q < ts_next s)"

lemma schedule_event:
  assumes "ts_fresh s" and "schedule once period f s = Inr (n, s1)"
  shows "n = ts_next s \<and> of_event n (ts_events s1) = [fresh_event n once f (period div ts_tick s) 0]
    \<and> runs_of n (ts_log s1) = [] \<and> \<not> ts_sig s1 n \<and> ts_ticks s1 = ts_ticks s \<and> ts_tick s \<le> period"
proof -
  have "filter (\<lambda>e. ev_seq e = ts_next s) (ts_events s) = []" "filter (\<lambda>(t, q). q = ts_next s) (ts_log s) = []"
    using assms(1) by (auto simp: ts_fresh_def filter_empty_conv)
  then show ?thesis
    using assms(2) by (auto simp: schedule_def of_event_def runs_of_def fresh_event_def split: if_splits)
qed

text \<open>
  C38. A function given to \<open>set_timeout\<close> runs exactly once, at the tick that is the timeout in whole
  ticks away, and is then forgotten; one given to \<open>set_interval\<close> runs at every multiple of its
  interval and at no other tick; whatever else is scheduled.
\<close>

theorem scheduled_functions_run_on_time:
  assumes "ts_fresh s" and "0 < ts_tick s" and "period < 2 ^ 64" and "k = period div ts_tick s"
    and "ts_tick s \<le> period"
  shows "\<exists>n s1 s2. set_timeout period f s = Inr (n, s1) \<and> set_interval period f s = Inr (n, s2)
    \<and> runs_of n (ts_log ((ts_pass ^^ m) s1)) = (if m < k then [] else [ts_ticks s + k])
    \<and> (k \<le> m \<longrightarrow> of_event n (ts_events ((ts_pass ^^ m) s1)) = [])
    \<and> runs_of n (ts_log ((ts_pass ^^ m) s2)) = map (\<lambda>i. ts_ticks s + Suc i * k) [0..<m div k]"
proof -
  obtain n s1 where s1: "set_timeout period f s = Inr (n, s1)" using assms(5) by (simp add: set_timeout_def schedule_def)
  obtain n' s2 where s2: "set_interval period f s = Inr (n', s2)" using assms(5) by (simp add: set_interval_def schedule_def)
  have k: "0 < k" "k < 2 ^ 64"
  proof -
    show "0 < k" using assms(2,4,5) by (simp add: div_greater_zero_iff)
    have "k \<le> period" using assms(4) by simp
    then show "k < 2 ^ 64" using assms(3) by (rule le_less_trans)
  qed
  note e1 = schedule_event [OF assms(1) s1 [unfolded set_timeout_def]]
  note e2 = schedule_event [OF assms(1) s2 [unfolded set_interval_def]]
  have n: "n' = n" using e1 e2 by simp
  have t: "of_event n (ts_events s1) = [fresh_event n True f k 0]" "runs_of n (ts_log s1) = []" "\<not> ts_sig s1 n"
    "ts_ticks s1 = ts_ticks s"
    unfolding assms(4) using e1 by blast+
  have i: "of_event n (ts_events s2) = [fresh_event n False f k 0]" "runs_of n (ts_log s2) = []" "\<not> ts_sig s2 n"
    "ts_ticks s2 = ts_ticks s"
    unfolding assms(4) using e2 n by blast+
  have T: "of_event n (ts_events ((ts_pass ^^ m) s1)) = (if m < k then [fresh_event n True f k m] else [])"
    "runs_of n (ts_log ((ts_pass ^^ m) s1)) = (if m < k then [] else [ts_ticks s + k])"
    using timeout_passes [OF k t(3,1), of m] by (simp_all only: t(2,4) append_Nil)
  have I: "runs_of n (ts_log ((ts_pass ^^ m) s2)) = map (\<lambda>i. ts_ticks s + Suc i * k) [0..<m div k]"
    using interval_passes [OF k i(3,1), of m] by (simp only: i(2,4) append_Nil)
  have "k \<le> m \<longrightarrow> of_event n (ts_events ((ts_pass ^^ m) s1)) = []" unfolding T(1) by simp
  then show ?thesis
    by (rule_tac x = n in exI, rule_tac x = s1 in exI, rule_tac x = s2 in exI) (simp only: s1 s2 n T(2) I simp_thms)
qed

theorem scheduled_functions_run_on_time_witness:
  "\<exists>n s1 s2. set_timeout 25 Suc (ts_new 10 5 0) = Inr (n, s1) \<and> set_interval 25 Suc (ts_new 10 5 0) = Inr (n, s2)
    \<and> runs_of n (ts_log ((ts_pass ^^ 7) s1)) = [2] \<and> of_event n (ts_events ((ts_pass ^^ 7) s1)) = []
    \<and> runs_of n (ts_log ((ts_pass ^^ 7) s2)) = [2, 4, 6]"
proof -
  define passes :: "nat tstate \<Rightarrow> nat tstate" where "passes = ts_pass ^^ 7"
  have ticks: "ts_fresh (ts_new 10 5 0)" "ts_tick (ts_new 10 5 0) = 10" "ts_ticks (ts_new 10 5 0) = 0"
    by (simp_all add: ts_fresh_def ts_new_def)
  have prem: "0 < ts_tick (ts_new 10 5 0)" "(25 :: nat) < 2 ^ 64" "2 = 25 div ts_tick (ts_new 10 5 0)" "ts_tick (ts_new 10 5 0) \<le> 25"
    unfolding ticks by simp_all
  obtain n s1 s2 where r: "set_timeout 25 Suc (ts_new 10 5 0) = Inr (n, s1)" "set_interval 25 Suc (ts_new 10 5 0) = Inr (n, s2)"
    "runs_of n (ts_log (passes s1)) = (if 7 < (2 :: nat) then [] else [0 + 2])"
    "(2 :: nat) \<le> 7 \<longrightarrow> of_event n (ts_events (passes s1)) = []"
    "runs_of n (ts_log (passes s2)) = map (\<lambda>i. 0 + Suc i * 2) [0..<7 div 2]"
    using scheduled_functions_run_on_time [OF ticks(1) prem, of Suc 7, folded passes_def] unfolding ticks by blast
  have "map (\<lambda>i. 0 + Suc i * 2) [0..<7 div 2] = [2, 4, 6 :: nat]" by (simp add: upt_rec)
  with r show ?thesis unfolding passes_def [symmetric]
    by (rule_tac x = n in exI, rule_tac x = s1 in exI, rule_tac x = s2 in exI) simp
qed

section \<open>The clock of the thread\<close>

text \<open>The times at which the thread wakes for its ticks, in nanoseconds: each pass takes a time, and
  the next wait is shortened by what the passes have fallen behind. A wait for a negative time
  returns at once.\<close>

fun wake_times :: "int \<Rightarrow> int \<Rightarrow> nat \<Rightarrow> int \<Rightarrow> int \<Rightarrow> int list \<Rightarrow> int list" where
  "wake_times tick start ticks drift now [] = []"
| "wake_times tick start ticks drift now (p # ps) =
     (let wake = now + max 0 (tick - drift); ticks' = Suc ticks; now' = wake + p;
          real_duration = now' - start; fake_duration = tick * int ticks' in
      wake # wake_times tick start ticks' (real_duration - fake_duration) now' ps)"

lemma wake_times_nth:
  assumes "\<forall>p \<in> set ps. 0 \<le> p \<and> p \<le> tick" and "drift = now - start - tick * int ticks" and "drift \<le> tick"
  shows "i < length ps \<Longrightarrow> wake_times tick start ticks drift now ps ! i = start + tick * (int ticks + int i + 1)"
  using assms
proof (induction ps arbitrary: ticks drift now i)
  case (Cons p ps)
  have wake: "now + max 0 (tick - drift) = start + tick * (int ticks + 1)"
    using Cons.prems(3,4) by (simp add: algebra_simps)
  show ?case
  proof (cases i)
    case 0
    then show ?thesis using wake by (simp add: Let_def)
  next
    case (Suc j)
    let ?now = "start + tick * (int ticks + 1) + p"
    have "wake_times tick start (Suc ticks) (?now - start - tick * int (Suc ticks)) ?now ps ! j
        = start + tick * (int (Suc ticks) + int j + 1)"
      by (rule Cons.IH) (use Cons.prems Suc in \<open>simp_all add: algebra_simps\<close>)
    then show ?thesis using Suc wake by (simp add: Let_def add.commute)
  qed
qed simp

text \<open>
  The ticks do not drift: as long as no pass takes longer than a tick, the thread wakes for its
  \<open>i\<close>-th tick exactly \<open>i\<close> ticks after it started, however long the passes before took.
\<close>

theorem ticks_do_not_drift:
  assumes "\<forall>p \<in> set ps. 0 \<le> p \<and> p \<le> tick" and "0 \<le> tick" and "i < length ps"
  shows "wake_times tick start 0 0 start ps ! i = start + tick * (int i + 1)"
  using wake_times_nth [OF assms(1), of 0 start start 0 i] assms(2,3) by simp

theorem ticks_do_not_drift_witness: "wake_times 10 100 0 0 100 [3, 10, 0, 7] ! 2 = 130"
  using ticks_do_not_drift [of "[3, 10, 0, 7]" 10 2 100] by simp

end
