(* ===== verification/Timers.thy ===== *)
theory Timers
  imports Prelude
begin

text \<open>
  The timers of RCL: \<open>Timer\<close>, which measures (new\_rdma/include/util/time\_record.h,
  summation\_service/include/util/timer\_record.h and rdma\_full\_mesh\_benchmark/timer.h, three
  copies that differ only in the clock), and \<open>Timer\<close> of rdma\_full\_mesh\_benchmark/timer.cpp, which
  runs a task again and again in a thread of its own until it is told to expire.
\<close>

section \<open>Measuring\<close>

text \<open>Times are in nanoseconds. \<open>ti_elapsed\<close> holds the last reading in each unit.\<close>

record timer =
  ti_initted :: bool
  ti_running :: bool
  ti_has_run :: bool
  ti_start :: int
  ti_stop :: int
  ti_elapsed_ms :: u64
  ti_elapsed_us :: u64
  ti_elapsed_ns :: u64
  ti_elapsed_s :: u64

definition timer_init :: "timer \<Rightarrow> timer" where
  "timer_init t = (if \<not> ti_initted t then t\<lparr>ti_initted := True\<rparr> else t)"

definition timer_new :: "timer \<Rightarrow> timer" where
  "timer_new t = timer_init (t\<lparr>ti_initted := False, ti_running := False, ti_has_run := False\<rparr>)"

text \<open>\<open>now\<close> is what the clock says at the call.\<close>

definition timer_start :: "int \<Rightarrow> timer \<Rightarrow> timer" where
  "timer_start now t = (if \<not> ti_running t then t\<lparr>ti_start := now, ti_running := True, ti_has_run := True\<rparr> else t)"

definition timer_stop :: "int \<Rightarrow> timer \<Rightarrow> timer" where
  "timer_stop now t = (if ti_running t then t\<lparr>ti_stop := now, ti_running := False\<rparr> else t)"

text \<open>\<open>duration_cast\<close> to a unit of \<open>u\<close> nanoseconds rounds towards zero.\<close>

definition duration_cast :: "int \<Rightarrow> int \<Rightarrow> u64" where
  "duration_cast u n = word_of_int (cdiv n u)"

definition timer_read :: "(u64 \<Rightarrow> timer \<Rightarrow> timer) \<Rightarrow> int \<Rightarrow> int \<Rightarrow> timer \<Rightarrow> u64 \<times> timer" where
  "timer_read set_elapsed u now t =
     (if \<not> ti_has_run t then (0, t)
      else let t1 = (if ti_running t then timer_stop now t else t);
               n = duration_cast u (ti_stop t1 - ti_start t1) in (n, set_elapsed n t1))"

definition MilliSeconds :: "int \<Rightarrow> timer \<Rightarrow> u64 \<times> timer" where
  "MilliSeconds = timer_read (\<lambda>n t. t\<lparr>ti_elapsed_ms := n\<rparr>) 1000000"

definition MicroSeconds :: "int \<Rightarrow> timer \<Rightarrow> u64 \<times> timer" where
  "MicroSeconds = timer_read (\<lambda>n t. t\<lparr>ti_elapsed_us := n\<rparr>) 1000"

definition NanoSeconds :: "int \<Rightarrow> timer \<Rightarrow> u64 \<times> timer" where
  "NanoSeconds = timer_read (\<lambda>n t. t\<lparr>ti_elapsed_ns := n\<rparr>) 1"

definition Seconds :: "int \<Rightarrow> timer \<Rightarrow> u64 \<times> timer" where
  "Seconds = timer_read (\<lambda>n t. t\<lparr>ti_elapsed_s := n\<rparr>) 1000000000"

section \<open>A task in a thread of its own\<close>

text \<open>The owner of the timer is outside its methods or waits in \<open>Expire\<close>; the thread is about to look
  at \<open>try_to_expire\<close>, sleeps before the task, or is about to report that it has ended.\<close>

datatype owner = Outside | In_Expire
datatype task_thread = No_Thread | Looks | Sleeps | Leaves

record task_timer =
  tt_expired :: bool
  tt_try :: bool
  tt_owner :: owner
  tt_thread :: task_thread
  tt_runs :: nat

definition task_timer_new :: task_timer where
  "task_timer_new = \<lparr>tt_expired = True, tt_try = False, tt_owner = Outside, tt_thread = No_Thread, tt_runs = 0\<rparr>"

definition start_timer :: "task_timer \<Rightarrow> task_timer" where
  "start_timer t = (if tt_expired t = False then t else t\<lparr>tt_expired := False, tt_thread := Looks\<rparr>)"

text \<open>\<open>Expire\<close> up to its wait, and after it.\<close>

definition expire_begin :: "task_timer \<Rightarrow> task_timer" where
  "expire_begin t = (if tt_expired t then t else if tt_try t then t else t\<lparr>tt_try := True, tt_owner := In_Expire\<rparr>)"

definition expire_end :: "task_timer \<Rightarrow> task_timer" where
  "expire_end t = t\<lparr>tt_try := (if tt_expired t then False else tt_try t), tt_owner := Outside\<rparr>"

inductive timer_step :: "task_timer \<Rightarrow> task_timer \<Rightarrow> bool" where
  start: "tt_owner t = Outside \<Longrightarrow> timer_step t (start_timer t)"
| expire: "tt_owner t = Outside \<Longrightarrow> timer_step t (expire_begin t)"
| expired: "tt_owner t = In_Expire \<Longrightarrow> tt_expired t \<Longrightarrow> timer_step t (expire_end t)"
| look: "tt_thread t = Looks \<Longrightarrow> timer_step t (t\<lparr>tt_thread := if tt_try t then Leaves else Sleeps\<rparr>)"
| task: "tt_thread t = Sleeps \<Longrightarrow> timer_step t (t\<lparr>tt_thread := Looks, tt_runs := Suc (tt_runs t)\<rparr>)"
| leave: "tt_thread t = Leaves \<Longrightarrow> timer_step t (t\<lparr>tt_thread := No_Thread, tt_expired := True\<rparr>)"

inductive timer_reach :: "task_timer \<Rightarrow> bool" where
  init: "timer_reach task_timer_new"
| step: "timer_reach t \<Longrightarrow> timer_step t t' \<Longrightarrow> timer_reach t'"

definition timer_inv :: "task_timer \<Rightarrow> bool" where
  "timer_inv t \<longleftrightarrow> (tt_expired t \<longleftrightarrow> tt_thread t = No_Thread) \<and> (tt_try t \<longleftrightarrow> tt_owner t = In_Expire)
     \<and> (tt_thread t = Leaves \<longrightarrow> tt_try t)"

lemma timer_step_inv: "timer_step t t' \<Longrightarrow> timer_inv t \<Longrightarrow> timer_inv t'"
  by (induction rule: timer_step.induct)
    (auto simp: timer_inv_def start_timer_def expire_begin_def expire_end_def)

lemma timer_inv_new: "timer_inv task_timer_new"
  by (simp add: timer_inv_def task_timer_new_def)

lemma timer_reach_inv: "timer_reach t \<Longrightarrow> timer_inv t"
  by (induction rule: timer_reach.induct) (auto intro: timer_step_inv timer_inv_new)

text \<open>Steps while the owner waits in \<open>Expire\<close>.\<close>

inductive waiting_steps :: "task_timer \<Rightarrow> task_timer \<Rightarrow> bool" where
  now: "waiting_steps t t"
| later: "waiting_steps t t' \<Longrightarrow> tt_owner t' = In_Expire \<Longrightarrow> timer_step t' t'' \<Longrightarrow> waiting_steps t t''"

definition runs_left :: "task_timer \<Rightarrow> nat" where
  "runs_left t = (if tt_thread t = Sleeps then 1 else 0)"

lemma waiting_step_runs:
  assumes "timer_step t t'" and "timer_inv t" and "tt_owner t = In_Expire"
  shows "tt_runs t' + runs_left t' \<le> tt_runs t + runs_left t"
  using assms by (cases rule: timer_step.cases) (auto simp: runs_left_def timer_inv_def expire_end_def)

lemma waiting_steps_inv:
  "waiting_steps t t' \<Longrightarrow> timer_inv t \<Longrightarrow> timer_inv t' \<and> tt_runs t' + runs_left t' \<le> tt_runs t + runs_left t"
  by (induction rule: waiting_steps.induct) (auto dest: timer_step_inv waiting_step_runs)

lemma waiting_first:
  "waiting_steps t1 t' \<Longrightarrow> tt_owner t = In_Expire \<Longrightarrow> timer_step t t1 \<Longrightarrow> waiting_steps t t'"
  by (induction rule: waiting_steps.induct) (auto intro: waiting_steps.intros)

definition may_return :: "task_timer \<Rightarrow> bool" where
  "may_return t \<longleftrightarrow> (\<exists>t'. waiting_steps t t' \<and> tt_owner t' = Outside)"

lemma may_return_step: "tt_owner t = In_Expire \<Longrightarrow> timer_step t t1 \<Longrightarrow> may_return t1 \<Longrightarrow> may_return t"
  unfolding may_return_def by (blast intro: waiting_first)

lemma expire_may_return:
  assumes "timer_inv t" and "tt_owner t = In_Expire"
  shows "may_return t"
proof -
  have gone: "may_return t" if "tt_owner t = In_Expire" "tt_expired t" for t
    by (rule may_return_step [OF that(1) timer_step.expired [OF that]])
      (auto simp: may_return_def expire_end_def intro: waiting_steps.now)
  have leaves: "may_return t" if "tt_owner t = In_Expire" "tt_thread t = Leaves" for t
    by (rule may_return_step [OF that(1) timer_step.leave [OF that(2)]]) (rule gone, use that in simp_all)
  have looks: "may_return t" if "tt_owner t = In_Expire" "tt_thread t = Looks" "tt_try t" for t
    by (rule may_return_step [OF that(1) timer_step.look [OF that(2)]]) (rule leaves, use that in simp_all)
  have sleeps: "may_return t" if "tt_owner t = In_Expire" "tt_thread t = Sleeps" "tt_try t" for t
    by (rule may_return_step [OF that(1) timer_step.task [OF that(2)]]) (rule looks, use that in simp_all)
  show ?thesis using assms gone leaves looks sleeps by (cases "tt_thread t") (auto simp: timer_inv_def)
qed

text \<open>
  C39. \<open>Expire\<close> stops the task: while its owner waits, the task runs at most once more, and only if
  the thread was already on its way to it; when it has returned there is no thread and the timer
  can be started again. It never waits in vain: from every state in which it waits, the thread can
  get to its end, so that it returns.
\<close>

theorem expire_stops_task:
  assumes "timer_reach t" and "tt_owner t = In_Expire"
  shows "(\<forall>t'. waiting_steps t t' \<longrightarrow> tt_runs t' \<le> tt_runs t + (if tt_thread t = Sleeps then 1 else 0)
      \<and> (tt_owner t' = Outside \<longrightarrow> tt_thread t' = No_Thread \<and> tt_expired t' \<and> \<not> tt_try t'))
    \<and> (\<exists>t'. waiting_steps t t' \<and> tt_owner t' = Outside)"
proof
  note inv = timer_reach_inv [OF assms(1)]
  have ended: "waiting_steps s t' \<Longrightarrow> s = t \<Longrightarrow> tt_owner t' = Outside \<longrightarrow> tt_thread t' = No_Thread \<and> tt_expired t' \<and> \<not> tt_try t'"
    for s t'
  proof (induction rule: waiting_steps.induct)
    case (later s t' t'')
    then have "timer_inv t'" using waiting_steps_inv inv by blast
    with later.hyps(3,2) show ?case
      by cases (auto simp: timer_inv_def expire_end_def)
  qed (use assms(2) in simp)
  show "\<forall>t'. waiting_steps t t' \<longrightarrow> tt_runs t' \<le> tt_runs t + (if tt_thread t = Sleeps then 1 else 0)
      \<and> (tt_owner t' = Outside \<longrightarrow> tt_thread t' = No_Thread \<and> tt_expired t' \<and> \<not> tt_try t')"
    using waiting_steps_inv [OF _ inv] ended by (fastforce simp: runs_left_def split: if_splits)
  show "\<exists>t'. waiting_steps t t' \<and> tt_owner t' = Outside"
    using expire_may_return [OF inv assms(2)] by (simp add: may_return_def)
qed

definition expiring_timer :: task_timer where
  "expiring_timer = \<lparr>tt_expired = False, tt_try = True, tt_owner = In_Expire, tt_thread = Sleeps, tt_runs = 0\<rparr>"

lemma expiring_timer_reach: "timer_reach expiring_timer"
proof -
  let ?t1 = "start_timer task_timer_new" and ?t2 = "task_timer_new\<lparr>tt_expired := False, tt_thread := Sleeps\<rparr>"
  have "timer_step task_timer_new ?t1" by (rule timer_step.start) (simp add: task_timer_new_def)
  moreover have "timer_step ?t1 ?t2" using timer_step.look [of ?t1] by (simp add: start_timer_def task_timer_new_def)
  moreover have "timer_step ?t2 expiring_timer"
    using timer_step.expire [of ?t2] by (simp add: task_timer_new_def expire_begin_def expiring_timer_def)
  ultimately show ?thesis by (blast intro: timer_reach.intros)
qed

theorem expire_stops_task_witness:
  "{t'. waiting_steps expiring_timer t' \<and> 1 < tt_runs t'} = {} \<and> (\<exists>t'. waiting_steps expiring_timer t' \<and> tt_owner t' = Outside)"
proof -
  have e: "tt_owner expiring_timer = In_Expire" "tt_runs expiring_timer = 0" "tt_thread expiring_timer = Sleeps"
    by (simp_all add: expiring_timer_def)
  from expire_stops_task [OF expiring_timer_reach e(1)] show ?thesis unfolding e by fastforce
qed

section \<open>What a measurement says\<close>

lemma duration_cast_nonneg: "0 \<le> n \<Longrightarrow> 0 < u \<Longrightarrow> duration_cast u n = word_of_int (n div u)"
  by (simp add: duration_cast_def cdiv_nonneg)

text \<open>
  A measurement: started at \<open>t0\<close>, and perhaps again while it runs, and stopped at \<open>t1\<close>, or read
  at \<open>t1\<close> while it runs, the timer says the time between in whole units, and says the same at every
  later reading until it is started again. A timer that was never started says 0.
\<close>

theorem timer_measures:
  assumes "t0 \<le> t1" and "timer_new t' = t"
  shows "fst (MicroSeconds t1 (timer_start s (timer_start t0 t))) = word_of_int ((t1 - t0) div 1000)
    \<and> MicroSeconds t2 (timer_stop t1 (timer_start t0 t))
      = MicroSeconds t1 (timer_start t0 t)
    \<and> fst (MicroSeconds t3 (snd (MicroSeconds t1 (timer_start t0 t)))) = word_of_int ((t1 - t0) div 1000)
    \<and> fst (MilliSeconds t3 (snd (MicroSeconds t1 (timer_start t0 t)))) = word_of_int ((t1 - t0) div 1000000)
    \<and> MicroSeconds t1 t = (0, t)"
proof -
  have t: "\<not> ti_running t" "\<not> ti_has_run t" using assms(2) by (auto simp: timer_new_def timer_init_def)
  then show ?thesis
    using assms(1) by (simp add: MicroSeconds_def MilliSeconds_def timer_read_def timer_start_def timer_stop_def
        duration_cast_nonneg Let_def)
qed

definition some_timer :: timer where
  "some_timer = \<lparr>ti_initted = True, ti_running = True, ti_has_run = True, ti_start = 9, ti_stop = 9,
     ti_elapsed_ms = 9, ti_elapsed_us = 9, ti_elapsed_ns = 9, ti_elapsed_s = 9\<rparr>"

theorem timer_measures_witness: "fst (MicroSeconds 7500 (timer_start 5000 (timer_start 3000 (timer_new some_timer)))) = 4"
  using timer_measures [of 3000 7500 some_timer "timer_new some_timer" 5000] by simp

end
