(* ===== verification/Spec2Isabelle.thy ===== *)
theory Spec2Isabelle
  imports SpscConc BlockingQueue TaskService SummationOmp Endnode LinkEvents AllReduce Bitmap Epoch BenchCm BenchMain
    NewServiceProps NewDefault NewExchange TimeEvents Timers
begin

text \<open>
  A verification library for RCL, a collection of programs for collective communication over RDMA.

  The repository has three systems. \<open>all_reduce_tree\<close> is the library itself: a networking service,
  which lays a topology (full mesh, ring, double binary tree, tree, server and client) over the
  nodes of a cluster and runs the rounds of an all-reduce over RDMA connections, and a summation
  service, which adds blocks of floats in a background thread. \<open>new_rdma\<close> is a newer transport
  with two channels for each session. \<open>rdma_full_mesh_benchmark\<close> measures a full mesh.

  How the parts interact. \<open>Config::parse_args\<close> makes the configuration,
  \<open>NetworkingService::start_service_async\<close> the servers and clients of a node, each with its own
  copy. A server accepts and a client makes TCP connections (\<open>Endnode\<close>); over each of them two
  adapters exchange where their queue pairs are and connect them (\<open>Sockets\<close>, \<open>Resources\<close>,
  \<open>Adapter\<close>). A client writes its block and waits for a control message; the server takes one
  block from each session of a group and then answers all of them (\<open>Session\<close>, \<open>Server\<close>). In
  \<open>new_rdma\<close> the server offers a buffer over the control channel and the client writes into it
  (\<open>NewSession\<close>, \<open>NewService\<close>); in the benchmark one thread for each connection hands blocks to a
  synchronising thread through two queues (\<open>BenchServer\<close>, \<open>Epoch\<close>). The summation service is fed
  through two lock-free rings (\<open>Spsc\<close>, \<open>Summation\<close>).

  The common ground.
  \<^item> \<open>Prelude\<close>: how a routine stops (\<open>halt\<close>), results as sums, bounds-checked access, C integers.
  \<^item> \<open>CString\<close>: the strings of the standard library. \<open>Verbs\<close>: work requests, completions and the
    calls of libibverbs as a parameter. \<open>Ledger\<close>: what a device promises about its objects.
  \<^item> \<open>Queues\<close>: the locales \<open>fifo_queue\<close> and \<open>bounded_fifo\<close> with what clients of a queue rely on,
    interpreted in \<open>BlockingQueue\<close> and \<open>Spsc\<close>. \<open>Steps\<close>: the locales \<open>stutter_sim\<close> and
    \<open>counted_progress\<close> of step relations, interpreted in \<open>Link\<close>, \<open>LinkEvents\<close>, \<open>AllReduce\<close> and
    \<open>NewExchange\<close>.

  The summation service (all\_reduce\_tree/summation\_service).
  \<^item> \<open>Spsc\<close>, \<open>SpscConc\<close>: \<open>SPSCQueue\<close> of include/util/spsc\_queue.h. On one thread it refines a list
    bounded by its capacity less one; with a producer and a consumer interleaved at each access of
    \<open>head_\<close> and \<open>tail_\<close>, what is popped is a prefix of what is pushed, and no slot is raced for.
  \<^item> \<open>Summation\<close>, \<open>SummationProps\<close>, \<open>TaskService\<close>: lib/summation\_service.cpp. Memory is a map from
    addresses to arrays, addition a parameter. The kernel computes sums from left to right in any
    order of its iterations; the pool frees only what is live; tasks are run and reported in order.
  \<^item> \<open>SummationBench\<close>, \<open>SummationOmp\<close>: the test case and the programs around it.

  The networking service (all\_reduce\_tree/networking\_service).
  \<^item> \<open>Config\<close>, \<open>NetTool\<close>: include/config.h and include/utils/net\_util.h. An accepted command line
    leaves a configuration that is consistent.
  \<^item> \<open>Ring\<close>, \<open>DoubleTree\<close>, \<open>SubGroups\<close>: the topologies (network\_service.h, double\_binary\_tree.h,
    \<open>extract_sub_groups\<close>). The ring is one cycle; the trees agree on their edges and reach their
    roots in logarithmically many hops; the stages of the tree add up the values of all nodes.
  \<^item> \<open>Services\<close>: src/network\_service.cpp, as the list of servers and clients a node launches. In
    every topology a node waits for as many senders as there are clients that connect to it.
  \<^item> \<open>Sockets\<close>: src/pre\_connector.cpp, and pre\_connector.h of new\_rdma. Messages arrive whole
    however TCP cuts them, where the code sees to it, and theorems show where it does not.
  \<^item> \<open>Adapter\<close>, \<open>Resources\<close>: src/rdma\_adapter.cpp. Requests stay in registered memory; connecting
    takes a queue pair from RESET to RTS; everything taken from the device is given back.
  \<^item> \<open>Session\<close>, \<open>Link\<close>, \<open>LinkEvents\<close>: rdma\_session.h and src/rdma\_session.cpp; \<open>Link\<close> interleaves the
    two loops of a connection with the wire, \<open>LinkEvents\<close> does so with completion events.
  \<^item> \<open>Server\<close>, \<open>AllReduce\<close>, \<open>Endnode\<close>: src/rdma\_server.cpp and src/rdma\_client.cpp; \<open>Server\<close> has the
    drivers as functions on a device, \<open>AllReduce\<close> the drivers against all their clients as steps.
    Each session goes through an exchange of \<open>Link\<close>; the rounds are barriers and never get stuck.

  The new transport (new\_rdma).
  \<^item> \<open>BlockingQueue\<close>, \<open>TimeEvents\<close>, \<open>Timers\<close>: include/util (and the timers of the other systems).
  \<^item> \<open>DestMessage\<close>: the text in which sessions exchange their destinations, which is read back as
    it was written. \<open>NewAdapter\<close>, \<open>NewLifecycle\<close>: src/rdma\_adapter.cpp. \<open>NewSession\<close>: the handshake
    of src/rdma\_session.cpp, after which both queue pairs point at each other.
  \<^item> \<open>NewEndpoint\<close>, \<open>NewDefault\<close>, \<open>NewService\<close>, \<open>NewServiceProps\<close>, \<open>NewExchange\<close>: src/rdma\_server.cpp and
    src/rdma\_client.cpp. Receives are posted before the messages they are for, in every
    interleaving; every block goes to the buffer that was offered; the exchange can always go on.

  The benchmark (rdma\_full\_mesh\_benchmark).
  \<^item> \<open>Bitmap\<close>: message.hpp. \<open>BenchBase\<close>, \<open>BenchClient\<close>, \<open>BenchServer\<close>, \<open>BenchCm\<close>: RDMABase, RDMAClient and
    RDMAServer, with the connection manager's event loops. \<open>BenchMain\<close>: RDMABenchmark.cpp.
  \<^item> \<open>Epoch\<close>: \<open>sync_thread_func\<close> against every connection thread; the rounds are in lockstep.

  This theory puts the plans of the nodes and their servers together: a cluster comes up, and the
  tree driver of a node keeps its rounds in lockstep on the groups of its topology.

  Conventions. What is not under src/ is a parameter: the verbs and librdmacm as records of
  functions on a device state, system calls, \<open>getopt_long\<close>, the interfaces of the host, the clock,
  floating-point arithmetic. What a theorem needs of them is a hypothesis with a name, met by a
  concrete device in its witness. A machine integer has its width where it can wrap. Reading past
  an array is \<open>OutOfBounds\<close>, a division by zero a thrown signal, a fatal log line \<open>LogFatal\<close>. Loops
  that need not end take fuel or a number of rounds, and answer \<open>OutOfFuel\<close>: one unit for each
  connection or poll (\<open>Endnode\<close>, \<open>Server\<close>), one for each argument (\<open>Config\<close>), one more than the number of
  nodes for the groups of a tree (\<open>SubGroups\<close>); the theorems say how much is enough. Waiting is
  \<open>None\<close>. In the step relations a connection is reliable and keeps the order of its messages, a
  message that finds no receive sets a flag, and atomic accesses are sequentially consistent.

  Not modelled. Printing, logging and sleeping; \<open>print_config\<close>, \<open>usage\<close> and \<open>test_case_main\<close>, which
  only print; \<open>random_rw_mem\<close>, \<open>flush_cache\<close> and \<open>flush_mem\<close>, which change nothing that is read again;
  the memory copy benchmark test.cpp; main programs that only call what is modelled; stubs without
  behaviour (rdma\_context, the scheduling service). The three older copies of \<open>Timer\<close>, the older
  copy of the blocking queue and NetUtil.hpp are the same code as the copy that is modelled. Not
  covered by any theorem: what the hardware does with the bytes of a block, whether a fair scheduler
  exists (progress says that the next event can always be reached), and memory that is released
  while another thread still uses it (the findings name such places).
\<close>

section \<open>The nodes of a cluster together\<close>

text \<open>A network on which sockets can be bound and listened to, and every \<open>accept\<close> brings a client.\<close>

definition network_up :: "'e netcalls \<Rightarrow> bool" where
  "network_up N \<longleftrightarrow> (\<forall>e fd p. 0 \<le> fst (n_bind N e fd p)) \<and> (\<forall>e fd k. 0 \<le> fst (n_listen N e fd k))
     \<and> (\<forall>e fd. fst (n_accept N e fd) \<noteq> - 1)"

lemma network_up_accepted: "network_up N \<Longrightarrow> \<forall>p \<in> set (fst (accepted N sock k e)). fst p \<noteq> - 1"
  by (induction k arbitrary: e) (auto simp: network_up_def split_beta)

lemma server_comes_up:
  assumes "network_up N" and "single_recv d" and "num_senders d = int k" and "0 < k" and "k \<le> fuel"
  shows "\<exists>n e'. server_connecting fuel N ((endnode_new d)\<lparr>en_sock := sock\<rparr>, e) = Inr (n, e')
    \<and> length (en_sessions n) = k \<and> en_connected n \<and> en_conf n = d"
proof -
  let ?n = "(endnode_new d)\<lparr>en_sock := sock\<rparr>"
  obtain b e1 where b: "n_bind N e (en_sock ?n) (tcp_port (en_conf ?n)) = (b, e1)" by (metis surj_pair)
  obtain l e2 where l: "n_listen N e1 (en_sock ?n) 1024 = (l, e2)" by (metis surj_pair)
  have "0 \<le> b" using assms(1) b by (metis fst_conv network_up_def)
  moreover have "0 \<le> l" using assms(1) l by (metis fst_conv network_up_def)
  ultimately show ?thesis
    using server_connecting_collects [OF b _ l _ assms(4) _ network_up_accepted [OF assms(1)] _ assms(5)] assms(2,3)
    by (simp add: endnode_new_def length_accepted)
qed



section \<open>The tree driver on its topology\<close>

lemma stage_sessions_filter:
  "stage_sessions groups ips l = filter (\<lambda>s. find_group groups (ips ! s) = Some l) [0..<length ips]"
proof -
  have "zip [0..<length ips] ips = map (\<lambda>s. (s, ips ! s)) [0..<length ips]" by (intro nth_equalityI) auto
  then show ?thesis by (simp add: stage_sessions_def filter_map comp_def)
qed

lemma distinct_classes: "distinct xs \<Longrightarrow> distinct (concat (map (\<lambda>l. filter (\<lambda>s. f s = Some l) xs) [0..<k]))"
  by (induction k) auto

lemma stages_partition:
  assumes "tree_ok ns w k" and "a \<in> set ns" and "groups = groups_of ns w True a"
    and "mset ips = mset (concat groups)"
  shows "distinct (concat (map (stage_sessions groups ips) [0..<k]))"
    and "set (concat (map (stage_sessions groups ips) [0..<k])) = {..<length ips}"
proof -
  show "distinct (concat (map (stage_sessions groups ips) [0..<k]))"
    using distinct_classes [of "[0..<length ips]" "\<lambda>s. find_group groups (ips ! s)" k]
    by (simp add: stage_sessions_filter [abs_def])
  have len: "length groups = k" using groups_shape [OF assms(1,2)] assms(3) by (auto simp: groups_of_def)
  have ips: "set ips = set (concat groups)" using assms(4) by (rule mset_eq_setD)
  have "\<exists>l < k. find_group groups (ips ! s) = Some l" if "s < length ips" for s
  proof -
    have p: "ips ! s \<in> set ips" using that by simp
    then obtain l where l: "l < k" "ips ! s \<in> set (groups ! l)" using ips len by (metis (no_types, lifting) UN_E in_set_conv_nth set_concat)
    then show ?thesis using find_group_iff [OF assms(1,2) l(1) assms(3)] p ips by auto
  qed
  then show "set (concat (map (stage_sessions groups ips) [0..<k])) = {..<length ips}"
    by (fastforce simp: stage_sessions_filter)
qed

text \<open>
  C4. The tree all-reduce of a node, from its topology to its rounds: when one session from each node
  of the groups of \<open>extract_sub_groups\<close> has connected, in any order, the driver sorts all of them
  into its groups, each stage getting the sessions of its own nodes; and however it, its clients and their wires are then interleaved, no session is
  answered for a round before the blocks of that round have come from every node of every stage,
  and the round can be completed.
\<close>

theorem tree_driver_lockstep:
  assumes "tree_ok ns w k" and "0 < k" and "a \<in> set ns" and "groups = groups_of ns w True a"
    and "mset ips = mset (concat groups)" and "\<And>x. \<exists>y. prepare x = Inr y"
  shows "\<exists>S' gs. assign_groups prepare groups S (zip [0..<length ips] ips) (replicate (length groups) ([], []))
      = Inr (S', ar_groups (allreduce_init gs))
    \<and> length gs = k \<and> (\<forall>l < k. set (map ((!) ips) (gs ! l)) = set (groups ! l))
    \<and> (\<forall>x. allreduce_step\<^sup>*\<^sup>* (allreduce_init gs) x \<longrightarrow>
        (\<forall>s < length ips. \<forall>t < length ips.
          answered (ar_link x s) \<le> blocks_done (ar_link x t) - imms (srv_cq (ar_link x t)))
        \<and> (\<exists>y. allreduce_step\<^sup>*\<^sup>* x y \<and> ar_round y = Suc (ar_round x)))"
proof -
  let ?gs = "map (stage_sessions groups ips) [0..<k]"
  obtain S' where "assign_groups prepare groups S (zip [0..<length ips] ips) (replicate (length groups) ([], []))
      = Inr (S', map (\<lambda>l. (stage_sessions groups ips l, [])) [0..<k])"
    using tree_assigns [where prepare = prepare and S = S, OF assms(1,3-6)] by blast
  then have "assign_groups prepare groups S (zip [0..<length ips] ips) (replicate (length groups) ([], []))
      = Inr (S', ar_groups (allreduce_init ?gs))" by (simp add: allreduce_init_def)
  moreover have "answered (ar_link x s) \<le> blocks_done (ar_link x t) - imms (srv_cq (ar_link x t))"
    if "allreduce_step\<^sup>*\<^sup>* (allreduce_init ?gs) x" "s < length ips" "t < length ips" for x s t
    using sessions_in_lockstep [OF _ stages_partition(1) [OF assms(1,3-5)] that(1), of s t]
      stages_partition(2) [OF assms(1,3-5)] that(2,3) assms(2) by (simp del: set_concat)
  moreover have "\<exists>y. allreduce_step\<^sup>*\<^sup>* x y \<and> ar_round y = Suc (ar_round x)"
    if "allreduce_step\<^sup>*\<^sup>* (allreduce_init ?gs) x" for x
    using round_completes [OF _ stages_partition(1) [OF assms(1,3-5)] that] assms(2) by simp
  moreover have "length ?gs = k \<and> (\<forall>l < k. set (map ((!) ips) (?gs ! l)) = set (groups ! l))"
    using stage_sessions_complete [OF assms(1,3-5)] by simp
  ultimately show ?thesis by blast
qed

theorem tree_driver_lockstep_witness:
  "\<exists>S' gs. assign_groups Inr (groups_of four_nodes 2 True ''n1'') waiting_adapter
        (zip [0..<length (concat (groups_of four_nodes 2 True ''n1''))] (concat (groups_of four_nodes 2 True ''n1'')))
        (replicate (length (groups_of four_nodes 2 True ''n1'')) ([], [])) = Inr (S', ar_groups (allreduce_init gs))
      \<and> (\<exists>y. allreduce_step\<^sup>*\<^sup>* (allreduce_init gs) y \<and> ar_round y = 1)"
proof -
  have "''n1'' \<in> set four_nodes" by (simp add: four_nodes_def)
  then show ?thesis
    using tree_driver_lockstep [where prepare = Inr and S = waiting_adapter, OF tree_ok_four _ _ refl refl, of "''n1''"]
    by (force simp: allreduce_init_def)
qed

end
